(* ===== verification/Prelude.thy ===== *)
theory Prelude
  imports Main "HOL-Library.Word" "HOL-Library.AList" "HOL-Library.Multiset"
begin

text \<open>
  Shared vocabulary of the development: the machine integers the Rust sources use, the
  result type that makes errors and panics values, the operations of \<open>Vec\<close>,
  \<open>VecDeque\<close> and \<open>HashMap\<close> the sources call, and the generic lemmas on them that
  the component theories rely on.
\<close>

named_theorems res_simps \<open>evaluation of the result type\<close>
named_theorems hmap_simps \<open>lookup and key sets of hash maps\<close>

section \<open>Machine integers\<close>

type_synonym u8 = "8 word"
type_synonym u32 = "32 word"
type_synonym i32 = "32 word"
type_synonym u64 = "64 word"
type_synonym usize = nat

text \<open>
  An \<open>i32\<close> is a 32-bit word that is compared through \<^const>\<open>sint\<close>. A \<open>usize\<close> is a
  natural number; where the sources compute on it with operators that may leave the
  64-bit range, the wrap-around is written out with \<open>usize_wrap\<close> (the release profile,
  which the README runs, wraps silently).
\<close>

definition i32_max :: i32 where
  "i32_max = 0x7FFFFFFF"

definition i32_overflowing_add :: "i32 \<Rightarrow> i32 \<Rightarrow> i32 \<times> bool" where
  "i32_overflowing_add a b = (a + b, sint (a + b) \<noteq> sint a + sint b)"

definition usize_wrap :: "nat \<Rightarrow> usize" where
  "usize_wrap x = x mod 2 ^ 64"

lemma usize_wrap_id [simp]: "x < 2 ^ 64 \<Longrightarrow> usize_wrap x = x"
  by (simp add: usize_wrap_def)

text \<open>\<open>i32 as usize\<close> sign extends to the 64-bit range.\<close>

definition i32_as_usize :: "i32 \<Rightarrow> usize" where
  "i32_as_usize x = nat (sint x mod 2 ^ 64)"

lemma i32_as_usize_nonneg: "0 \<le> sint x \<Longrightarrow> i32_as_usize x = nat (sint x)"
  using sint_lt [of x] by (simp add: i32_as_usize_def)

section \<open>Errors\<close>

text \<open>
  \<open>error::ErrorKind\<close> is generated from the module directories; the constructors below
  are the kinds the modelled code reports. \<open>error::Error\<close> either is a bare kind or wraps
  the message it was built from. A Rust call of the model returns \<open>Inr\<close> of its value,
  \<open>Inl (Err e)\<close> where the source returns \<open>Err(e)\<close>, and \<open>Inl (Panic s)\<close> where it
  panics.
\<close>

datatype error_kind =
    ErrorKind_Error
  | ErrorKind_AsyncRuntime
  | ErrorKind_AsyncRuntimeTokio
  | ErrorKind_Communication
  | ErrorKind_CommunicationMessage
  | ErrorKind_CommunicationChannelFuturesMpsc
  | ErrorKind_ConsensusLog
  | ErrorKind_Core
  | ErrorKind_CoreServer
  | ErrorKind_CryptoHashBlake3Blake3
  | ErrorKind_CryptoSignatureRingEd25519
  | ErrorKind_Executable

datatype error =
    Simple error_kind
  | Wrapped error_kind string

fun error_kind_of :: "error \<Rightarrow> error_kind" where
  "error_kind_of (Simple k) = k"
| "error_kind_of (Wrapped k e) = k"

fun swap_kind :: "error \<Rightarrow> error_kind \<Rightarrow> error" where
  "swap_kind (Simple k') k = Simple k"
| "swap_kind (Wrapped k' e) k = Wrapped k e"

datatype failure = Err error | Panic string

type_synonym 'a res = "failure + 'a"

definition bind_res :: "'a res \<Rightarrow> ('a \<Rightarrow> 'b res) \<Rightarrow> 'b res" where
  "bind_res m f = (case m of Inl e \<Rightarrow> Inl e | Inr x \<Rightarrow> f x)"

lemma bind_res_Inr [simp]: "bind_res (Inr x) f = f x"
  and bind_res_Inl [simp]: "bind_res (Inl e) f = Inl e"
  by (simp_all add: bind_res_def)

lemma bind_res_eq_Inr [res_simps]:
  "bind_res m f = Inr y \<longleftrightarrow> (\<exists>x. m = Inr x \<and> f x = Inr y)"
  by (cases m) auto

lemma bind_res_eq_Inl [res_simps]:
  "bind_res m f = Inl e \<longleftrightarrow> m = Inl e \<or> (\<exists>x. m = Inr x \<and> f x = Inl e)"
  by (cases m) auto

lemma bind_res_cong [fundef_cong]:
  "m = m' \<Longrightarrow> (\<And>x. m' = Inr x \<Longrightarrow> f x = g x) \<Longrightarrow> bind_res m f = bind_res m' g"
  by (cases m') auto

lemma swap_kind_kind: "error_kind_of (swap_kind e k) = k"
  by (cases e) auto

section \<open>Vectors and deques\<close>

text \<open>
  \<open>Vec::swap_remove\<close> and \<open>VecDeque::swap_remove_back\<close> take the element at an index out
  and put the last one in its place. Out of range the first panics and the second returns
  \<open>None\<close>; both are \<open>None\<close> here and the callers say which.
\<close>

definition swap_remove :: "nat \<Rightarrow> 'a list \<Rightarrow> ('a \<times> 'a list) option" where
  "swap_remove i xs =
     (if i < length xs then Some (xs ! i, butlast (xs[i := last xs])) else None)"

lemma swap_remove_last: "xs \<noteq> [] \<Longrightarrow> swap_remove (length xs - 1) xs = Some (last xs, butlast xs)"
  by (cases xs rule: rev_cases) (auto simp: swap_remove_def butlast_append)

lemma swap_remove_mset:
  assumes "swap_remove i xs = Some (x, ys)"
  shows "mset xs = add_mset x (mset ys)"
proof -
  from assms have i: "i < length xs" and x: "x = xs ! i"
    and ys: "ys = butlast (xs[i := last xs])"
    by (auto simp: swap_remove_def split: if_splits)
  from i obtain zs z where xs: "xs = zs @ [z]" by (cases xs rule: rev_cases) auto
  show ?thesis
  proof (cases "i = length zs")
    case True
    with x ys xs show ?thesis by (simp add: butlast_append)
  next
    case False
    with i xs have i': "i < length zs" by simp
    then have "ys = zs[i := z]" using xs ys by (simp add: list_update_append butlast_append)
    moreover have "x = zs ! i" using x xs i' by (simp add: nth_append)
    ultimately show ?thesis using xs i' by (simp add: mset_update)
  qed
qed

lemma swap_remove_length: "swap_remove i xs = Some (x, ys) \<Longrightarrow> length ys = length xs - 1"
  by (auto simp: swap_remove_def split: if_splits)

lemma swap_remove_nth_above:
  "swap_remove i xs = Some (x, ys) \<Longrightarrow> i < j \<Longrightarrow> j < length ys \<Longrightarrow> ys ! j = xs ! j"
  by (auto simp: swap_remove_def nth_butlast split: if_splits)

section \<open>Hash maps\<close>

text \<open>
  A \<open>HashMap\<close> is an association list with distinct keys. Its iteration order is
  unspecified in Rust, so every iteration of the model goes through an order function on
  the keys, of which nothing is known but that it permutes them (\<open>hash_order\<close>).
\<close>

type_synonym ('k, 'v) hmap = "('k \<times> 'v) list"
type_synonym 'k order = "'k list \<Rightarrow> 'k list"

abbreviation hmap_get :: "('k, 'v) hmap \<Rightarrow> 'k \<Rightarrow> 'v option" where
  "hmap_get m \<equiv> map_of m"

abbreviation hmap_insert :: "'k \<Rightarrow> 'v \<Rightarrow> ('k, 'v) hmap \<Rightarrow> ('k, 'v) hmap" where
  "hmap_insert \<equiv> AList.update"

abbreviation hmap_remove :: "'k \<Rightarrow> ('k, 'v) hmap \<Rightarrow> ('k, 'v) hmap" where
  "hmap_remove \<equiv> AList.delete"

definition hmap_contains :: "('k, 'v) hmap \<Rightarrow> 'k \<Rightarrow> bool" where
  "hmap_contains m k = (map_of m k \<noteq> None)"

definition hmap_keys :: "'k order \<Rightarrow> ('k, 'v) hmap \<Rightarrow> 'k list" where
  "hmap_keys ord m = ord (map fst m)"

definition hmap_iter :: "'k order \<Rightarrow> ('k, 'v) hmap \<Rightarrow> ('k \<times> 'v) list" where
  "hmap_iter ord m = List.map_filter (\<lambda>k. map_option (Pair k) (map_of m k)) (hmap_keys ord m)"

definition hmap_values :: "'k order \<Rightarrow> ('k, 'v) hmap \<Rightarrow> 'v list" where
  "hmap_values ord m = map snd (hmap_iter ord m)"

definition hmap_wf :: "('k, 'v) hmap \<Rightarrow> bool" where
  "hmap_wf m = distinct (map fst m)"

definition hash_order :: "'k order \<Rightarrow> bool" where
  "hash_order ord = (\<forall>ks. mset (ord ks) = mset ks)"

lemma hash_order_id [simp]: "hash_order (\<lambda>ks. ks)"
  by (simp add: hash_order_def)

lemma hash_order_rev [simp]: "hash_order rev"
  by (simp add: hash_order_def)

lemma hash_order_set: "hash_order ord \<Longrightarrow> set (ord ks) = set ks"
  by (metis hash_order_def set_mset_mset)

lemma hash_order_length: "hash_order ord \<Longrightarrow> length (ord ks) = length ks"
  by (metis hash_order_def size_mset)

lemma hmap_wf_empty [simp]: "hmap_wf []"
  by (simp add: hmap_wf_def)

lemma hmap_wf_insert [simp]: "hmap_wf m \<Longrightarrow> hmap_wf (hmap_insert k v m)"
  by (simp add: hmap_wf_def distinct_update)

lemma hmap_wf_remove [simp]: "hmap_wf m \<Longrightarrow> hmap_wf (hmap_remove k m)"
  by (simp add: hmap_wf_def distinct_delete)

lemma hmap_contains_iff [hmap_simps]: "hmap_contains m k \<longleftrightarrow> k \<in> fst ` set m"
  by (simp add: hmap_contains_def map_of_eq_None_iff)

lemma hmap_get_insert [hmap_simps]: "hmap_get (hmap_insert k v m) k' = (if k' = k then Some v else hmap_get m k')"
  by (simp add: update_conv')

lemma hmap_get_remove [hmap_simps]: "hmap_get (hmap_remove k m) k' = (if k' = k then None else hmap_get m k')"
  by (simp add: delete_conv')

lemma hmap_contains_insert [hmap_simps]: "hmap_contains (hmap_insert k v m) k' \<longleftrightarrow> k' = k \<or> hmap_contains m k'"
  by (simp add: hmap_contains_def update_conv')

lemma hmap_contains_remove [hmap_simps]: "hmap_contains (hmap_remove k m) k' \<longleftrightarrow> k' \<noteq> k \<and> hmap_contains m k'"
  by (simp add: hmap_contains_def delete_conv')

lemma length_hmap_insert:
  "length (hmap_insert k v m) = (if k \<in> fst ` set m then length m else Suc (length m))"
  by (induction m) auto

lemma hmap_iter_id: "hmap_wf m \<Longrightarrow> hmap_iter (\<lambda>ks. ks) m = m"
proof -
  assume wf: "hmap_wf m"
  have "List.map_filter (\<lambda>k. map_option (Pair k) (map_of m k)) (map fst xs) = xs"
    if "set xs \<subseteq> set m" for xs
    using that wf
    by (induction xs) (auto simp: hmap_wf_def List.map_filter_simps)
  then show ?thesis by (simp add: hmap_iter_def hmap_keys_def)
qed

lemma hmap_iter_mset:
  assumes ord: "hash_order ord" and wf: "hmap_wf m"
  shows "mset (hmap_iter ord m) = mset m"
proof -
  let ?f = "\<lambda>k. map_option (Pair k) (map_of m k)"
  have perm: "mset (List.map_filter ?f xs) = mset (List.map_filter ?f ys)"
    if "mset xs = mset ys" for xs ys
    using that by (simp add: List.map_filter_def)
  have "mset (hmap_iter ord m) = mset (hmap_iter (\<lambda>ks. ks) m)"
    unfolding hmap_iter_def hmap_keys_def
    by (rule perm) (use ord in \<open>simp add: hash_order_def\<close>)
  with wf show ?thesis by (simp add: hmap_iter_id)
qed

lemma hmap_iter_set: "hash_order ord \<Longrightarrow> hmap_wf m \<Longrightarrow> set (hmap_iter ord m) = set m"
  by (metis hmap_iter_mset set_mset_mset)

lemma hmap_values_length: "hash_order ord \<Longrightarrow> hmap_wf m \<Longrightarrow> length (hmap_values ord m) = length m"
  by (metis hmap_iter_mset hmap_values_def length_map size_mset)

lemma hmap_values_set: "hash_order ord \<Longrightarrow> hmap_wf m \<Longrightarrow> set (hmap_values ord m) = snd ` set m"
  by (simp add: hmap_values_def hmap_iter_set)

section \<open>Generic list lemmas\<close>

lemma takeWhile_rev_suffix:
  "xs = rev (dropWhile P (rev xs)) @ rev (takeWhile P (rev xs))"
  by (metis rev_append rev_rev_ident takeWhile_dropWhile_id)

lemma sum_list_indicator: "sum_list (map (\<lambda>x. if P x then 1 else 0) xs) = length (filter P xs)"
  by (induction xs) simp_all

lemma hmap_insert_keys: "fst ` set (hmap_insert k v m) = insert k (fst ` set m)"
  by (induction m) auto

lemma map_of_same: "d \<in> fst ` set m \<Longrightarrow> map_of (map (\<lambda>(d, _). (d, x)) m) d = Some x"
  by (induction m) auto

section \<open>Step relations\<close>

text \<open>
  The two contracts the state machines of the development are proved against: an invariant
  every step keeps, and an abstraction under which every step is an abstract step or none.
\<close>

locale kept_invariant =
  fixes step :: "'a \<Rightarrow> 'a \<Rightarrow> bool"
    and inv :: "'a \<Rightarrow> bool"
  assumes kept: "inv a \<Longrightarrow> step a b \<Longrightarrow> inv b"
begin

lemma reachable_kept: "step\<^sup>*\<^sup>* a b \<Longrightarrow> inv a \<Longrightarrow> inv b"
  by (induction rule: rtranclp_induct) (auto intro: kept)

end

locale forward_simulation = kept_invariant step inv
  for step :: "'a \<Rightarrow> 'a \<Rightarrow> bool" and inv :: "'a \<Rightarrow> bool" +
  fixes abstract_step :: "'b \<Rightarrow> 'b \<Rightarrow> bool"
    and abstraction :: "'a \<Rightarrow> 'b"
  assumes simulates: "inv a \<Longrightarrow> step a b \<Longrightarrow>
    abstraction b = abstraction a \<or> abstract_step (abstraction a) (abstraction b)"
begin

lemma reachable_simulates: "step\<^sup>*\<^sup>* a b \<Longrightarrow> inv a \<Longrightarrow> abstract_step\<^sup>*\<^sup>* (abstraction a) (abstraction b)"
proof (induction rule: rtranclp_induct)
  case (step b c)
  then have "inv b" using reachable_kept by blast
  with step simulates [of b c] show ?case by (auto intro: rtranclp.rtrancl_into_rtrancl)
qed simp

end

end
