(* ===== verification/Ordering.thy ===== *)
theory Ordering
  imports Prelude
begin

text \<open>
  Sequence numbers and the to-be-ordered queues of \<open>src/bft/ordering/mod.rs\<close>. A
  \<open>SeqNo\<close> wraps an \<open>i32\<close>. Its derived \<open>Ord\<close> compares the signed values and is the
  \<open>linorder\<close> instance below; its hand-written \<open>PartialOrd\<close>, which is what the
  Rust comparison operators call, goes through \<open>index\<close> and is \<open>partial_cmp\<close>.
\<close>

section \<open>Sequence numbers\<close>

datatype seq_no = SeqNo (seq_raw: i32)

datatype invalid_seq_no = Small | Big

datatype ordering = Less | Equal | Greater

definition seq_of_u32 :: "u32 \<Rightarrow> seq_no" where
  "seq_of_u32 x = SeqNo x"

definition seq_to_u32 :: "seq_no \<Rightarrow> u32" where
  "seq_to_u32 s = seq_raw s"

definition seq_to_usize :: "seq_no \<Rightarrow> usize" where
  "seq_to_usize s = i32_as_usize (seq_raw s)"

definition seq_zero :: seq_no where
  "seq_zero = SeqNo 0"

instantiation seq_no :: linorder
begin

definition less_eq_seq_no :: "seq_no \<Rightarrow> seq_no \<Rightarrow> bool" where
  "less_eq_seq_no a b = (sint (seq_raw a) \<le> sint (seq_raw b))"

definition less_seq_no :: "seq_no \<Rightarrow> seq_no \<Rightarrow> bool" where
  "less_seq_no a b = (sint (seq_raw a) < sint (seq_raw b))"

instance
proof
  fix a b :: seq_no
  assume "a \<le> b" and "b \<le> a"
  then have "sint (seq_raw a) = sint (seq_raw b)" by (simp add: less_eq_seq_no_def)
  then have "seq_raw a = seq_raw b" by (rule signed_word_eqI)
  then show "a = b" by (rule seq_no.expand)
qed (auto simp: less_eq_seq_no_def less_seq_no_def)

end

definition seq_cmp :: "seq_no \<Rightarrow> seq_no \<Rightarrow> ordering" where
  "seq_cmp a b = (if a < b then Less else if a = b then Equal else Greater)"

definition seq_next :: "seq_no \<Rightarrow> seq_no" where
  "seq_next s =
     (case i32_overflowing_add (seq_raw s) 1 of
        (n, overflow) \<Rightarrow> SeqNo (if overflow then 0 else n))"

definition PERIOD :: u32 where
  "PERIOD = 1000"

definition OVERFLOW_THRES_POS :: int where
  "OVERFLOW_THRES_POS = 10000"

definition OVERFLOW_THRES_NEG :: int where
  "OVERFLOW_THRES_NEG = - OVERFLOW_THRES_POS"

definition DROP_SEQNO_THRES :: i32 where
  "DROP_SEQNO_THRES = PERIOD + drop_bit 1 PERIOD"

definition seq_index :: "seq_no \<Rightarrow> seq_no \<Rightarrow> invalid_seq_no + usize" where
  "seq_index self other =
     (let index =
        (let index = seq_raw self - seq_raw other in
         if sint index < OVERFLOW_THRES_NEG \<or> OVERFLOW_THRES_POS < sint index
         then i32_max + index + 1
         else index)
      in if sint index < 0 \<or> sint DROP_SEQNO_THRES < sint index
         then Inl (if sint index < 0 then Small else Big)
         else Inr (nat (sint index)))"

definition partial_cmp :: "seq_no \<Rightarrow> seq_no \<Rightarrow> ordering" where
  "partial_cmp self other =
     (case seq_index self other of
        Inr n \<Rightarrow> (if n = 0 then Equal else Greater)
      | Inl Small \<Rightarrow> Less
      | Inl Big \<Rightarrow> Greater)"

text \<open>The Rust operators \<open><\<close> and \<open>>=\<close> on \<open>SeqNo\<close> are provided by \<open>partial_cmp\<close>.\<close>

definition seq_lt :: "seq_no \<Rightarrow> seq_no \<Rightarrow> bool" where
  "seq_lt a b = (partial_cmp a b = Less)"

definition seq_ge :: "seq_no \<Rightarrow> seq_no \<Rightarrow> bool" where
  "seq_ge a b = (partial_cmp a b \<noteq> Less)"

subsection \<open>The index on integers\<close>

lemma drop_thres [simp]: "sint DROP_SEQNO_THRES = 1500"
  by (simp add: DROP_SEQNO_THRES_def PERIOD_def)

lemma sint_i32_range: "- (2 ^ 31) \<le> sint (x :: i32)" "sint (x :: i32) < 2 ^ 31"
  using sint_ge [of x] sint_lt [of x] by simp_all

definition wrap_i32 :: "int \<Rightarrow> int" where
  "wrap_i32 k = (k + 2 ^ 31) mod 2 ^ 32 - 2 ^ 31"

lemma wrap_i32_id: "- (2 ^ 31) \<le> k \<Longrightarrow> k < 2 ^ 31 \<Longrightarrow> wrap_i32 k = k"
  by (simp add: wrap_i32_def)

lemma sint_of_int_i32: "sint (word_of_int k :: i32) = wrap_i32 k"
  by (simp add: sint_sbintrunc' signed_take_bit_eq_take_bit_shift take_bit_eq_mod wrap_i32_def)

lemma sint_minus_i32: "sint (a - b :: i32) = wrap_i32 (sint a - sint b)"
proof -
  have "a - b = word_of_int (sint a - sint b)" by simp
  then show ?thesis by (metis sint_of_int_i32)
qed

lemma sint_plus_i32: "sint (a + b :: i32) = wrap_i32 (sint a + sint b)"
proof -
  have "a + b = word_of_int (sint a + sint b)" by simp
  then show ?thesis by (metis sint_of_int_i32)
qed

lemma mod_below: "- m \<le> k \<Longrightarrow> k < 0 \<Longrightarrow> k mod m = k + m" for k m :: int
  by (metis add.commute add_less_same_cancel1 diff_ge_0_iff_ge minus_add_cancel mod_add_self2
      mod_pos_pos_trivial uminus_add_conv_diff)

lemma sint_guard: "sint (i32_max + x + 1) = (if sint x < 0 then sint x + 2 ^ 31 else sint x - 2 ^ 31)"
proof -
  have "i32_max + x + 1 = x + 0x80000000" by (simp add: i32_max_def)
  then have "sint (i32_max + x + 1) = wrap_i32 (sint x + sint (0x80000000 :: i32))"
    by (simp only: sint_plus_i32)
  also have "\<dots> = (if sint x < 0 then sint x + 2 ^ 31 else sint x - 2 ^ 31)"
    using sint_i32_range [of x] by (simp add: wrap_i32_def mod_below)
  finally show ?thesis .
qed

lemma wrap_i32_mod: "wrap_i32 k mod 2 ^ 31 = k mod 2 ^ 31"
proof -
  have "((k + 2 ^ 31) mod 2 ^ 32 - 2 ^ 31) mod 2 ^ 31 = (((k + 2 ^ 31) mod 2 ^ 32) mod 2 ^ 31 - 2 ^ 31 mod 2 ^ 31) mod (2 ^ 31 :: int)"
    by (rule mod_diff_eq [symmetric])
  also have "((k + 2 ^ 31) mod 2 ^ 32) mod 2 ^ 31 = (k + 2 ^ 31) mod (2 ^ 31 :: int)"
    by (rule mod_mod_cancel) simp
  finally show ?thesis by (simp add: wrap_i32_def)
qed

lemma sint_minus_mod: "sint (a - b :: i32) mod 2 ^ 31 = (sint a - sint b) mod 2 ^ 31"
  by (simp only: sint_minus_i32 wrap_i32_mod)

text \<open>The index of one sequence number against another, branch by branch, in terms of the
  wrapping difference of their raw values.\<close>

lemma seq_index_diff:
  "seq_index a b =
     (let d = sint (seq_raw a - seq_raw b) in
      if - 10000 \<le> d \<and> d < 0 then Inl Small
      else if 0 \<le> d \<and> d \<le> 1500 then Inr (nat d)
      else if 0 \<le> d \<and> d \<le> 10000 then Inl Big
      else if 0 \<le> d then Inl Small
      else if d + 2 ^ 31 \<le> 1500 then Inr (nat (d + 2 ^ 31))
      else Inl Big)"
  using sint_i32_range [of "seq_raw a - seq_raw b"]
  by (auto simp: seq_index_def Let_def sint_guard OVERFLOW_THRES_POS_def OVERFLOW_THRES_NEG_def)

lemma seq_index_Inr:
  "seq_index a b = Inr k \<longleftrightarrow>
     k \<le> 1500 \<and> int k = (sint (seq_raw a) - sint (seq_raw b)) mod 2 ^ 31"
proof -
  let ?d = "sint (seq_raw a - seq_raw b)"
  have m: "?d mod 2 ^ 31 = (if 0 \<le> ?d then ?d else ?d + 2 ^ 31)"
    using sint_i32_range [of "seq_raw a - seq_raw b"] by (simp add: mod_below)
  have "seq_index a b = Inr k \<longleftrightarrow> k \<le> 1500 \<and> int k = ?d mod 2 ^ 31"
    using sint_i32_range [of "seq_raw a - seq_raw b"] unfolding m
    by (auto simp: seq_index_diff Let_def)
  then show ?thesis by (simp only: sint_minus_mod)
qed

lemma seq_index_Small:
  "seq_index a b = Inl Small \<longleftrightarrow>
     (let d = sint (seq_raw a - seq_raw b) in - 10000 \<le> d \<and> d < 0 \<or> 10000 < d)"
  by (auto simp: seq_index_diff Let_def)

lemma seq_next_max: "seq_next (SeqNo i32_max) = seq_zero"
  by (simp add: seq_next_def i32_overflowing_add_def i32_max_def seq_zero_def)

lemma seq_next_lt: "seq_raw s \<noteq> i32_max \<Longrightarrow> sint (seq_raw (seq_next s)) = sint (seq_raw s) + 1"
proof -
  assume "seq_raw s \<noteq> i32_max"
  moreover have "sint i32_max = 2 ^ 31 - 1" by (simp add: i32_max_def)
  ultimately have "sint (seq_raw s) \<noteq> 2 ^ 31 - 1" by (metis signed_word_eqI)
  with sint_i32_range [of "seq_raw s"]
  have "sint (seq_raw s + 1) = sint (seq_raw s) + 1"
    by (simp add: sint_plus_i32 wrap_i32_id)
  then show ?thesis by (simp add: seq_next_def i32_overflowing_add_def)
qed

lemma seq_next_mod: "sint (seq_raw (seq_next s)) mod 2 ^ 31 = (sint (seq_raw s) + 1) mod 2 ^ 31"
proof (cases "seq_raw s = i32_max")
  case True
  then have "s = SeqNo i32_max" by (metis seq_no.collapse)
  then have "seq_next s = seq_zero" by (simp add: seq_next_max)
  with True show ?thesis by (simp add: seq_zero_def i32_max_def)
next
  case False
  then show ?thesis by (simp add: seq_next_lt)
qed

lemma seq_next_nonneg: "0 \<le> sint (seq_raw s) \<Longrightarrow> 0 \<le> sint (seq_raw (seq_next s))"
proof (cases "seq_raw s = i32_max")
  case True
  then have "s = SeqNo i32_max" by (metis seq_no.collapse)
  then have "seq_next s = seq_zero" by (simp add: seq_next_max)
  then show ?thesis by (simp add: seq_zero_def)
qed (simp add: seq_next_lt)

lemma seq_next_funpow_mod:
  "sint (seq_raw ((seq_next ^^ k) s)) mod 2 ^ 31 = (sint (seq_raw s) + int k) mod 2 ^ 31"
proof (induction k)
  case (Suc k)
  have "sint (seq_raw ((seq_next ^^ Suc k) s)) mod 2 ^ 31
      = (sint (seq_raw ((seq_next ^^ k) s)) mod 2 ^ 31 + 1) mod 2 ^ 31"
    by (simp add: seq_next_mod [simplified] mod_add_left_eq)
  also have "\<dots> = (sint (seq_raw s) + int (Suc k)) mod 2 ^ 31"
    unfolding Suc.IH by (simp add: mod_add_left_eq mod_add_right_eq algebra_simps)
  finally show ?case .
qed simp

lemma seq_index_next_right:
  assumes "seq_index a b = Inr (Suc k)"
  shows "seq_index a (seq_next b) = Inr k"
proof -
  let ?a = "sint (seq_raw a)" and ?b = "sint (seq_raw b)"
  from assms have le: "Suc k \<le> 1500" and eq: "int (Suc k) = (?a - ?b) mod 2 ^ 31"
    by (auto simp: seq_index_Inr)
  have "(?a - sint (seq_raw (seq_next b))) mod 2 ^ 31 = (?a - (?b + 1)) mod 2 ^ 31"
    by (metis mod_diff_right_eq seq_next_mod)
  also have "\<dots> = ((?a - ?b) mod 2 ^ 31 - 1) mod 2 ^ 31"
    by (simp add: mod_diff_left_eq algebra_simps)
  also have "\<dots> = int k" using le unfolding eq [symmetric] by simp
  finally show ?thesis using le by (simp add: seq_index_Inr)
qed

lemma seq_index_refl [simp]: "seq_index s s = Inr 0"
  by (simp add: seq_index_Inr)

lemma seq_index_funpow: "k \<le> 1500 \<Longrightarrow> seq_index ((seq_next ^^ k) s) s = Inr k"
proof -
  assume "k \<le> 1500"
  moreover have "(sint (seq_raw ((seq_next ^^ k) s)) - sint (seq_raw s)) mod 2 ^ 31 = int k mod 2 ^ 31"
    by (metis add_diff_cancel_left' mod_diff_left_eq seq_next_funpow_mod)
  ultimately show ?thesis by (simp add: seq_index_Inr)
qed

lemma partial_cmp_near:
  assumes "\<bar>sint (seq_raw a) - sint (seq_raw b)\<bar> \<le> 10000"
  shows "partial_cmp a b = seq_cmp a b"
proof -
  have d: "sint (seq_raw a - seq_raw b) = sint (seq_raw a) - sint (seq_raw b)"
    using assms by (simp add: sint_minus_i32 wrap_i32_id)
  have "a = b \<longleftrightarrow> sint (seq_raw a) = sint (seq_raw b)"
    by (metis seq_no.expand signed_word_eqI)
  with assms show ?thesis
    by (auto simp: partial_cmp_def seq_index_diff Let_def d seq_cmp_def less_seq_no_def)
qed

lemma partial_cmp_far:
  assumes "0 \<le> sint (seq_raw b)" and "10000 < sint (seq_raw a) - sint (seq_raw b)"
  shows "partial_cmp a b = Less" and "partial_cmp b a = Greater"
proof -
  have r: "sint (seq_raw a) < 2 ^ 31" by (rule sint_i32_range)
  have "sint (seq_raw a - seq_raw b) = sint (seq_raw a) - sint (seq_raw b)"
    and "sint (seq_raw b - seq_raw a) = sint (seq_raw b) - sint (seq_raw a)"
    using assms r by (simp_all add: sint_minus_i32 wrap_i32_id)
  with assms r show "partial_cmp a b = Less" and "partial_cmp b a = Greater"
    by (auto simp: partial_cmp_def seq_index_diff Let_def)
qed

lemma partial_cmp_Less:
  "partial_cmp a b = Less \<longleftrightarrow>
     (let d = sint (seq_raw a - seq_raw b) in - 10000 \<le> d \<and> d < 0 \<or> 10000 < d)"
  unfolding seq_index_Small [symmetric]
  by (simp add: partial_cmp_def split: sum.splits invalid_seq_no.splits)

lemma partial_cmp_Greater:
  "partial_cmp a b = Greater \<longleftrightarrow>
     (let d = sint (seq_raw a - seq_raw b) in
      0 < d \<and> d \<le> 10000 \<or> d < - 10000 \<and> d \<noteq> - (2 ^ 31))"
  using sint_i32_range [of "seq_raw a - seq_raw b"]
  by (simp add: partial_cmp_def seq_index_diff Let_def)

lemma partial_cmp_antisym: "partial_cmp a b = Less \<longleftrightarrow> partial_cmp b a = Greater"
proof -
  let ?d = "sint (seq_raw a - seq_raw b)" and ?e = "sint (seq_raw b - seq_raw a)"
  have r: "- (2 ^ 31) \<le> ?d" "?d < 2 ^ 31" by (rule sint_i32_range)+
  have "seq_raw b - seq_raw a = 0 - (seq_raw a - seq_raw b)" by simp
  then have "?e = wrap_i32 (- ?d)" by (metis diff_0 signed_0 sint_minus_i32)
  then have "?e = (if ?d = - (2 ^ 31) then ?d else - ?d)"
    using r by (simp add: wrap_i32_def)
  with r show ?thesis
    unfolding partial_cmp_Less partial_cmp_Greater Let_def by (cases "?d = - (2 ^ 31)") auto
qed

lemma seq_ge_refl [simp]: "seq_ge s s"
  by (simp add: seq_ge_def partial_cmp_def seq_index_def OVERFLOW_THRES_NEG_def OVERFLOW_THRES_POS_def)

lemma seq_index_next: "seq_index (seq_next s) s = Inr 1"
  using seq_index_funpow [of 1 s] by simp

section \<open>To-be-ordered queues\<close>

text \<open>
  A \<open>VecDeque\<close> of \<open>VecDeque\<close>s of stored messages. The \<open>Orderable\<close> trait of the
  message type is the argument \<open>sn\<close>: the sequence number of a stored message.
\<close>

type_synonym 'm tbo = "'m list list"

fun tbo_pop_message :: "'m tbo \<Rightarrow> 'm option \<times> 'm tbo" where
  "tbo_pop_message [] = (None, [])"
| "tbo_pop_message (q # tbo) =
     (case q of [] \<Rightarrow> (None, q # tbo) | m # q' \<Rightarrow> (Some m, q' # tbo))"

definition tbo_queue_message :: "('m \<Rightarrow> seq_no) \<Rightarrow> seq_no \<Rightarrow> 'm tbo \<Rightarrow> 'm \<Rightarrow> 'm tbo" where
  "tbo_queue_message sn curr_seq tbo m =
     (case seq_index (sn m) curr_seq of
        Inl _ \<Rightarrow> tbo
      | Inr index \<Rightarrow>
          (let tbo = (if length tbo \<le> index
                      then tbo @ replicate (index - length tbo + 1) [] else tbo)
           in tbo[index := tbo ! index @ [m]]))"

fun tbo_advance_message_queue :: "'m tbo \<Rightarrow> 'm tbo" where
  "tbo_advance_message_queue [] = []"
| "tbo_advance_message_queue (vec # tbo) = tbo @ [[]]"

subsection \<open>What the queue promises\<close>

text \<open>
  Seen from outside, a queue is one list of messages per distance from the current
  sequence number (\<open>tbo_at\<close>). Queueing appends to the list of the message's distance,
  popping takes the head of the list at distance zero, advancing shifts every list by one.
  The interface states this of any implementation; its clients get the ordering
  invariant from it.
\<close>

definition tbo_at :: "'m tbo \<Rightarrow> nat \<Rightarrow> 'm list" where
  "tbo_at tbo i = (if i < length tbo then tbo ! i else [])"

definition slots_ordered :: "('q \<Rightarrow> nat \<Rightarrow> 'm list) \<Rightarrow> ('m \<Rightarrow> seq_no) \<Rightarrow> seq_no \<Rightarrow> 'q \<Rightarrow> bool" where
  "slots_ordered at sn c q = (\<forall>i. \<forall>m \<in> set (at q i). seq_index (sn m) c = Inr i)"

locale ordered_queue =
  fixes queue :: "seq_no \<Rightarrow> 'q \<Rightarrow> 'm \<Rightarrow> 'q"
    and pop :: "'q \<Rightarrow> 'm option \<times> 'q"
    and advance :: "'q \<Rightarrow> 'q"
    and at :: "'q \<Rightarrow> nat \<Rightarrow> 'm list"
    and sn :: "'m \<Rightarrow> seq_no"
  assumes at_queue:
      "at (queue c q m) i = (if seq_index (sn m) c = Inr i then at q i @ [m] else at q i)"
    and pop_None: "at q 0 = [] \<Longrightarrow> pop q = (None, q)"
    and pop_Some: "at q 0 = m # ms \<Longrightarrow> fst (pop q) = Some m"
    and at_pop: "at (snd (pop q)) i = (if i = 0 then tl (at q 0) else at q i)"
    and at_advance: "at (advance q) i = at q (Suc i)"
begin

lemma queue_ordered:
  "slots_ordered at sn c q \<Longrightarrow> slots_ordered at sn c (queue c q m)"
  by (auto simp: slots_ordered_def at_queue)

lemma pop_ordered:
  "slots_ordered at sn c q \<Longrightarrow> slots_ordered at sn c (snd (pop q))"
  by (cases "at q 0") (auto simp: slots_ordered_def at_pop)

lemma pop_index:
  assumes "slots_ordered at sn c q" and "fst (pop q) = Some m"
  shows "seq_index (sn m) c = Inr 0"
proof (cases "at q 0")
  case Nil
  with assms(2) show ?thesis by (simp add: pop_None)
next
  case (Cons m' ms)
  with assms(2) have "m = m'" by (simp add: pop_Some)
  with assms(1) Cons show ?thesis by (auto simp: slots_ordered_def)
qed

lemma advance_ordered:
  "slots_ordered at sn c q \<Longrightarrow> slots_ordered at sn (seq_next c) (advance q)"
  by (auto simp: slots_ordered_def at_advance intro: seq_index_next_right)

lemma at_advance_pow: "at ((advance ^^ k) q) i = at q (k + i)"
  by (induction k arbitrary: i) (simp_all add: at_advance)

lemma advance_pow_ordered:
  "slots_ordered at sn c q \<Longrightarrow> slots_ordered at sn ((seq_next ^^ k) c) ((advance ^^ k) q)"
  by (induction k) (simp_all add: advance_ordered)

lemma queued_then_advanced:
  "seq_index (sn m) c = Inr k \<Longrightarrow> at ((advance ^^ k) (queue c q m)) 0 = at q k @ [m]"
  by (simp add: at_advance_pow at_queue)

lemma out_of_window: "seq_index (sn m) c = Inl e \<Longrightarrow> at (queue c q m) = at q"
  by (simp add: at_queue fun_eq_iff)

end

lemma tbo_at_queue_message:
  "tbo_at (tbo_queue_message sn c tbo m) i =
     (if seq_index (sn m) c = Inr i then tbo_at tbo i @ [m] else tbo_at tbo i)"
  by (cases "seq_index (sn m) c")
    (auto simp: tbo_queue_message_def tbo_at_def Let_def nth_append nth_list_update nth_Cons')

lemma tbo_pop_message_Nil: "tbo_at tbo 0 = [] \<Longrightarrow> tbo_pop_message tbo = (None, tbo)"
  by (cases tbo) (auto simp: tbo_at_def)

lemma tbo_pop_message_Cons:
  "tbo_at tbo 0 = m # ms \<Longrightarrow> fst (tbo_pop_message tbo) = Some m"
  by (cases tbo) (auto simp: tbo_at_def)

lemma tbo_at_pop_message:
  "tbo_at (snd (tbo_pop_message tbo)) i = (if i = 0 then tl (tbo_at tbo 0) else tbo_at tbo i)"
  by (cases tbo) (auto simp: tbo_at_def nth_Cons split: list.splits nat.splits)

lemma tbo_at_advance_message_queue:
  "tbo_at (tbo_advance_message_queue tbo) i = tbo_at tbo (Suc i)"
  by (cases tbo) (auto simp: tbo_at_def nth_append)

lemma tbo_advance_length [simp]: "length (tbo_advance_message_queue tbo) = length tbo"
  by (cases tbo) auto

interpretation tbo: ordered_queue "tbo_queue_message sn" tbo_pop_message
  tbo_advance_message_queue tbo_at sn for sn :: "'m \<Rightarrow> seq_no"
  by unfold_locales
    (simp_all add: tbo_at_queue_message tbo_pop_message_Nil tbo_pop_message_Cons
      tbo_at_pop_message tbo_at_advance_message_queue)

abbreviation tbo_ordered :: "('m \<Rightarrow> seq_no) \<Rightarrow> seq_no \<Rightarrow> 'm tbo \<Rightarrow> bool" where
  "tbo_ordered \<equiv> slots_ordered tbo_at"

lemma tbo_ordered_Nil [simp]: "tbo_ordered sn c []"
  by (simp add: slots_ordered_def tbo_at_def)

section \<open>Properties\<close>

text \<open>
  C28. The window of \<open>SeqNo::index\<close>: a sequence number \<open>a\<close> has index \<open>k\<close> relative to
  \<open>b\<close> exactly when it lies \<open>k\<close> steps ahead of \<open>b\<close> on the circle of \<open>2 ^ 31\<close>
  sequence numbers that \<open>next\<close> walks, and \<open>k\<close> is at most one and a half checkpoint
  periods. In particular \<open>k\<close> applications of \<open>next\<close>, across the wrap from
  \<open>i32::MAX\<close> to zero too, give index \<open>k\<close>.
\<close>

theorem seq_index_window:
  "(seq_index a b = Inr k \<longleftrightarrow>
      k \<le> 1500 \<and> int k = (sint (seq_raw a) - sint (seq_raw b)) mod 2 ^ 31) \<and>
   (seq_index ((seq_next ^^ k) b) b = Inr k \<longleftrightarrow> k \<le> 1500)"
proof
  show "seq_index a b = Inr k \<longleftrightarrow>
      k \<le> 1500 \<and> int k = (sint (seq_raw a) - sint (seq_raw b)) mod 2 ^ 31"
    by (rule seq_index_Inr)
  show "seq_index ((seq_next ^^ k) b) b = Inr k \<longleftrightarrow> k \<le> 1500"
    using seq_index_funpow [of k b] by (auto simp: seq_index_Inr)
qed





end
