(* ===== verification/Core.thy ===== *)
theory Core
  imports Ordering
begin

text \<open>
  Node identifiers (\<open>src/bft/communication/mod.rs\<close>), the system parameters
  (\<open>src/bft/core/mod.rs\<close>) and the view (\<open>ViewInfo\<close> of
  \<open>src/bft/core/server/mod.rs\<close>), with what quorums of the computed size guarantee.
\<close>

section \<open>Node identifiers\<close>

datatype node_id = NodeId (node_raw: u32)

instantiation node_id :: linorder
begin

definition less_eq_node_id :: "node_id \<Rightarrow> node_id \<Rightarrow> bool" where
  "less_eq_node_id a b = (node_raw a \<le> node_raw b)"

definition less_node_id :: "node_id \<Rightarrow> node_id \<Rightarrow> bool" where
  "less_node_id a b = (node_raw a < node_raw b)"

instance
  by standard (auto simp: less_eq_node_id_def less_node_id_def intro: node_id.expand)

end

definition node_of_u32 :: "u32 \<Rightarrow> node_id" where
  "node_of_u32 i = NodeId i"

definition node_of_usize :: "usize \<Rightarrow> node_id" where
  "node_of_usize i = NodeId (of_nat i)"

definition node_to_usize :: "node_id \<Rightarrow> usize" where
  "node_to_usize i = unat (node_raw i)"

definition node_targets :: "usize list \<Rightarrow> node_id list" where
  "node_targets ids = map node_of_usize ids"

lemma unat_of_nat_u32: "a < 2 ^ 32 \<Longrightarrow> unat (of_nat a :: u32) = a"
  by (simp add: unat_of_nat)

lemma node_to_of_usize: "a < 2 ^ 32 \<Longrightarrow> node_to_usize (node_of_usize a) = a"
  by (simp add: node_of_usize_def node_to_usize_def unat_of_nat_u32)

lemma node_of_usize_eq: "a < 2 ^ 32 \<Longrightarrow> b < 2 ^ 32 \<Longrightarrow> node_of_usize a = node_of_usize b \<longleftrightarrow> a = b"
  by (metis node_to_of_usize)

section \<open>System parameters\<close>

record system_params =
  sp_n :: usize
  sp_f :: usize

definition system_params_new :: "usize \<Rightarrow> usize \<Rightarrow> system_params res" where
  "system_params_new n f =
     (if n < usize_wrap (usize_wrap (3 * f) + 1)
      then Inl (Err (Wrapped ErrorKind_Core ''Invalid params: n < 3f + 1''))
      else Inr \<lparr>sp_n = n, sp_f = f\<rparr>)"

definition quorum :: "system_params \<Rightarrow> usize" where
  "quorum p = usize_wrap (usize_wrap (2 * sp_f p) + 1)"

text \<open>Parameters in the range where no intermediate result of the constructor wraps.\<close>

definition params_wf :: "system_params \<Rightarrow> bool" where
  "params_wf p \<longleftrightarrow> 3 * sp_f p + 1 \<le> sp_n p \<and> sp_n p < 2 ^ 32"

lemma quorum_wf: "params_wf p \<Longrightarrow> quorum p = 2 * sp_f p + 1"
  by (simp add: params_wf_def quorum_def)

lemma system_params_new_Inr:
  "3 * f + 1 < 2 ^ 64 \<Longrightarrow>
     system_params_new n f = Inr p \<longleftrightarrow> 3 * f + 1 \<le> n \<and> p = \<lparr>sp_n = n, sp_f = f\<rparr>"
  by (auto simp: system_params_new_def)

section \<open>Quorums\<close>

text \<open>
  What a protocol needs of its quorum size: two quorums overlap in more than \<open>faults p\<close>
  members, and the correct members alone make up a quorum.
\<close>

locale byzantine_quorums =
  fixes ok :: "'p \<Rightarrow> bool"
    and members :: "'p \<Rightarrow> nat"
    and faults :: "'p \<Rightarrow> nat"
    and needed :: "'p \<Rightarrow> nat"
  assumes overlap: "ok p \<Longrightarrow> members p + faults p < 2 * needed p"
    and available: "ok p \<Longrightarrow> needed p + faults p \<le> members p"
begin

lemma quorum_intersection:
  assumes "ok p" and "finite M" and "card M = members p"
    and "A \<subseteq> M" and "B \<subseteq> M" and "needed p \<le> card A" and "needed p \<le> card B"
  shows "faults p < card (A \<inter> B)"
proof -
  have fin: "finite A" "finite B" using assms(2,4,5) finite_subset by blast+
  have "card A + card B = card (A \<union> B) + card (A \<inter> B)"
    by (rule card_Un_Int [OF fin])
  moreover have "card (A \<union> B) \<le> members p"
    using assms(2-5) by (metis card_mono Un_least)
  ultimately show ?thesis using assms(6,7) overlap [OF assms(1)] by linarith
qed

lemma common_correct_member:
  assumes "ok p" and "finite M" and "card M = members p"
    and "A \<subseteq> M" and "B \<subseteq> M" and "needed p \<le> card A" and "needed p \<le> card B"
    and "F \<subseteq> M" and "card F \<le> faults p"
  shows "\<exists>x \<in> A \<inter> B. x \<notin> F"
proof (rule ccontr)
  assume "\<not> ?thesis"
  then have "A \<inter> B \<subseteq> F" by blast
  moreover have "finite F" using assms(2,8) finite_subset by blast
  ultimately have "card (A \<inter> B) \<le> faults p" using assms(9) by (meson card_mono le_trans)
  with quorum_intersection [OF assms(1-7)] show False by simp
qed

lemma correct_quorum:
  assumes "ok p" and "finite M" and "card M = members p" and "F \<subseteq> M" and "card F \<le> faults p"
  shows "needed p \<le> card (M - F)"
proof -
  have "card (M - F) = card M - card F"
    using assms(2,4) by (meson card_Diff_subset finite_subset)
  then show ?thesis using available [OF assms(1)] assms(3,5) by linarith
qed

end

definition params_tight :: "system_params \<Rightarrow> bool" where
  "params_tight p \<longleftrightarrow> params_wf p \<and> sp_n p = 3 * sp_f p + 1"

interpretation bq: byzantine_quorums params_tight sp_n sp_f quorum
  by unfold_locales (simp_all add: params_tight_def quorum_wf)

lemma loose_quorums:
  assumes "params_wf p" and "sp_n p \<noteq> 3 * sp_f p + 1"
  shows "\<exists>A B. A \<subseteq> {..<sp_n p} \<and> B \<subseteq> {..<sp_n p} \<and> quorum p \<le> card A \<and> quorum p \<le> card B \<and>
    card (A \<inter> B) \<le> sp_f p"
proof -
  let ?n = "sp_n p" and ?f = "sp_f p" and ?q = "2 * sp_f p + 1"
  from assms have n: "3 * ?f + 2 \<le> ?n" by (simp add: params_wf_def)
  have "{..<?q} \<inter> {?n - ?q..<?n} \<subseteq> {?n - ?q..<?q}" by auto
  then have "card ({..<?q} \<inter> {?n - ?q..<?n}) \<le> card {?n - ?q..<?q}"
    by (rule card_mono [rotated]) simp
  also have "\<dots> \<le> ?f" using n by simp
  finally show ?thesis
    using n assms(1)
    by (intro exI [of _ "{..<?q}"] exI [of _ "{?n - ?q..<?n}"]) (auto simp: quorum_wf)
qed

section \<open>Views\<close>

record view_info =
  vi_seq :: seq_no
  vi_params :: system_params

definition view_new :: "seq_no \<Rightarrow> usize \<Rightarrow> usize \<Rightarrow> view_info res" where
  "view_new s n f =
     bind_res (system_params_new n f) (\<lambda>params. Inr \<lparr>vi_seq = s, vi_params = params\<rparr>)"

definition view_peek :: "view_info \<Rightarrow> seq_no \<Rightarrow> view_info" where
  "view_peek v s = v\<lparr>vi_seq := s\<rparr>"

definition next_view :: "view_info \<Rightarrow> view_info" where
  "next_view v = view_peek v (seq_next (vi_seq v))"

text \<open>The remainder by \<open>n\<close>, which is never zero for parameters the constructor accepts
  without wrapping.\<close>

definition leader :: "view_info \<Rightarrow> node_id" where
  "leader v = node_of_usize (seq_to_usize (vi_seq v) mod sp_n (vi_params v))"

abbreviation view_quorum :: "view_info \<Rightarrow> usize" where
  "view_quorum v \<equiv> quorum (vi_params v)"

abbreviation view_f :: "view_info \<Rightarrow> usize" where
  "view_f v \<equiv> sp_f (vi_params v)"

abbreviation view_n :: "view_info \<Rightarrow> usize" where
  "view_n v \<equiv> sp_n (vi_params v)"

text \<open>All the replicas of a view: \<open>NodeId::targets(0..n)\<close>.\<close>

definition view_targets :: "view_info \<Rightarrow> node_id list" where
  "view_targets v = node_targets [0..<view_n v]"

lemma next_view_params [simp]: "vi_params (next_view v) = vi_params v"
  by (simp add: next_view_def view_peek_def)

lemma next_view_seq [simp]: "vi_seq (next_view v) = seq_next (vi_seq v)"
  by (simp add: next_view_def view_peek_def)

lemma view_targets_distinct: "params_wf (vi_params v) \<Longrightarrow> distinct (view_targets v)"
  by (auto simp: view_targets_def node_targets_def distinct_map params_wf_def inj_on_def
      node_of_usize_eq)

lemma view_targets_set: "set (view_targets v) = node_of_usize ` {..<view_n v}"
  by (auto simp: view_targets_def node_targets_def)

lemma leader_member: "0 < view_n v \<Longrightarrow> leader v \<in> set (view_targets v)"
  by (simp add: leader_def view_targets_set)

lemma view_targets_next [simp]: "view_targets (next_view v) = view_targets v"
  by (simp add: view_targets_def)

lemma quorum_pos: "params_wf p \<Longrightarrow> 0 < quorum p"
  by (simp add: quorum_wf)

lemma next_view_pow_params [simp]: "vi_params ((next_view ^^ k) v) = vi_params v"
  by (induction k) auto

lemma next_view_pow_seq:
  assumes "0 \<le> sint (seq_raw (vi_seq v))"
    and "sint (seq_raw (vi_seq v)) + int k < 2 ^ 31"
  shows "seq_to_usize (vi_seq ((next_view ^^ k) v)) = seq_to_usize (vi_seq v) + k \<and>
    sint (seq_raw (vi_seq ((next_view ^^ k) v))) = sint (seq_raw (vi_seq v)) + int k"
  using assms(2)
proof (induction k)
  case 0
  then show ?case by simp
next
  case (Suc k)
  let ?s = "vi_seq ((next_view ^^ k) v)"
  from Suc have IH: "seq_to_usize ?s = seq_to_usize (vi_seq v) + k"
    and raw: "sint (seq_raw ?s) = sint (seq_raw (vi_seq v)) + int k" by auto
  from raw Suc.prems have "seq_raw ?s \<noteq> i32_max" by (auto simp: i32_max_def)
  then have "sint (seq_raw (seq_next ?s)) = sint (seq_raw ?s) + 1" by (rule seq_next_lt)
  with raw IH assms(1) show ?case
    by (simp add: seq_to_usize_def i32_as_usize_nonneg)
qed

section \<open>Properties\<close>

text \<open>
  C30. Quorum intersection. For parameters \<open>SystemParams::new\<close> accepts (with \<open>n\<close> in
  the range of a node id), \<open>quorum\<close> is \<open>2f + 1\<close>, the correct replicas alone reach it,
  and any two quorums share more than \<open>f\<close> replicas, so at least one correct one, if and
  only if \<open>n\<close> is exactly \<open>3f + 1\<close>.
\<close>

theorem quorums_intersect_iff:
  assumes "system_params_new n f = Inr p" and "3 * f + 1 < 2 ^ 64" and "n < 2 ^ 32"
  shows "quorum p = 2 * f + 1 \<and> quorum p + f \<le> n \<and>
    ((\<forall>A B. A \<subseteq> {..<n} \<and> B \<subseteq> {..<n} \<and> quorum p \<le> card A \<and> quorum p \<le> card B \<longrightarrow>
        f < card (A \<inter> B)) \<longleftrightarrow> n = 3 * f + 1)"
proof -
  have p: "p = \<lparr>sp_n = n, sp_f = f\<rparr>" and n: "3 * f + 1 \<le> n"
    using assms by (simp_all add: system_params_new_Inr)
  then have wf: "params_wf p" using assms(3) by (simp add: params_wf_def)
  let ?all = "\<forall>A B. A \<subseteq> {..<n} \<and> B \<subseteq> {..<n} \<and> quorum p \<le> card A \<and> quorum p \<le> card B \<longrightarrow>
    f < card (A \<inter> B)"
  have "?all" if "n = 3 * f + 1"
    using bq.quorum_intersection [of p "{..<n}"] that wf p by (simp add: params_tight_def)
  moreover have "n = 3 * f + 1" if all: "?all"
  proof (rule ccontr)
    assume "n \<noteq> 3 * f + 1"
    then obtain A B where "A \<subseteq> {..<n}" "B \<subseteq> {..<n}" "quorum p \<le> card A" "quorum p \<le> card B"
      and le: "card (A \<inter> B) \<le> f"
      using loose_quorums [OF wf] p by auto
    then have "f < card (A \<inter> B)" using all by blast
    with le show False by simp
  qed
  ultimately have "?all \<longleftrightarrow> n = 3 * f + 1" by (rule iffI [rotated])
  moreover have "quorum p = 2 * f + 1" using quorum_wf [OF wf] p by simp
  moreover have "quorum p + f \<le> n" using calculation(2) n by simp
  ultimately show ?thesis by (intro conjI)
qed

theorem quorums_intersect_iff_witness:
  "\<exists>p. system_params_new 4 1 = Inr p \<and> quorum p = 3 \<and> 1 < card ({0, 1, 2} \<inter> {1, 2, 3 :: nat})"
proof -
  let ?p = "\<lparr>sp_n = 4, sp_f = 1\<rparr>"
  have new: "system_params_new 4 1 = Inr ?p" by (simp add: system_params_new_def)
  have q: "quorum ?p = 3" by (simp add: quorum_def)
  have all: "\<forall>A B. A \<subseteq> {..<4 :: nat} \<and> B \<subseteq> {..<4} \<and> quorum ?p \<le> card A \<and> quorum ?p \<le> card B \<longrightarrow>
      1 < card (A \<inter> B)"
    using quorums_intersect_iff [OF new] by simp
  have "1 < card ({0, 1, 2} \<inter> {1, 2, 3 :: nat})"
    by (rule all [rule_format]) (simp add: quorum_def)
  with new q show ?thesis by blast
qed

text \<open>
  Leader rotation: from a view whose sequence number is far enough from the wrap, the
  leader of the \<open>k\<close>-th next view is \<open>k\<close> places further on the ring of the \<open>n\<close>
  replicas, so every replica leads one of the next \<open>n\<close> views.
\<close>

theorem leader_rotation:
  assumes "params_wf (vi_params v)" and "0 \<le> sint (seq_raw (vi_seq v))"
    and "sint (seq_raw (vi_seq v)) + int (view_n v) < 2 ^ 31"
  shows "(\<forall>k < view_n v. node_to_usize (leader ((next_view ^^ k) v)) =
      (node_to_usize (leader v) + k) mod view_n v) \<and>
    (\<forall>i < view_n v. \<exists>k < view_n v. leader ((next_view ^^ k) v) = node_of_usize i)"
proof -
  let ?n = "view_n v" and ?s = "seq_to_usize (vi_seq v)"
  have n: "0 < ?n" "?n < 2 ^ 32" using assms(1) by (simp_all add: params_wf_def)
  have lead: "leader ((next_view ^^ k) v) = node_of_usize ((?s + k) mod ?n)" if "k < ?n" for k
    using next_view_pow_seq [of v k] assms(2,3) that by (simp add: leader_def)
  have small: "(?s + k) mod ?n < 2 ^ 32" for k
    using n by (meson less_trans mod_less_divisor)
  have "node_to_usize (leader ((next_view ^^ k) v)) = (node_to_usize (leader v) + k) mod ?n"
    if "k < ?n" for k
    using lead [OF that] lead [of 0] small [of k] small [of 0] n(1)
    by (simp add: node_to_of_usize mod_add_left_eq)
  moreover have "\<exists>k < ?n. leader ((next_view ^^ k) v) = node_of_usize i" if i: "i < ?n" for i
  proof (intro exI conjI)
    let ?k = "(i + (?n - ?s mod ?n)) mod ?n"
    show "?k < ?n" using n by simp
    have "(?s + ?k) mod ?n = (?s mod ?n + (i + (?n - ?s mod ?n))) mod ?n"
      by (simp add: mod_add_left_eq mod_add_right_eq)
    also have "?s mod ?n + (i + (?n - ?s mod ?n)) = i + ?n"
      using mod_less_divisor [OF n(1), of ?s] by simp
    finally show "leader ((next_view ^^ ?k) v) = node_of_usize i"
      using lead [OF \<open>?k < ?n\<close>] i by simp
  qed
  ultimately show ?thesis by blast
qed

theorem leader_rotation_witness:
  "node_to_usize (leader ((next_view ^^ 2) \<lparr>vi_seq = SeqNo 7, vi_params = \<lparr>sp_n = 4, sp_f = 1\<rparr>\<rparr>)) = 1"
proof -
  let ?v = "\<lparr>vi_seq = SeqNo 7, vi_params = \<lparr>sp_n = 4, sp_f = 1\<rparr>\<rparr>"
  have "node_to_usize (leader ?v) = 3"
    by (simp add: leader_def seq_to_usize_def i32_as_usize_def node_of_usize_def node_to_usize_def)
  moreover have "\<forall>k < view_n ?v. node_to_usize (leader ((next_view ^^ k) ?v)) =
      (node_to_usize (leader ?v) + k) mod view_n ?v"
    using leader_rotation [of ?v] by (simp add: params_wf_def)
  ultimately show ?thesis by (auto dest: spec [of _ 2])
qed

end
