(* ===== verification/Crypto.thy ===== *)
theory Crypto
  imports Prelude
begin

text \<open>
  Hash digests (\<open>src/bft/crypto/hash\<close>, with the BLAKE3 backend the default features
  select), signatures (\<open>src/bft/crypto/signature\<close>, with the Ed25519 backend) and the
  little-endian byte encodings of the integers that are hashed and sent. The \<open>blake3\<close>
  and \<open>ring\<close> crates are the parameters gathered in the record \<open>crypto\<close>; what the code
  relies on of them is \<open>crypto_ok\<close>.
\<close>

section \<open>The cryptographic primitives\<close>

record crypto =
  blake3 :: "u8 list \<Rightarrow> u8 list"
  ed25519_from_seed :: "u8 list \<Rightarrow> u8 list option"
  ed25519_sign :: "u8 list \<Rightarrow> u8 list \<Rightarrow> u8 list"
  ed25519_verify :: "u8 list \<Rightarrow> u8 list \<Rightarrow> u8 list \<Rightarrow> bool"

definition DIGEST_LENGTH :: nat where
  "DIGEST_LENGTH = 32"

definition ED25519_PUBLIC_KEY_LEN :: nat where
  "ED25519_PUBLIC_KEY_LEN = 32"

definition SIGNATURE_LENGTH :: nat where
  "SIGNATURE_LENGTH = 64"

definition crypto_ok :: "('z) crypto_scheme \<Rightarrow> bool" where
  "crypto_ok c \<longleftrightarrow>
     (\<forall>bs. length (blake3 c bs) = DIGEST_LENGTH) \<and>
     (\<forall>seed pk. ed25519_from_seed c seed = Some pk \<longrightarrow> length pk = ED25519_PUBLIC_KEY_LEN) \<and>
     (\<forall>seed m. length (ed25519_sign c seed m) = SIGNATURE_LENGTH) \<and>
     (\<forall>seed pk m. ed25519_from_seed c seed = Some pk \<longrightarrow>
        ed25519_verify c pk m (ed25519_sign c seed m))"

section \<open>Digests\<close>

datatype digest = Digest (digest_bytes: "u8 list")

datatype hash_context = Context (context_input: "u8 list")

definition context_new :: hash_context where
  "context_new = Context []"

definition context_update :: "hash_context \<Rightarrow> u8 list \<Rightarrow> hash_context" where
  "context_update ctx bs = Context (context_input ctx @ bs)"

definition context_finish :: "('z) crypto_scheme \<Rightarrow> hash_context \<Rightarrow> digest" where
  "context_finish c ctx = Digest (blake3 c (context_input ctx))"

definition digest_from_bytes :: "u8 list \<Rightarrow> digest res" where
  "digest_from_bytes raw_bytes =
     (if length raw_bytes < DIGEST_LENGTH
      then Inl (Err (Wrapped ErrorKind_CryptoHashBlake3Blake3 ''Digest has an invalid length''))
      else Inr (Digest (take DIGEST_LENGTH raw_bytes)))"

definition digest_entropy :: "('z) crypto_scheme \<Rightarrow> digest \<Rightarrow> u8 list \<Rightarrow> digest" where
  "digest_entropy c d nonce =
     context_finish c (context_update (context_update context_new nonce) (digest_bytes d))"

lemma digest_entropy_eq: "digest_entropy c d nonce = Digest (blake3 c (nonce @ digest_bytes d))"
  by (simp add: digest_entropy_def context_finish_def context_update_def context_new_def)

section \<open>Signatures\<close>

datatype signature = Signature (signature_bytes: "u8 list")

datatype public_key = PublicKey (public_key_bytes: "u8 list")

record key_pair =
  kp_sk :: "u8 list"
  kp_pk :: public_key

definition public_key_from_bytes :: "u8 list \<Rightarrow> public_key res" where
  "public_key_from_bytes raw_bytes =
     (if length raw_bytes < ED25519_PUBLIC_KEY_LEN
      then Inl (Err (Wrapped ErrorKind_CryptoSignatureRingEd25519
             ''Public key has an invalid length''))
      else Inr (PublicKey (take ED25519_PUBLIC_KEY_LEN raw_bytes)))"

definition key_pair_from_bytes :: "('z) crypto_scheme \<Rightarrow> u8 list \<Rightarrow> key_pair res" where
  "key_pair_from_bytes c seed_bytes =
     (case ed25519_from_seed c seed_bytes of
        None \<Rightarrow> Inl (Err (Wrapped ErrorKind_CryptoSignatureRingEd25519
                  ''Invalid seed for ed25519 key''))
      | Some pk \<Rightarrow> Inr \<lparr>kp_sk = seed_bytes, kp_pk = PublicKey (take ED25519_PUBLIC_KEY_LEN pk)\<rparr>)"

definition signature_from_bytes :: "u8 list \<Rightarrow> signature res" where
  "signature_from_bytes raw_bytes =
     (if length raw_bytes < SIGNATURE_LENGTH
      then Inl (Err (Wrapped ErrorKind_CryptoSignatureRingEd25519
             ''Signature has an invalid length''))
      else Inr (Signature (take SIGNATURE_LENGTH raw_bytes)))"

definition key_pair_sign :: "('z) crypto_scheme \<Rightarrow> key_pair \<Rightarrow> u8 list \<Rightarrow> signature" where
  "key_pair_sign c k message = Signature (take SIGNATURE_LENGTH (ed25519_sign c (kp_sk k) message))"

definition public_key_verify ::
  "('z) crypto_scheme \<Rightarrow> public_key \<Rightarrow> u8 list \<Rightarrow> signature \<Rightarrow> unit res" where
  "public_key_verify c pk message s =
     (if ed25519_verify c (public_key_bytes pk) message (signature_bytes s) then Inr ()
      else Inl (Err (Wrapped ErrorKind_CryptoSignatureRingEd25519 ''Invalid signature'')))"

lemma sign_then_verify:
  assumes "crypto_ok c" and "key_pair_from_bytes c seed = Inr k"
  shows "public_key_verify c (kp_pk k) m (key_pair_sign c k m) = Inr ()"
proof -
  obtain pk where pk: "ed25519_from_seed c seed = Some pk"
    and k: "k = \<lparr>kp_sk = seed, kp_pk = PublicKey (take ED25519_PUBLIC_KEY_LEN pk)\<rparr>"
    using assms(2) by (auto simp: key_pair_from_bytes_def split: option.splits)
  have "take ED25519_PUBLIC_KEY_LEN pk = pk" and "length (ed25519_sign c seed m) = SIGNATURE_LENGTH"
    and "ed25519_verify c pk m (ed25519_sign c seed m)"
    using assms(1) pk by (simp_all add: crypto_ok_def)
  then show ?thesis by (simp add: public_key_verify_def key_pair_sign_def k)
qed

section \<open>Little-endian encodings\<close>

definition le_bytes :: "nat \<Rightarrow> 'a::len word \<Rightarrow> u8 list" where
  "le_bytes k w = map (\<lambda>i. ucast (drop_bit (8 * i) w)) [0..<k]"

fun of_le_bytes :: "u8 list \<Rightarrow> 'a::len word" where
  "of_le_bytes [] = 0"
| "of_le_bytes (b # bs) = or (ucast b) (push_bit 8 (of_le_bytes bs))"

definition u32_le :: "u32 \<Rightarrow> u8 list" where
  "u32_le = le_bytes 4"

definition u64_le :: "u64 \<Rightarrow> u8 list" where
  "u64_le = le_bytes 8"

lemma length_le_bytes [simp]: "length (le_bytes k w) = k"
  by (simp add: le_bytes_def)

lemma length_u32_le [simp]: "length (u32_le w) = 4"
  and length_u64_le [simp]: "length (u64_le v) = 8"
  by (simp_all add: u32_le_def u64_le_def)

lemma bit_le_bytes: "i < k \<Longrightarrow> bit (le_bytes k w ! i) j \<longleftrightarrow> j < 8 \<and> bit w (8 * i + j)"
  for w :: "'a::len word"
  by (auto simp: le_bytes_def bit_simps)

lemma bit_of_le_bytes:
  "bit (of_le_bytes bs :: 'a::len word) n \<longleftrightarrow>
     n < LENGTH('a) \<and> n div 8 < length bs \<and> bit (bs ! (n div 8)) (n mod 8)"
proof (induction bs arbitrary: n)
  case Nil
  then show ?case by simp
next
  case (Cons b bs)
  show ?case
  proof (cases "n < 8")
    case True
    then show ?thesis by (auto simp: bit_simps)
  next
    case False
    then have "n div 8 = Suc ((n - 8) div 8)" and "n mod 8 = (n - 8) mod 8"
      by (simp_all add: le_div_geq le_mod_geq not_less)
    moreover have "\<not> bit b n" using False by (auto dest: bit_imp_le_length)
    ultimately show ?thesis using False by (auto simp: bit_simps Cons.IH)
  qed
qed

lemma of_le_le_bytes:
  "LENGTH('a) \<le> 8 * k \<Longrightarrow> of_le_bytes (le_bytes k w) = (w :: 'a::len word)"
proof (rule bit_word_eqI)
  fix n
  assume k: "LENGTH('a) \<le> 8 * k" and "n < LENGTH('a)"
  then have "n div 8 < k" by auto
  with \<open>n < LENGTH('a)\<close> show "bit (of_le_bytes (le_bytes k w) :: 'a word) n \<longleftrightarrow> bit w n"
    by (simp add: bit_of_le_bytes bit_le_bytes)
qed

lemma le_bytes_of_le:
  assumes "8 * length bs \<le> LENGTH('a::len)"
  shows "le_bytes (length bs) (of_le_bytes bs :: 'a word) = bs"
proof (rule nth_equalityI)
  fix i
  assume "i < length (le_bytes (length bs) (of_le_bytes bs :: 'a word))"
  then have i: "i < length bs" by simp
  show "le_bytes (length bs) (of_le_bytes bs :: 'a word) ! i = bs ! i"
  proof (rule bit_word_eqI)
    fix j
    assume "j < LENGTH(8)"
    then have j: "j < 8" by simp
    then have "8 * i + j < LENGTH('a)" using assms i by simp
    then show "bit (le_bytes (length bs) (of_le_bytes bs :: 'a word) ! i) j \<longleftrightarrow> bit (bs ! i) j"
      using i j by (simp add: bit_le_bytes bit_of_le_bytes)
  qed
qed simp

lemma u32_le_round [simp]: "of_le_bytes (u32_le w) = w"
  and u64_le_round [simp]: "of_le_bytes (u64_le v) = v"
  by (simp_all add: u32_le_def u64_le_def of_le_le_bytes)

lemma u32_le_of: "length bs = 4 \<Longrightarrow> u32_le (of_le_bytes bs) = bs"
  using le_bytes_of_le [of bs, where 'a = 32] by (simp add: u32_le_def)

lemma u64_le_of: "length bs = 8 \<Longrightarrow> u64_le (of_le_bytes bs) = bs"
  using le_bytes_of_le [of bs, where 'a = 64] by (simp add: u64_le_def)

end
