(* ===== verification/Messages.thy ===== *)
theory Messages
  imports Core Crypto
begin

text \<open>
  The messages replicas and clients exchange (\<open>src/bft/communication/message/mod.rs\<close>)
  with the data they carry: the decision log and its proofs
  (\<open>src/bft/consensus/log/mod.rs\<close>), the recovery state (\<open>src/bft/cst/mod.rs\<close>), the
  leader's collects (\<open>src/bft/sync/mod.rs\<close>) and the replies of the execution layer
  (\<open>src/bft/executable/mod.rs\<close>); then the wire header, its byte layout and the checks of
  a wire message.
\<close>

section \<open>Headers and stored messages\<close>

record header =
  h_align :: u32
  h_version :: u32
  h_from :: u32
  h_to :: u32
  h_nonce :: u64
  h_length :: u64
  h_digest :: "u8 list"
  h_signature :: "u8 list"

datatype 'm stored_message = StoredMessage (sm_header: header) (sm_message: 'm)

definition header_from :: "header \<Rightarrow> node_id" where
  "header_from h = node_of_u32 (h_from h)"

definition header_to :: "header \<Rightarrow> node_id" where
  "header_to h = node_of_u32 (h_to h)"

definition payload_length :: "header \<Rightarrow> usize" where
  "payload_length h = unat (h_length h)"

definition header_signature :: "header \<Rightarrow> signature" where
  "header_signature h = Signature (h_signature h)"

definition header_digest :: "header \<Rightarrow> digest" where
  "header_digest h = Digest (h_digest h)"

definition unique_digest :: "('z) crypto_scheme \<Rightarrow> header \<Rightarrow> digest" where
  "unique_digest c h = digest_entropy c (header_digest h) (u64_le (h_nonce h))"

section \<open>Consensus messages\<close>

datatype consensus_message_kind =
    PrePrepare "digest list"
  | Prepare digest
  | Commit digest

record consensus_message =
  cm_seq :: seq_no
  cm_view :: seq_no
  cm_kind :: consensus_message_kind

type_synonym stored_consensus = "consensus_message stored_message"

definition has_proposed_digest :: "consensus_message \<Rightarrow> digest \<Rightarrow> bool option" where
  "has_proposed_digest m d =
     (case cm_kind m of
        PrePrepare _ \<Rightarrow> None
      | Prepare d' \<Rightarrow> Some (d' = d)
      | Commit d' \<Rightarrow> Some (d' = d))"

text \<open>\<open>take_proposed_requests\<close> moves the proposed batch out of a \<open>PRE-PREPARE\<close>, leaving an
  empty one behind, and leaves other messages alone.\<close>

definition take_proposed_requests ::
  "consensus_message \<Rightarrow> digest list option \<times> consensus_message" where
  "take_proposed_requests m =
     (case cm_kind m of
        PrePrepare v \<Rightarrow> (Some v, m\<lparr>cm_kind := PrePrepare []\<rparr>)
      | _ \<Rightarrow> (None, m))"

abbreviation stored_seq :: "stored_consensus \<Rightarrow> seq_no" where
  "stored_seq s \<equiv> cm_seq (sm_message s)"

abbreviation stored_view :: "stored_consensus \<Rightarrow> seq_no" where
  "stored_view s \<equiv> cm_view (sm_message s)"

section \<open>Decision log, proofs and collects\<close>

record decision_log =
  dl_last_exec :: "seq_no option"
  dl_pre_prepares :: "stored_consensus list"
  dl_prepares :: "stored_consensus list"
  dl_commits :: "stored_consensus list"

record decision_proof =
  pf_pre_prepare :: stored_consensus
  pf_prepares :: "stored_consensus list"
  pf_commits :: "stored_consensus list"

datatype view_decision_pair = ViewDecisionPair seq_no digest

record incomplete_proof =
  ip_in_exec :: seq_no
  ip_write_set :: "view_decision_pair list"
  ip_quorum_writes :: "view_decision_pair option"

record collect_data =
  cd_incomplete_proof :: incomplete_proof
  cd_last_proof :: "decision_proof option"

record 's checkpoint =
  cp_seq :: seq_no
  cp_appstate :: 's

record ('s, 'o) recovery_state =
  rs_view :: view_info
  rs_checkpoint :: "'s checkpoint"
  rs_requests :: "'o list"
  rs_declog :: decision_log

section \<open>Requests, view changes, state transfer\<close>

datatype 'o request_message = RequestMessage (rm_operation: 'o)

datatype 'p reply_message = ReplyMessage (rp_digest: digest) (rp_payload: 'p)

type_synonym 'o stored_request = "'o request_message stored_message"

text \<open>
  A leader's collects hold stored view change messages and are themselves sent in one, so in
  the source the three types refer to each other. Here the collects and the kinds have the
  type of the messages as the parameter \<open>'m\<close>, and \<open>view_change_message\<close> puts itself there.
\<close>

datatype 'm leader_collects =
    LeaderCollects (lc_proposed: "digest list") (lc_collects: "'m stored_message list")

datatype ('o, 'm) view_change_message_kind =
    Stop "'o request_message stored_message list"
  | StopData collect_data
  | Sync "'m leader_collects"

datatype 'o view_change_message =
    ViewChangeMessage (vc_view: seq_no)
      (vc_kind: "('o, 'o view_change_message) view_change_message_kind")

type_synonym 'o stored_view_change = "'o view_change_message stored_message"

definition leader_collects_empty :: "'m leader_collects" where
  "leader_collects_empty = LeaderCollects [] []"

definition take_collects ::
  "'o view_change_message \<Rightarrow> 'o view_change_message leader_collects option \<times> 'o view_change_message" where
  "take_collects m =
     (case vc_kind m of
        Sync collects \<Rightarrow> (Some collects, ViewChangeMessage (vc_view m) (Sync leader_collects_empty))
      | _ \<Rightarrow> (None, m))"

datatype ('s, 'o) cst_message_kind =
    RequestLatestConsensusSeq
  | ReplyLatestConsensusSeq seq_no
  | RequestState
  | ReplyState "('s, 'o) recovery_state"

record ('s, 'o) cst_message =
  cst_m_seq :: seq_no
  cst_m_kind :: "('s, 'o) cst_message_kind"

definition take_state :: "('s, 'o) cst_message \<Rightarrow> ('s, 'o) recovery_state option \<times> ('s, 'o) cst_message" where
  "take_state m =
     (case cst_m_kind m of
        ReplyState st \<Rightarrow> (Some st, m\<lparr>cst_m_kind := RequestState\<rparr>)
      | _ \<Rightarrow> (None, m))"

datatype ('s, 'o, 'p) system_message =
    SM_Request "'o request_message"
  | SM_Reply "'p reply_message"
  | SM_Consensus consensus_message
  | SM_Cst "('s, 'o) cst_message"
  | SM_ViewChange "'o view_change_message"
  | SM_ForwardedRequests "'o stored_request list"

section \<open>Messages of the master channel\<close>

datatype timeout_kind =
    Timeout_Cst seq_no
  | Timeout_ClientRequests seq_no

datatype 'p update_reply = UpdateReply (ur_to: node_id) (ur_digest: digest) (ur_payload: 'p)

type_synonym socket = nat

datatype ('s, 'o, 'p) message =
    System header "('s, 'o, 'p) system_message"
  | ConnectedTx node_id socket
  | ConnectedRx node_id socket
  | DisconnectedTx node_id
  | DisconnectedRx "node_id option"
  | ExecutionFinished "'p update_reply list"
  | ExecutionFinishedWithAppstate "'p update_reply list" 's
  | Timeout timeout_kind

definition message_header :: "('s, 'o, 'p) message \<Rightarrow> header res" where
  "message_header m =
     (let expected = (\<lambda>s. Inl (Err (Wrapped ErrorKind_CommunicationMessage s))) in
      case m of
        System h _ \<Rightarrow> Inr h
      | ConnectedTx _ _ \<Rightarrow> expected ''Expected System found ConnectedTx''
      | ConnectedRx _ _ \<Rightarrow> expected ''Expected System found ConnectedRx''
      | DisconnectedTx _ \<Rightarrow> expected ''Expected System found DisconnectedTx''
      | DisconnectedRx _ \<Rightarrow> expected ''Expected System found DisconnectedRx''
      | ExecutionFinished _ \<Rightarrow> expected ''Expected System found ExecutionFinished''
      | ExecutionFinishedWithAppstate _ _ \<Rightarrow>
          expected ''Expected System found ExecutionFinishedWithAppstate''
      | Timeout _ \<Rightarrow> expected ''Expected System found Timeout'')"

section \<open>The wire header\<close>

text \<open>
  \<open>Header\<close> is \<open>repr(C, packed)\<close>: its memory is the concatenation of its fields, 128
  bytes. On a little-endian target (\<open>serialize_into\<close> transmutes the value as it is
  there) the integers are little-endian.
\<close>

definition HEADER_LENGTH :: nat where
  "HEADER_LENGTH = 128"

definition header_bytes :: "header \<Rightarrow> u8 list" where
  "header_bytes h =
     u32_le (h_align h) @ u32_le (h_version h) @ u32_le (h_from h) @ u32_le (h_to h) @
     u64_le (h_nonce h) @ u64_le (h_length h) @ h_digest h @ h_signature h"

definition header_of_bytes :: "u8 list \<Rightarrow> header" where
  "header_of_bytes bs =
     \<lparr>h_align = of_le_bytes (take 4 bs),
      h_version = of_le_bytes (take 4 (drop 4 bs)),
      h_from = of_le_bytes (take 4 (drop 8 bs)),
      h_to = of_le_bytes (take 4 (drop 12 bs)),
      h_nonce = of_le_bytes (take 8 (drop 16 bs)),
      h_length = of_le_bytes (take 8 (drop 24 bs)),
      h_digest = take DIGEST_LENGTH (drop 32 bs),
      h_signature = take SIGNATURE_LENGTH (drop 64 bs)\<rparr>"

definition header_serialize_into :: "header \<Rightarrow> u8 list \<Rightarrow> u8 list res" where
  "header_serialize_into h buf =
     (if length buf < HEADER_LENGTH
      then Inl (Err (Wrapped ErrorKind_CommunicationMessage ''Buffer is too short to serialize into''))
      else Inr (header_bytes h @ drop HEADER_LENGTH buf))"

definition header_deserialize_from :: "u8 list \<Rightarrow> header res" where
  "header_deserialize_from buf =
     (if length buf < HEADER_LENGTH
      then Inl (Err (Wrapped ErrorKind_CommunicationMessage ''Buffer is too short to deserialize from''))
      else Inr (header_of_bytes (take HEADER_LENGTH buf)))"

text \<open>The array fields of a header have the lengths their types say.\<close>

definition header_wf :: "header \<Rightarrow> bool" where
  "header_wf h \<longleftrightarrow> length (h_digest h) = DIGEST_LENGTH \<and> length (h_signature h) = SIGNATURE_LENGTH"

lemma length_header_bytes: "header_wf h \<Longrightarrow> length (header_bytes h) = HEADER_LENGTH"
  by (simp add: header_wf_def header_bytes_def HEADER_LENGTH_def DIGEST_LENGTH_def SIGNATURE_LENGTH_def)

lemma header_of_header_bytes: "header_wf h \<Longrightarrow> header_of_bytes (header_bytes h) = h"
  by (simp add: header_wf_def header_bytes_def header_of_bytes_def DIGEST_LENGTH_def SIGNATURE_LENGTH_def)

lemma header_bytes_of_bytes:
  assumes "length bs = HEADER_LENGTH"
  shows "header_bytes (header_of_bytes bs) = bs"
proof -
  let ?p = "\<lambda>n m. take m (drop n bs)"
  have len: "length bs = 128" using assms by (simp add: HEADER_LENGTH_def)
  have "header_bytes (header_of_bytes bs) =
      ?p 0 4 @ ?p 4 4 @ ?p 8 4 @ ?p 12 4 @ ?p 16 8 @ ?p 24 8 @ ?p 32 32 @ ?p 64 64"
    using len by (simp add: header_bytes_def header_of_bytes_def u32_le_of u64_le_of
        DIGEST_LENGTH_def SIGNATURE_LENGTH_def)
  also have "\<dots> = bs"
  proof -
    have split: "?p n m @ drop (n + m) bs = drop n bs" for n m
      by (metis add.commute append_take_drop_id drop_drop)
    have "?p 64 64 = drop 64 bs" using len by simp
    with split [of 32 32] split [of 8 24] split [of 8 16] split [of 4 12] split [of 4 8]
      split [of 4 4] split [of 4 0] show ?thesis by simp
  qed
  finally show ?thesis .
qed

section \<open>Wire messages\<close>

record wire_message =
  wm_header :: header
  wm_payload :: "u8 list"

definition CURRENT_VERSION :: u32 where
  "CURRENT_VERSION = 0"

definition digest_parts :: "('z) crypto_scheme \<Rightarrow> u32 \<Rightarrow> u32 \<Rightarrow> u64 \<Rightarrow> u8 list \<Rightarrow> digest" where
  "digest_parts c from to nonce payload =
     (let ctx = context_new;
          ctx = context_update ctx (u32_le CURRENT_VERSION);
          ctx = context_update ctx (u32_le from);
          ctx = context_update ctx (u32_le to);
          ctx = context_update ctx (u64_le nonce);
          ctx = context_update ctx (u64_le (of_nat (length payload)));
          ctx = context_update ctx payload
      in context_finish c ctx)"

definition sign_parts :: "('z) crypto_scheme \<Rightarrow> key_pair \<Rightarrow> u32 \<Rightarrow> u32 \<Rightarrow> u64 \<Rightarrow> u8 list \<Rightarrow> signature" where
  "sign_parts c sk from to nonce payload =
     key_pair_sign c sk (digest_bytes (digest_parts c from to nonce payload))"

definition verify_parts ::
  "('z) crypto_scheme \<Rightarrow> public_key \<Rightarrow> signature \<Rightarrow> u32 \<Rightarrow> u32 \<Rightarrow> u64 \<Rightarrow> u8 list \<Rightarrow> unit res" where
  "verify_parts c pk sig from to nonce payload =
     public_key_verify c pk (digest_bytes (digest_parts c from to nonce payload)) sig"

definition wire_message_new ::
  "('z) crypto_scheme \<Rightarrow> node_id \<Rightarrow> node_id \<Rightarrow> u8 list \<Rightarrow> u64 \<Rightarrow> digest option \<Rightarrow> key_pair option
     \<Rightarrow> wire_message" where
  "wire_message_new c from to payload nonce dig sk =
     (let dig = (case dig of Some d \<Rightarrow> digest_bytes d | None \<Rightarrow> replicate DIGEST_LENGTH 0);
          sig = (case sk of
                   Some sk \<Rightarrow> signature_bytes (sign_parts c sk (node_raw from) (node_raw to) nonce dig)
                 | None \<Rightarrow> replicate SIGNATURE_LENGTH 0)
      in \<lparr>wm_header =
            \<lparr>h_align = 0, h_version = CURRENT_VERSION, h_from = node_raw from, h_to = node_raw to,
             h_nonce = nonce, h_length = of_nat (length payload), h_digest = dig,
             h_signature = sig\<rparr>,
          wm_payload = payload\<rparr>)"

definition wire_message_is_valid :: "('z) crypto_scheme \<Rightarrow> wire_message \<Rightarrow> public_key option \<Rightarrow> bool" where
  "wire_message_is_valid c wm pk =
     (let h = wm_header wm in
      if h_version h \<noteq> CURRENT_VERSION \<or> h_length h \<noteq> of_nat (length (wm_payload wm)) then False
      else (case pk of
              Some pk \<Rightarrow>
                (case verify_parts c pk (header_signature h) (h_from h) (h_to h) (h_nonce h) (h_digest h) of
                   Inr _ \<Rightarrow> True | Inl _ \<Rightarrow> False)
            | None \<Rightarrow> True))"

definition wire_message_from_parts ::
  "('z) crypto_scheme \<Rightarrow> header \<Rightarrow> u8 list \<Rightarrow> wire_message res" where
  "wire_message_from_parts c h payload =
     (let wm = \<lparr>wm_header = h, wm_payload = payload\<rparr> in
      if \<not> wire_message_is_valid c wm None then Inl (Err (Simple ErrorKind_CommunicationMessage))
      else Inr wm)"

lemma wire_message_new_valid:
  assumes "crypto_ok c" and "key_pair_from_bytes c seed = Inr k"
  shows "wire_message_is_valid c (wire_message_new c from to payload nonce d (Some k)) (Some (kp_pk k))"
proof -
  have "public_key_verify c (kp_pk k) m (Signature (signature_bytes (key_pair_sign c k m))) = Inr ()" for m
    using sign_then_verify [OF assms, of m] by simp
  then show ?thesis
    by (simp add: wire_message_is_valid_def wire_message_new_def Let_def verify_parts_def
        sign_parts_def header_signature_def split: option.splits)
qed

lemma wire_message_new_header_wf:
  assumes "crypto_ok c" and "\<And>d'. d = Some d' \<Longrightarrow> length (digest_bytes d') = DIGEST_LENGTH"
  shows "header_wf (wm_header (wire_message_new c from to payload nonce d sk))"
  using assms
  by (auto simp: header_wf_def wire_message_new_def Let_def sign_parts_def key_pair_sign_def
      crypto_ok_def split: option.splits)

section \<open>Properties\<close>

text \<open>
  The wire header round trips both ways: serialising a header into a buffer that is
  long enough overwrites its first 128 bytes only, and deserialising the result gives the
  header back; and every 128 bytes are the serialisation of the header they deserialise
  to. A shorter buffer is an error in both directions.
\<close>

theorem header_roundtrip:
  "(header_wf h \<and> HEADER_LENGTH \<le> length buf \<longrightarrow>
      (\<exists>out. header_serialize_into h buf = Inr out \<and> length out = length buf \<and>
         drop HEADER_LENGTH out = drop HEADER_LENGTH buf \<and>
         header_deserialize_from out = Inr h)) \<and>
   (HEADER_LENGTH \<le> length buf \<longrightarrow>
      (\<exists>h'. header_deserialize_from buf = Inr h' \<and> header_wf h' \<and>
         header_serialize_into h' buf = Inr buf)) \<and>
   (length buf < HEADER_LENGTH \<longrightarrow>
      (\<exists>e. header_serialize_into h buf = Inl (Err e)) \<and> (\<exists>e. header_deserialize_from buf = Inl (Err e)))"
proof (intro conjI impI)
  assume "header_wf h \<and> HEADER_LENGTH \<le> length buf"
  then show "\<exists>out. header_serialize_into h buf = Inr out \<and> length out = length buf \<and>
      drop HEADER_LENGTH out = drop HEADER_LENGTH buf \<and> header_deserialize_from out = Inr h"
    by (simp add: header_serialize_into_def header_deserialize_from_def length_header_bytes
        header_of_header_bytes)
next
  assume len: "HEADER_LENGTH \<le> length buf"
  have "header_wf (header_of_bytes (take HEADER_LENGTH buf))"
    using len by (simp add: header_wf_def header_of_bytes_def HEADER_LENGTH_def DIGEST_LENGTH_def
        SIGNATURE_LENGTH_def)
  with len show "\<exists>h'. header_deserialize_from buf = Inr h' \<and> header_wf h' \<and>
      header_serialize_into h' buf = Inr buf"
    by (simp add: header_serialize_into_def header_deserialize_from_def header_bytes_of_bytes)
qed (simp_all add: header_serialize_into_def header_deserialize_from_def)

theorem header_roundtrip_witness:
  "\<exists>out. header_serialize_into \<lparr>h_align = 0, h_version = 0, h_from = 1, h_to = 2, h_nonce = 3, h_length = 4,
       h_digest = replicate 32 7, h_signature = replicate 64 9\<rparr> (replicate 130 0) = Inr out \<and>
     header_deserialize_from out = Inr \<lparr>h_align = 0, h_version = 0, h_from = 1, h_to = 2, h_nonce = 3,
       h_length = 4, h_digest = replicate 32 7, h_signature = replicate 64 9\<rparr>"
proof -
  let ?h = "\<lparr>h_align = 0, h_version = 0, h_from = 1, h_to = 2, h_nonce = 3, h_length = 4,
    h_digest = replicate 32 7, h_signature = replicate 64 9\<rparr>"
  have "HEADER_LENGTH \<le> length (replicate 130 (0 :: u8))" by (simp add: HEADER_LENGTH_def)
  moreover have "header_wf ?h" by (simp add: header_wf_def DIGEST_LENGTH_def SIGNATURE_LENGTH_def)
  ultimately show ?thesis using header_roundtrip [of ?h "replicate 130 0"] by blast
qed

end
