(* ===== verification/Prng.thy ===== *)
theory Prng
  imports Prelude
begin

text \<open>
  The generator of \<open>src/bft/prng/mod.rs\<close> that supplies message nonces: the state of
  \<open>xoshiro256**\<close>, its step and its long jump.
\<close>

unbundle bit_operations_syntax

section \<open>The generator\<close>

datatype prng_state = Prng (prng_s0: u64) (prng_s1: u64) (prng_s2: u64) (prng_s3: u64)

definition rotl :: "u64 \<Rightarrow> nat \<Rightarrow> u64" where
  "rotl x k = (push_bit k x) OR (drop_bit (64 - k) x)"

fun next_state :: "prng_state \<Rightarrow> u64 \<times> prng_state" where
  "next_state (Prng s0 s1 s2 s3) =
     (let result = rotl (s1 * 5) 7 * 9;
          t = push_bit 17 s1;
          s2 = s2 XOR s0;
          s3 = s3 XOR s1;
          s1 = s1 XOR s2;
          s0 = s0 XOR s3;
          s2 = s2 XOR t;
          s3 = rotl s3 45
      in (result, Prng s0 s1 s2 s3))"

definition LONG_JUMP :: "u64 list" where
  "LONG_JUMP =
     [0x76e15d3efefdcbbf, 0xc5004e441c522fb3, 0x77710069854ee241, 0x39109bb02acbe635]"

fun prng_xor :: "prng_state \<Rightarrow> prng_state \<Rightarrow> prng_state" where
  "prng_xor (Prng a0 a1 a2 a3) (Prng b0 b1 b2 b3) =
     Prng (a0 XOR b0) (a1 XOR b1) (a2 XOR b2) (a3 XOR b3)"

definition jump_bit :: "u64 \<Rightarrow> nat \<Rightarrow> prng_state \<times> prng_state \<Rightarrow> prng_state \<times> prng_state" where
  "jump_bit jmp_val b =
     (\<lambda>(acc, self).
        (if jmp_val AND push_bit b 1 \<noteq> 0 then prng_xor acc self else acc,
         snd (next_state self)))"

definition long_jump :: "prng_state \<Rightarrow> prng_state" where
  "long_jump self =
     fst (fold (\<lambda>jmp_val. fold (jump_bit jmp_val) [0..<64]) LONG_JUMP (Prng 0 0 0 0, self))"

text \<open>The seed of \<open>State::new\<close> comes from the operating system; its 32 bytes are read as
  four little-endian words.\<close>

definition prng_new :: "u64 \<times> u64 \<times> u64 \<times> u64 \<Rightarrow> prng_state" where
  "prng_new seed = (case seed of (a, b, c, d) \<Rightarrow> long_jump (Prng a b c d))"

section \<open>The step is injective\<close>

lemma rotl_bit: "k < 64 \<Longrightarrow> bit (rotl x k) n \<longleftrightarrow>
    n < 64 \<and> (k \<le> n \<and> bit x (n - k) \<or> bit x (64 - k + n))"
  by (auto simp: rotl_def bit_or_iff bit_push_bit_iff bit_drop_bit_eq not_le
      dest: bit_imp_le_length)

lemma rotl_inj: "k < 64 \<Longrightarrow> rotl x k = rotl y k \<Longrightarrow> x = y"
proof (rule bit_eqI)
  fix n
  assume k: "k < 64" and eq: "rotl x k = rotl y k"
  have hi: "\<not> bit z m" if "64 \<le> m" for z :: u64 and m
    using that by (auto dest: bit_imp_le_length)
  show "bit x n \<longleftrightarrow> bit y n"
  proof (cases "n < 64")
    case n: True
    show ?thesis
    proof (cases "n + k < 64")
      case True
      then have "bit (rotl z k) (n + k) \<longleftrightarrow> bit z n" for z
        using k hi [of "64 - k + (n + k)" z] by (simp add: rotl_bit)
      with eq show ?thesis by metis
    next
      case False
      then have "n + k - 64 < 64" "\<not> k \<le> n + k - 64" "64 - k + (n + k - 64) = n"
        using k n by auto
      then have "bit (rotl z k) (n + k - 64) \<longleftrightarrow> bit z n" for z
        using k by (simp add: rotl_bit)
      with eq show ?thesis by metis
    qed
  next
    case False
    then show ?thesis using hi [of n x] hi [of n y] by simp
  qed
qed

lemma xor_shift_zero:
  assumes "z = push_bit 17 (z :: u64)"
  shows "z = 0"
proof (rule bit_eqI)
  fix n
  show "bit z n \<longleftrightarrow> bit (0 :: u64) n"
  proof (induction n rule: less_induct)
    case (less n)
    have "bit z n \<longleftrightarrow> bit (push_bit 17 z) n" using assms by simp
    also have "\<dots> \<longleftrightarrow> 17 \<le> n \<and> n < 64 \<and> bit z (n - 17)" by (auto simp: bit_push_bit_iff)
    finally show ?case using less [of "n - 17"] by (cases "17 \<le> n") auto
  qed
qed

lemma xor_cancel_right: "x XOR z = y XOR z \<Longrightarrow> x = y" for x y z :: u64
proof -
  assume "x XOR z = y XOR z"
  then have "(x XOR z) XOR z = (y XOR z) XOR z" by simp
  then show ?thesis by (simp add: xor.assoc)
qed

lemma xor_cancel_left: "z XOR x = z XOR y \<Longrightarrow> x = y" for x y z :: u64
  using xor_cancel_right [of x z y] by (simp add: xor.commute)

lemma xor_shift_inj:
  assumes "x XOR push_bit 17 x = y XOR push_bit 17 (y :: u64)"
  shows "x = y"
proof -
  have "(x XOR y) XOR push_bit 17 (x XOR y) = (x XOR push_bit 17 x) XOR (y XOR push_bit 17 y)"
    by (rule bit_eqI) (auto simp: bit_xor_iff push_bit_xor)
  also have "\<dots> = 0" using assms by simp
  finally have "(x XOR y) XOR push_bit 17 (x XOR y) = push_bit 17 (x XOR y) XOR push_bit 17 (x XOR y)"
    by simp
  then have "x XOR y = push_bit 17 (x XOR y)" by (rule xor_cancel_right)
  then have "x XOR y = 0" by (rule xor_shift_zero)
  then have "x XOR y = y XOR y" by simp
  then show ?thesis by (rule xor_cancel_right)
qed

lemma next_state_inj:
  assumes "snd (next_state a) = snd (next_state b)"
  shows "a = b"
proof -
  obtain a0 a1 a2 a3 where a: "a = Prng a0 a1 a2 a3" by (cases a)
  obtain b0 b1 b2 b3 where b: "b = Prng b0 b1 b2 b3" by (cases b)
  from assms have e0: "a0 XOR (a3 XOR a1) = b0 XOR (b3 XOR b1)"
    and e1: "a1 XOR (a2 XOR a0) = b1 XOR (b2 XOR b0)"
    and e2: "(a2 XOR a0) XOR push_bit 17 a1 = (b2 XOR b0) XOR push_bit 17 b1"
    and r3: "rotl (a3 XOR a1) 45 = rotl (b3 XOR b1) 45"
    by (simp_all add: a b Let_def)
  have e3: "a3 XOR a1 = b3 XOR b1" using r3 by (rule rotl_inj [rotated]) simp
  from e0 e3 have s0: "a0 = b0" by (simp add: xor_cancel_right)
  have split: "x XOR push_bit 17 x = (x XOR m) XOR (m XOR push_bit 17 x)" for x m :: u64
    by (rule bit_eqI) (auto simp: bit_xor_iff)
  have "a1 XOR push_bit 17 a1 = (b1 XOR (b2 XOR b0)) XOR ((b2 XOR b0) XOR push_bit 17 b1)"
    unfolding split [of a1 "a2 XOR a0"] e1 e2 ..
  then have "a1 XOR push_bit 17 a1 = b1 XOR push_bit 17 b1"
    unfolding split [of b1 "b2 XOR b0"] .
  then have s1: "a1 = b1" by (rule xor_shift_inj)
  from e3 s1 have s3: "a3 = b3" by (simp add: xor_cancel_right)
  from e1 s1 have "a2 XOR a0 = b2 XOR b0" by (simp add: xor_cancel_left)
  with s0 have "a2 = b2" by (simp add: xor_cancel_right)
  with s0 s1 s3 a b show ?thesis by simp
qed

section \<open>Properties\<close>

text \<open>
  The state step of the nonce generator is a bijection of its 256-bit states that
  fixes the all-zero state, so a generator seeded with a state other than zero never falls
  into the zero state, from which every nonce would be the same.
\<close>

theorem next_state_bijective:
  "inj (\<lambda>s. snd (next_state s)) \<and>
   (snd (next_state s) = Prng 0 0 0 0 \<longleftrightarrow> s = Prng 0 0 0 0)"
proof
  show "inj (\<lambda>s. snd (next_state s))" by (rule injI) (rule next_state_inj)
  have "snd (next_state (Prng 0 0 0 0)) = Prng 0 0 0 0" by (simp add: Let_def rotl_def)
  then show "snd (next_state s) = Prng 0 0 0 0 \<longleftrightarrow> s = Prng 0 0 0 0"
    using next_state_inj [of s "Prng 0 0 0 0"] by auto
qed

end
