(* ===== verification/Communication.thy ===== *)
theory Communication
  imports Messages Prng
begin

text \<open>
  The sending side of a node (\<open>src/bft/communication/mod.rs\<close>): the handles to peers,
  \<open>send\<close> and \<open>broadcast\<close>, and what the tasks they spawn write to the own channel and to
  the peers' sockets. Also here: the environment that gathers what is outside the
  repository or left open by the language (serialisation of the application's messages,
  the linked hash map crate, iteration orders of hash maps).
\<close>

section \<open>The environment\<close>

text \<open>
  The \<open>linked_hash_map\<close> crate behind \<open>OrderedMap\<close>: a value is the sequence of its
  entries, front first, and its operations are parameters. \<open>omap_ok\<close> is what the crate
  documents of them: entries are kept in insertion order and keys are unique.
\<close>

type_synonym 'v entries = "(digest \<times> 'v) list"

record 'v omap_ops =
  om_insert :: "digest \<Rightarrow> 'v \<Rightarrow> 'v entries \<Rightarrow> 'v entries"
  om_pop_front :: "'v entries \<Rightarrow> ((digest \<times> 'v) \<times> 'v entries) option"
  om_remove :: "digest \<Rightarrow> 'v entries \<Rightarrow> 'v option \<times> 'v entries"
  om_get :: "'v entries \<Rightarrow> digest \<Rightarrow> 'v option"
  om_keys :: "'v entries \<Rightarrow> digest list"

definition omap_ok :: "'v omap_ops \<Rightarrow> bool" where
  "omap_ok om \<longleftrightarrow>
     (\<forall>k v m. distinct (map fst m) \<longrightarrow>
        distinct (map fst (om_insert om k v m)) \<and>
        map_of (om_insert om k v m) = (map_of m)(k \<mapsto> v) \<and>
        (k \<notin> fst ` set m \<longrightarrow> om_insert om k v m = m @ [(k, v)])) \<and>
     om_pop_front om [] = None \<and>
     (\<forall>x m. om_pop_front om (x # m) = Some (x, m)) \<and>
     (\<forall>k m. om_remove om k m = (map_of m k, AList.delete k m)) \<and>
     (\<forall>k m. om_get om m k = map_of m k) \<and>
     (\<forall>m. om_keys om m = map fst m)"

text \<open>An implementation of the documented behaviour, to evaluate the model with.\<close>

definition list_omap :: "'v omap_ops" where
  "list_omap =
     \<lparr>om_insert = (\<lambda>k v m. AList.delete k m @ [(k, v)]),
      om_pop_front = (\<lambda>m. case m of [] \<Rightarrow> None | x # m' \<Rightarrow> Some (x, m')),
      om_remove = (\<lambda>k m. (map_of m k, AList.delete k m)),
      om_get = map_of,
      om_keys = map fst\<rparr>"

lemma list_omap_ok: "omap_ok (list_omap :: 'v omap_ops)"
proof -
  have "map_of (AList.delete k m @ [(k, v)]) = (map_of m)(k \<mapsto> v)" for k and v :: 'v and m
    by (rule ext) (auto simp: map_add_def delete_conv' split: option.splits)
  moreover have "AList.delete k m = m" if "k \<notin> fst ` set m" for k and m :: "'v entries"
    using that by (simp add: delete_id)
  ultimately show ?thesis
    by (auto simp: omap_ok_def list_omap_def delete_keys distinct_removeAll)
qed

record 'o log_env = crypto +
  env_omap :: "'o stored_request omap_ops"
  env_ord_digest :: "digest order"

record ('s, 'o, 'p) env = "'o log_env" +
  env_ord_node :: "node_id order"
  env_ord_seq :: "seq_no order"
  env_serialize :: "('s, 'o, 'p) system_message \<Rightarrow> error + u8 list"
  env_deserialize :: "u8 list \<Rightarrow> ('s, 'o, 'p) system_message res"

definition serialize_digest ::
  "('s, 'o, 'p, 'z) env_scheme \<Rightarrow> ('s, 'o, 'p) system_message \<Rightarrow> (digest \<times> u8 list) res" where
  "serialize_digest env m =
     (case env_serialize env m of
        Inl e \<Rightarrow> Inl (Err e)
      | Inr w \<Rightarrow> Inr (context_finish env (context_update context_new w), w))"

section \<open>Nodes\<close>

datatype peer_tx =
    PeerTx_Client "(node_id, socket) hmap"
  | PeerTx_Server "(node_id, socket) hmap"

fun peer_tx_map :: "peer_tx \<Rightarrow> (node_id, socket) hmap" where
  "peer_tx_map (PeerTx_Client m) = m"
| "peer_tx_map (PeerTx_Server m) = m"

datatype send_to =
    SendTo_Me node_id
  | SendTo_Peers node_id node_id socket

text \<open>The argument of \<open>SendTo::value\<close>: \<open>Left\<close> for a peer, \<open>Right\<close> for ourselves.\<close>

datatype ('s, 'o, 'p) send_value =
    Value_Left u64 digest "u8 list"
  | Value_Right "('s, 'o, 'p) system_message" u64 digest "u8 list"

text \<open>A spawned sending task; the runtime runs spawned tasks later, in some order.\<close>

datatype ('s, 'o, 'p) send_task = SendTask (task_to: send_to) (task_value: "('s, 'o, 'p) send_value")

text \<open>The tasks that connect to a peer and that read from an accepted connection.\<close>

type_synonym peer_addr = string

datatype connection_task =
    ConnectTask node_id node_id u64 peer_addr
  | ReceiveTask node_id socket

text \<open>\<open>nd_rx\<close> holds the messages on the master channel (\<open>my_rx\<close>) that were not received yet.\<close>

record ('s, 'o, 'p) node =
  nd_id :: node_id
  nd_first_cli :: node_id
  nd_rx :: "('s, 'o, 'p) message list"
  nd_rng :: prng_state
  nd_my_key :: key_pair
  nd_peer_keys :: "(node_id, public_key) hmap"
  nd_peer_tx :: peer_tx
  nd_peer_addrs :: "(node_id, peer_addr) hmap"
  nd_connections :: "connection_task list"
  nd_tasks :: "('s, 'o, 'p) send_task list"

definition get_public_key :: "('s, 'o, 'p) node \<Rightarrow> node_id \<Rightarrow> public_key option" where
  "get_public_key nd i = hmap_get (nd_peer_keys nd) i"

text \<open>\<open>None\<close>: no message yet, the caller waits.\<close>

definition node_receive :: "('s, 'o, 'p) node \<Rightarrow> (('s, 'o, 'p) message \<times> ('s, 'o, 'p) node) option" where
  "node_receive nd = (case nd_rx nd of [] \<Rightarrow> None | m # rx \<Rightarrow> Some (m, nd\<lparr>nd_rx := rx\<rparr>))"

definition node_send_to :: "node_id \<Rightarrow> node_id \<Rightarrow> peer_tx \<Rightarrow> send_to res" where
  "node_send_to my_id peer_id peers =
     (if my_id = peer_id then Inr (SendTo_Me my_id)
      else (case hmap_get (peer_tx_map peers) peer_id of
              Some sock \<Rightarrow> Inr (SendTo_Peers my_id peer_id sock)
            | None \<Rightarrow> Inl (Panic ''no entry found for key'')))"

fun create_send_tos ::
  "node_id \<Rightarrow> (node_id, socket) hmap \<Rightarrow> node_id list \<Rightarrow> send_to option \<Rightarrow> send_to list
     \<Rightarrow> (send_to option \<times> send_to list) res" where
  "create_send_tos my_id m [] mine others = Inr (mine, others)"
| "create_send_tos my_id m (i # targets) mine others =
     (if i = my_id then create_send_tos my_id m targets (Some (SendTo_Me my_id)) others
      else (case hmap_get m i of
              Some sock \<Rightarrow> create_send_tos my_id m targets mine (others @ [SendTo_Peers my_id i sock])
            | None \<Rightarrow> Inl (Panic ''no entry found for key'')))"

definition send_tos :: "node_id \<Rightarrow> peer_tx \<Rightarrow> node_id list \<Rightarrow> (send_to option \<times> send_to list) res" where
  "send_tos my_id peers targets = create_send_tos my_id (peer_tx_map peers) targets None []"

definition send_impl ::
  "('s, 'o, 'p, 'z) env_scheme \<Rightarrow> ('s, 'o, 'p) system_message \<Rightarrow> send_to \<Rightarrow> node_id \<Rightarrow> node_id \<Rightarrow> u64
     \<Rightarrow> (digest \<times> ('s, 'o, 'p) send_task list) res" where
  "send_impl env m to my_id target nonce =
     (case serialize_digest env m of
        Inl e \<Rightarrow> Inl (Panic ''called `Result::unwrap()` on an `Err` value'')
      | Inr (dig, buf) \<Rightarrow>
          Inr (digest_entropy env dig (u64_le nonce),
               [SendTask to (if my_id = target then Value_Right m nonce dig buf
                             else Value_Left nonce dig buf)]))"

definition node_send ::
  "('s, 'o, 'p, 'z) env_scheme \<Rightarrow> ('s, 'o, 'p) system_message \<Rightarrow> node_id \<Rightarrow> ('s, 'o, 'p) node
     \<Rightarrow> (digest \<times> ('s, 'o, 'p) node) res" where
  "node_send env m target nd =
     bind_res (node_send_to (nd_id nd) target (nd_peer_tx nd)) (\<lambda>to.
     let (nonce, rng) = next_state (nd_rng nd) in
     bind_res (send_impl env m to (nd_id nd) target nonce) (\<lambda>(dig, tasks).
     Inr (dig, nd\<lparr>nd_rng := rng, nd_tasks := nd_tasks nd @ tasks\<rparr>)))"

definition broadcast_impl ::
  "('s, 'o, 'p, 'z) env_scheme \<Rightarrow> ('s, 'o, 'p) system_message \<Rightarrow> send_to option \<Rightarrow> send_to list \<Rightarrow> u64
     \<Rightarrow> (digest \<times> ('s, 'o, 'p) send_task list) res" where
  "broadcast_impl env m mine others nonce =
     (case serialize_digest env m of
        Inl e \<Rightarrow> Inl (Panic ''called `Result::unwrap()` on an `Err` value'')
      | Inr (dig, buf) \<Rightarrow>
          Inr (digest_entropy env dig (u64_le nonce),
               (case mine of Some to \<Rightarrow> [SendTask to (Value_Right m nonce dig buf)] | None \<Rightarrow> []) @
               map (\<lambda>to. SendTask to (Value_Left nonce dig buf)) others))"

definition node_broadcast ::
  "('s, 'o, 'p, 'z) env_scheme \<Rightarrow> ('s, 'o, 'p) system_message \<Rightarrow> node_id list \<Rightarrow> ('s, 'o, 'p) node
     \<Rightarrow> (digest \<times> ('s, 'o, 'p) node) res" where
  "node_broadcast env m targets nd =
     bind_res (send_tos (nd_id nd) (nd_peer_tx nd) targets) (\<lambda>(mine, others).
     let (nonce, rng) = next_state (nd_rng nd) in
     bind_res (broadcast_impl env m mine others nonce) (\<lambda>(dig, tasks).
     Inr (dig, nd\<lparr>nd_rng := rng, nd_tasks := nd_tasks nd @ tasks\<rparr>)))"

text \<open>What a sending task does: a message on our own channel, or a write to a socket.\<close>

datatype ('s, 'o, 'p) send_effect =
    Channel_Send "('s, 'o, 'p) message"
  | Socket_Write node_id socket wire_message

definition send_to_me ::
  "('z) crypto_scheme \<Rightarrow> node_id \<Rightarrow> ('s, 'o, 'p) system_message \<Rightarrow> u64 \<Rightarrow> digest \<Rightarrow> u8 list \<Rightarrow> key_pair
     \<Rightarrow> ('s, 'o, 'p) send_effect" where
  "send_to_me c my_id m n d b sk =
     Channel_Send (System (wm_header (wire_message_new c my_id my_id b n (Some d) (Some sk))) m)"

definition send_to_peers ::
  "('z) crypto_scheme \<Rightarrow> node_id \<Rightarrow> node_id \<Rightarrow> u64 \<Rightarrow> digest \<Rightarrow> u8 list \<Rightarrow> key_pair \<Rightarrow> socket
     \<Rightarrow> ('s, 'o, 'p) send_effect" where
  "send_to_peers c my_id peer_id n d b sk sock =
     Socket_Write peer_id sock (wire_message_new c my_id peer_id b n (Some d) (Some sk))"

fun send_to_value ::
  "('z) crypto_scheme \<Rightarrow> key_pair \<Rightarrow> ('s, 'o, 'p) send_task \<Rightarrow> ('s, 'o, 'p) send_effect res" where
  "send_to_value c sk (SendTask (SendTo_Me my_id) (Value_Right m n d b)) =
     Inr (send_to_me c my_id m n d b sk)"
| "send_to_value c sk (SendTask (SendTo_Me my_id) (Value_Left n d b)) =
     Inl (Panic ''internal error: entered unreachable code'')"
| "send_to_value c sk (SendTask (SendTo_Peers my_id peer_id sock) (Value_Left n d b)) =
     Inr (send_to_peers c my_id peer_id n d b sk sock)"
| "send_to_value c sk (SendTask (SendTo_Peers my_id peer_id sock) (Value_Right m n d b)) =
     Inl (Panic ''internal error: entered unreachable code'')"

definition handle_connected_tx :: "node_id \<Rightarrow> socket \<Rightarrow> ('s, 'o, 'p) node \<Rightarrow> ('s, 'o, 'p) node" where
  "handle_connected_tx peer_id sock nd =
     (case nd_peer_tx nd of
        PeerTx_Server peers \<Rightarrow> nd\<lparr>nd_peer_tx := PeerTx_Server (hmap_insert peer_id sock peers)\<rparr>
      | PeerTx_Client peers \<Rightarrow> nd\<lparr>nd_peer_tx := PeerTx_Client (hmap_insert peer_id sock peers)\<rparr>)"

section \<open>What sending does\<close>

definition connected :: "('s, 'o, 'p) node \<Rightarrow> node_id list \<Rightarrow> bool" where
  "connected nd targets \<longleftrightarrow>
     (\<forall>i \<in> set targets. i = nd_id nd \<or> hmap_contains (peer_tx_map (nd_peer_tx nd)) i)"

lemma create_send_tos_ok:
  assumes "\<forall>i \<in> set targets. i = my_id \<or> hmap_contains m i"
  shows "create_send_tos my_id m targets mine others =
     Inr (if my_id \<in> set targets then Some (SendTo_Me my_id) else mine,
          others @ map (\<lambda>i. SendTo_Peers my_id i (the (hmap_get m i))) (filter (\<lambda>i. i \<noteq> my_id) targets))"
  using assms
  by (induction my_id m targets mine others rule: create_send_tos.induct)
    (auto simp: hmap_contains_def)

lemma length_filter_ne:
  "distinct xs \<Longrightarrow> length (filter (\<lambda>i. i \<noteq> a) xs) + (if a \<in> set xs then 1 else 0) = length xs"
  by (induction xs) (auto split: if_splits)

lemma node_broadcast_ok:
  assumes "connected nd targets" and "serialize_digest env m = Inr (dig, buf)"
    and "next_state (nd_rng nd) = (nonce, rng)"
  shows "node_broadcast env m targets nd =
    Inr (digest_entropy env dig (u64_le nonce),
      nd\<lparr>nd_rng := rng,
         nd_tasks := nd_tasks nd @
           (if nd_id nd \<in> set targets then [SendTask (SendTo_Me (nd_id nd)) (Value_Right m nonce dig buf)]
            else []) @
           map (\<lambda>i. SendTask (SendTo_Peers (nd_id nd) i (the (hmap_get (peer_tx_map (nd_peer_tx nd)) i)))
                   (Value_Left nonce dig buf))
             (filter (\<lambda>i. i \<noteq> nd_id nd) targets)\<rparr>)"
  using assms
  by (simp add: node_broadcast_def send_tos_def create_send_tos_ok connected_def broadcast_impl_def o_def)

lemma node_broadcast_frame:
  assumes "node_broadcast env m targets nd = Inr (d, nd')"
  shows "nd_id nd' = nd_id nd" "nd_peer_tx nd' = nd_peer_tx nd" "nd_peer_keys nd' = nd_peer_keys nd"
    "nd_my_key nd' = nd_my_key nd" "nd_first_cli nd' = nd_first_cli nd"
    "\<exists>ts. nd_tasks nd' = nd_tasks nd @ ts"
  using assms
  by (cases "next_state (nd_rng nd)"; auto simp: node_broadcast_def res_simps)+

lemma node_send_frame:
  assumes "node_send env m target nd = Inr (d, nd')"
  shows "nd_id nd' = nd_id nd" "nd_peer_tx nd' = nd_peer_tx nd" "nd_peer_keys nd' = nd_peer_keys nd"
    "nd_my_key nd' = nd_my_key nd" "nd_first_cli nd' = nd_first_cli nd"
    "\<exists>ts. nd_tasks nd' = nd_tasks nd @ ts"
  using assms
  by (cases "next_state (nd_rng nd)"; auto simp: node_send_def res_simps)+

definition serializes :: "('s, 'o, 'p, 'z) env_scheme \<Rightarrow> bool" where
  "serializes env \<longleftrightarrow> (\<forall>m. \<exists>buf. env_serialize env m = Inr buf)"

lemma serialize_digest_ok: "serializes env \<Longrightarrow> \<exists>d buf. serialize_digest env m = Inr (d, buf)"
  by (cases "env_serialize env m") (auto simp: serializes_def serialize_digest_def dest: spec [of _ m])

lemma broadcast_ok:
  assumes "serializes env" and "connected nd targets"
  shows "\<exists>d rng ts. node_broadcast env m targets nd = Inr (d, nd\<lparr>nd_rng := rng, nd_tasks := nd_tasks nd @ ts\<rparr>)"
proof -
  obtain d buf where "serialize_digest env m = Inr (d, buf)" using serialize_digest_ok [OF assms(1)] by blast
  moreover obtain nonce rng where "next_state (nd_rng nd) = (nonce, rng)" by fastforce
  ultimately show ?thesis using node_broadcast_ok [OF assms(2)] by blast
qed

lemma send_ok:
  assumes "serializes env" and "connected nd [target]"
  shows "\<exists>d rng ts. node_send env m target nd = Inr (d, nd\<lparr>nd_rng := rng, nd_tasks := nd_tasks nd @ ts\<rparr>)"
proof -
  obtain d buf where "serialize_digest env m = Inr (d, buf)" using serialize_digest_ok [OF assms(1)] by blast
  moreover obtain nonce rng where "next_state (nd_rng nd) = (nonce, rng)" by fastforce
  moreover obtain to where "node_send_to (nd_id nd) target (nd_peer_tx nd) = Inr to"
    using assms(2) that by (cases "nd_id nd = target") (auto simp: connected_def node_send_to_def hmap_contains_def)
  ultimately show ?thesis by (auto simp: node_send_def send_impl_def)
qed

lemma connected_frame [simp]:
  "connected (nd\<lparr>nd_rng := rng, nd_tasks := ts\<rparr>) targets = connected nd targets"
  by (simp add: connected_def)

lemma connected_mono: "connected nd targets \<Longrightarrow> set xs \<subseteq> set targets \<Longrightarrow> connected nd xs"
  by (auto simp: connected_def)

section \<open>Properties\<close>


text \<open>Digests, keys and signatures of all zeroes: enough for a concrete environment.\<close>

definition example_env :: "('s, 'o, 'p) env" where
  "example_env = \<lparr>
     blake3 = (\<lambda>_. replicate 32 0), ed25519_from_seed = (\<lambda>_. Some (replicate 32 0)),
     ed25519_sign = (\<lambda>_ _. replicate 64 0), ed25519_verify = (\<lambda>_ _ _. True),
     env_omap = list_omap, env_ord_digest = (\<lambda>xs. xs), env_ord_node = (\<lambda>xs. xs),
     env_ord_seq = (\<lambda>xs. xs), env_serialize = (\<lambda>_. Inr [1, 2, 3]),
     env_deserialize = (\<lambda>_. Inr (SM_ForwardedRequests []))\<rparr>"

definition example_node :: "('s, 'o, 'p) node" where
  "example_node = \<lparr>nd_id = NodeId 0, nd_first_cli = NodeId 1000, nd_rx = [], nd_rng = Prng 1 2 3 4,
     nd_my_key = \<lparr>kp_sk = replicate 32 0, kp_pk = PublicKey (replicate 32 0)\<rparr>, nd_peer_keys = [],
     nd_peer_tx = PeerTx_Server [(NodeId 1, 11), (NodeId 2, 12), (NodeId 3, 13)],
     nd_peer_addrs = [], nd_connections = [], nd_tasks = []\<rparr>"

lemma example_crypto_ok: "crypto_ok (example_env :: ('s, 'o, 'p) env)"
  by (simp add: crypto_ok_def example_env_def DIGEST_LENGTH_def ED25519_PUBLIC_KEY_LEN_def
      SIGNATURE_LENGTH_def)


end
