(* ===== verification/Executable.thy ===== *)
theory Executable
  imports Messages
begin

text \<open>
  The execution layer (\<open>src/bft/executable/mod.rs\<close>): batches of client updates, the queue
  between the replica and the executor thread, and the thread's loop. The application is
  the parameter \<open>service\<close>: its methods may change the service value itself, as
  \<open>&mut self\<close> allows. Nothing is assumed of it.
\<close>

section \<open>Batches\<close>

datatype 'o update = Update (up_from: node_id) (up_digest: digest) (up_operation: 'o)

type_synonym 'o update_batch = "'o update list"
type_synonym 'p update_batch_replies = "'p update_reply list"

definition update_batch_add :: "node_id \<Rightarrow> digest \<Rightarrow> 'o \<Rightarrow> 'o update_batch \<Rightarrow> 'o update_batch" where
  "update_batch_add from_id dig operation batch = batch @ [Update from_id dig operation]"

definition update_batch_replies_add ::
  "node_id \<Rightarrow> digest \<Rightarrow> 'p \<Rightarrow> 'p update_batch_replies \<Rightarrow> 'p update_batch_replies" where
  "update_batch_replies_add to dig payload replies = replies @ [UpdateReply to dig payload]"

datatype ('s, 'o) execution_request =
    ER_InstallState 's "'o list"
  | ER_Update "'o update_batch"
  | ER_UpdateAndGetAppstate "'o update_batch"
  | ER_Read node_id

section \<open>The handle\<close>

text \<open>
  The sending half of the \<open>mpsc\<close> channel to the executor thread: the requests not yet
  received, and whether the receiving half still exists. A send fails exactly when it
  does not.
\<close>

record ('s, 'o) executor_handle =
  eh_queue :: "('s, 'o) execution_request list"
  eh_connected :: bool

definition executor_send ::
  "('s, 'o) execution_request \<Rightarrow> ('s, 'o) executor_handle \<Rightarrow> ('s, 'o) executor_handle res" where
  "executor_send r h =
     (if eh_connected h then Inr (h\<lparr>eh_queue := eh_queue h @ [r]\<rparr>)
      else Inl (Err (Simple ErrorKind_Executable)))"

definition executor_install_state ::
  "'s \<Rightarrow> 'o list \<Rightarrow> ('s, 'o) executor_handle \<Rightarrow> ('s, 'o) executor_handle res" where
  "executor_install_state st after h = executor_send (ER_InstallState st after) h"

definition queue_update ::
  "'o update_batch \<Rightarrow> ('s, 'o) executor_handle \<Rightarrow> ('s, 'o) executor_handle res" where
  "queue_update batch h = executor_send (ER_Update batch) h"

definition queue_update_and_get_appstate ::
  "'o update_batch \<Rightarrow> ('s, 'o) executor_handle \<Rightarrow> ('s, 'o) executor_handle res" where
  "queue_update_and_get_appstate batch h = executor_send (ER_UpdateAndGetAppstate batch) h"

section \<open>The executor thread\<close>

record ('v, 's, 'o, 'p) service =
  sv_initial_state :: "'v \<Rightarrow> (error + 's) \<times> 'v"
  sv_update :: "'v \<Rightarrow> 's \<Rightarrow> 'o \<Rightarrow> 'p \<times> 's \<times> 'v"

text \<open>The executor's state, and the messages its spawned tasks deliver to the replica.\<close>

record ('v, 's, 'o, 'p) executor =
  ex_service :: 'v
  ex_state :: 's
  ex_spawned :: "('s, 'o, 'p) message list"

definition executor_new ::
  "('v, 's, 'o, 'p) service \<Rightarrow> 'v \<Rightarrow> (('v, 's, 'o, 'p) executor \<times> ('s, 'o) executor_handle) res" where
  "executor_new sv v =
     (case sv_initial_state sv v of
        (Inl e, v') \<Rightarrow> Inl (Err e)
      | (Inr st, v') \<Rightarrow>
          Inr (\<lparr>ex_service = v', ex_state = st, ex_spawned = []\<rparr>,
               \<lparr>eh_queue = [], eh_connected = True\<rparr>))"

fun install_loop :: "('v, 's, 'o, 'p) service \<Rightarrow> 'v \<Rightarrow> 's \<Rightarrow> 'o list \<Rightarrow> 'v \<times> 's" where
  "install_loop sv v st [] = (v, st)"
| "install_loop sv v st (req # after) =
     (case sv_update sv v st req of (_, st', v') \<Rightarrow> install_loop sv v' st' after)"

fun update_loop ::
  "('v, 's, 'o, 'p) service \<Rightarrow> 'v \<Rightarrow> 's \<Rightarrow> 'o update_batch \<Rightarrow> 'p update_batch_replies
     \<Rightarrow> 'v \<times> 's \<times> 'p update_batch_replies" where
  "update_loop sv v st [] replies = (v, st, replies)"
| "update_loop sv v st (Update peer_id dig req # batch) replies =
     (case sv_update sv v st req of
        (reply, st', v') \<Rightarrow>
          update_loop sv v' st' batch (update_batch_replies_add peer_id dig reply replies))"

text \<open>One iteration of the thread's loop.\<close>

fun executor_step ::
  "('v, 's, 'o, 'p) service \<Rightarrow> ('s, 'o) execution_request \<Rightarrow> ('v, 's, 'o, 'p) executor
     \<Rightarrow> ('v, 's, 'o, 'p) executor res" where
  "executor_step sv (ER_InstallState checkpoint after) ex =
     (case install_loop sv (ex_service ex) checkpoint after of
        (v, st) \<Rightarrow> Inr (ex\<lparr>ex_service := v, ex_state := st\<rparr>))"
| "executor_step sv (ER_Update batch) ex =
     (case update_loop sv (ex_service ex) (ex_state ex) batch [] of
        (v, st, replies) \<Rightarrow>
          Inr (ex\<lparr>ex_service := v, ex_state := st,
                  ex_spawned := ex_spawned ex @ [ExecutionFinished replies]\<rparr>))"
| "executor_step sv (ER_UpdateAndGetAppstate batch) ex =
     (case update_loop sv (ex_service ex) (ex_state ex) batch [] of
        (v, st, replies) \<Rightarrow>
          Inr (ex\<lparr>ex_service := v, ex_state := st,
                  ex_spawned := ex_spawned ex @ [ExecutionFinishedWithAppstate replies st]\<rparr>))"
| "executor_step sv (ER_Read peer_id) ex = Inl (Panic ''not yet implemented'')"

fun executor_run ::
  "('v, 's, 'o, 'p) service \<Rightarrow> ('s, 'o) execution_request list \<Rightarrow> ('v, 's, 'o, 'p) executor
     \<Rightarrow> ('v, 's, 'o, 'p) executor res" where
  "executor_run sv [] ex = Inr ex"
| "executor_run sv (r # rs) ex = bind_res (executor_step sv r ex) (executor_run sv rs)"

section \<open>Lemmas\<close>

lemma install_loop_append:
  "install_loop sv v st (xs @ ys) = (case install_loop sv v st xs of (v', st') \<Rightarrow> install_loop sv v' st' ys)"
  by (induction xs arbitrary: v st) (auto split: prod.splits)

text \<open>The replies of a batch as a function of the state it starts in.\<close>

fun replies_from :: "('v, 's, 'o, 'p) service \<Rightarrow> 'v \<Rightarrow> 's \<Rightarrow> 'o list \<Rightarrow> 'p list" where
  "replies_from sv v st [] = []"
| "replies_from sv v st (req # reqs) =
     (case sv_update sv v st req of (reply, st', v') \<Rightarrow> reply # replies_from sv v' st' reqs)"

lemma replies_from_length [simp]: "length (replies_from sv v st reqs) = length reqs"
  by (induction reqs arbitrary: v st) (auto split: prod.splits)

lemma replies_from_append:
  "replies_from sv v st (xs @ ys) = replies_from sv v st xs @
     (case install_loop sv v st xs of (v', st') \<Rightarrow> replies_from sv v' st' ys)"
  by (induction xs arbitrary: v st) (auto split: prod.splits)

lemma update_loop_eq:
  "update_loop sv v st batch acc =
     (case install_loop sv v st (map up_operation batch) of
        (v', st') \<Rightarrow> (v', st', acc @ map2 (\<lambda>u p. UpdateReply (up_from u) (up_digest u) p) batch
           (replies_from sv v st (map up_operation batch))))"
proof (induction batch arbitrary: v st acc)
  case (Cons u batch)
  then show ?case by (cases u) (auto simp: update_batch_replies_add_def split: prod.splits)
qed simp

lemma executor_run_append:
  "executor_run sv (xs @ ys) ex = bind_res (executor_run sv xs ex) (executor_run sv ys)"
proof (induction xs arbitrary: ex)
  case (Cons x xs)
  then show ?case by (cases "executor_step sv x ex") auto
qed simp

text \<open>The replies a run delivers, in order, and the operations its batches carry.\<close>

fun delivered :: "('s, 'o, 'p) message \<Rightarrow> 'p update_reply list" where
  "delivered (ExecutionFinished replies) = replies"
| "delivered (ExecutionFinishedWithAppstate replies st) = replies"
| "delivered _ = []"

fun request_batch :: "('s, 'o) execution_request \<Rightarrow> 'o update_batch" where
  "request_batch (ER_Update batch) = batch"
| "request_batch (ER_UpdateAndGetAppstate batch) = batch"
| "request_batch _ = []"

fun batch_ops :: "('s, 'o) execution_request list \<Rightarrow> 'o list" where
  "batch_ops [] = []"
| "batch_ops (r # rs) = map up_operation (request_batch r) @ batch_ops rs"

fun is_update :: "('s, 'o) execution_request \<Rightarrow> bool" where
  "is_update (ER_Update batch) = True"
| "is_update (ER_UpdateAndGetAppstate batch) = True"
| "is_update _ = False"

lemma executor_run_updates:
  assumes "\<forall>r \<in> set rs. is_update r"
  shows "\<exists>ms. executor_run sv rs ex = Inr (ex
      \<lparr>ex_service := fst (install_loop sv (ex_service ex) (ex_state ex) (batch_ops rs)),
       ex_state := snd (install_loop sv (ex_service ex) (ex_state ex) (batch_ops rs)),
       ex_spawned := ex_spawned ex @ ms\<rparr>) \<and> length ms = length rs \<and>
     concat (map delivered ms) =
       map2 (\<lambda>u p. UpdateReply (up_from u) (up_digest u) p) (concat (map request_batch rs))
         (replies_from sv (ex_service ex) (ex_state ex) (batch_ops rs))"
  using assms
proof (induction rs arbitrary: ex)
  case (Cons r rs)
  let ?b = "request_batch r" and ?mk = "\<lambda>u p. UpdateReply (up_from u) (up_digest u) p"
  obtain v st where i: "install_loop sv (ex_service ex) (ex_state ex) (map up_operation ?b) = (v, st)"
    by fastforce
  let ?reps = "map2 ?mk ?b (replies_from sv (ex_service ex) (ex_state ex) (map up_operation ?b))"
  obtain m where m: "executor_step sv r ex =
      Inr (ex\<lparr>ex_service := v, ex_state := st, ex_spawned := ex_spawned ex @ [m]\<rparr>)"
    "delivered m = ?reps"
    using Cons.prems i by (cases r) (auto simp: update_loop_eq)
  let ?ex = "ex\<lparr>ex_service := v, ex_state := st, ex_spawned := ex_spawned ex @ [m]\<rparr>"
  from Cons.prems have "\<forall>r \<in> set rs. is_update r" by simp
  from Cons.IH [OF this, of ?ex] obtain ms where
    ms: "executor_run sv rs ?ex = Inr (?ex
       \<lparr>ex_service := fst (install_loop sv v st (batch_ops rs)),
        ex_state := snd (install_loop sv v st (batch_ops rs)),
        ex_spawned := (ex_spawned ex @ [m]) @ ms\<rparr>)" "length ms = length rs"
    "concat (map delivered ms) = map2 ?mk (concat (map request_batch rs))
         (replies_from sv v st (batch_ops rs))"
    by auto
  show ?case
    by (rule exI [of _ "m # ms"])
      (use m ms i in \<open>simp add: install_loop_append replies_from_append\<close>)
qed simp

section \<open>Properties\<close>

text \<open>
  C24. Sequential execution. Whatever the batching, a run of queued updates applies all
  operations to the application one after the other in queue order, and the messages it
  delivers hold exactly one reply per update, in that order, addressed to the client that
  sent it, with its digest and with what the application answered at that point.
\<close>

theorem executor_runs_in_order:
  assumes "\<forall>r \<in> set rs. is_update r"
  shows "\<exists>ex' ms. executor_run sv rs ex = Inr ex' \<and>
     (ex_service ex', ex_state ex') = install_loop sv (ex_service ex) (ex_state ex) (batch_ops rs) \<and>
     ex_spawned ex' = ex_spawned ex @ ms \<and> length ms = length rs \<and>
     concat (map delivered ms) =
       map2 (\<lambda>u p. UpdateReply (up_from u) (up_digest u) p) (concat (map request_batch rs))
         (replies_from sv (ex_service ex) (ex_state ex) (batch_ops rs))"
  using executor_run_updates [OF assms, of sv ex] by auto

text \<open>A counter: an update adds the operation and replies with the new sum.\<close>

definition counter_service :: "(unit, nat, nat, nat) service" where
  "counter_service = \<lparr>sv_initial_state = (\<lambda>v. (Inr 0, v)), sv_update = (\<lambda>v st k. (st + k, st + k, v))\<rparr>"

theorem executor_runs_in_order_witness:
  "\<exists>ex'. executor_run counter_service
       [ER_Update [Update (NodeId 1000) (Digest [1]) 3, Update (NodeId 1001) (Digest [2]) 4],
        ER_UpdateAndGetAppstate [Update (NodeId 1000) (Digest [3]) 5]]
       \<lparr>ex_service = (), ex_state = 0, ex_spawned = []\<rparr> = Inr ex' \<and> ex_state ex' = 12"
  using executor_runs_in_order [of
      "[ER_Update [Update (NodeId 1000) (Digest [1]) 3, Update (NodeId 1001) (Digest [2]) 4],
        ER_UpdateAndGetAppstate [Update (NodeId 1000) (Digest [3]) 5]]"
      counter_service "\<lparr>ex_service = (), ex_state = 0, ex_spawned = []\<rparr>"]
  by (auto simp: counter_service_def)

end
