(* ===== verification/Log.thy ===== *)
theory Log
  imports Communication Executable
begin

text \<open>
  The message log (\<open>src/bft/consensus/log/mod.rs\<close>): the decision log with the proofs it
  yields, the client requests waiting or being decided, and the checkpoint state machine.
  Operations that borrow the log mutably return it updated.
\<close>

named_theorems log_frame \<open>what an operation leaves unchanged of the log\<close>

section \<open>The decision log\<close>

definition decision_log_new :: decision_log where
  "decision_log_new = \<lparr>dl_last_exec = None, dl_pre_prepares = [], dl_prepares = [], dl_commits = []\<rparr>"

text \<open>The addition is on \<open>u32\<close> and wraps in the release profile.\<close>

definition executing :: "decision_log \<Rightarrow> seq_no" where
  "executing dl =
     (case dl_last_exec dl of
        Some l \<Rightarrow> seq_of_u32 (seq_to_u32 l + 1)
      | None \<Rightarrow> seq_zero)"

fun write_set_scan :: "seq_no \<Rightarrow> stored_consensus list \<Rightarrow> view_decision_pair list res" where
  "write_set_scan in_exec [] = Inr []"
| "write_set_scan in_exec (stored # rest) =
     (case seq_cmp (stored_seq stored) in_exec of
        Equal \<Rightarrow> bind_res (write_set_scan in_exec rest)
          (\<lambda>buf. Inr (ViewDecisionPair (stored_view stored) (header_digest (sm_header stored)) # buf))
      | Less \<Rightarrow> Inr []
      | Greater \<Rightarrow> Inl (Panic ''unreachable''))"

fun quorum_writes_scan ::
  "seq_no \<Rightarrow> usize \<Rightarrow> seq_no option \<Rightarrow> usize \<Rightarrow> stored_consensus list \<Rightarrow> view_decision_pair option res" where
  "quorum_writes_scan in_exec needed last_view cnt [] = Inr None"
| "quorum_writes_scan in_exec needed last_view cnt (stored # rest) =
     (case seq_cmp (stored_seq stored) in_exec of
        Equal \<Rightarrow>
          (let cnt = (case last_view of
                          None \<Rightarrow> cnt
                        | Some v \<Rightarrow> if stored_view stored = v then cnt else 0) + 1 in
           if cnt = needed
           then (case cm_kind (sm_message stored) of
                   Prepare d \<Rightarrow> Inr (Some (ViewDecisionPair (stored_view stored) d))
                 | _ \<Rightarrow> Inl (Panic ''unreachable''))
           else quorum_writes_scan in_exec needed (Some (stored_view stored)) cnt rest)
      | Less \<Rightarrow> Inr None
      | Greater \<Rightarrow> Inl (Panic ''unreachable''))"

definition to_be_decided :: "decision_log \<Rightarrow> view_info \<Rightarrow> incomplete_proof res" where
  "to_be_decided dl view =
     (let in_exec = executing dl in
      bind_res (write_set_scan in_exec (rev (dl_pre_prepares dl))) (\<lambda>write_set.
      bind_res (quorum_writes_scan in_exec (usize_wrap (2 * view_f view)) None 0 (rev (dl_prepares dl)))
        (\<lambda>quorum_writes.
      Inr \<lparr>ip_in_exec = in_exec, ip_write_set = write_set, ip_quorum_writes = quorum_writes\<rparr>)))"

text \<open>The loop that gathers the votes of the last execution, newest first.\<close>

fun last_votes_scan ::
  "seq_no \<Rightarrow> bool \<Rightarrow> seq_no \<Rightarrow> stored_consensus list \<Rightarrow> stored_consensus list" where
  "last_votes_scan last_exec found last_view [] = []"
| "last_votes_scan last_exec found last_view (stored # rest) =
     (if \<not> found
      then (if stored_seq stored \<noteq> last_exec
            then last_votes_scan last_exec False last_view rest
            else stored # last_votes_scan last_exec True (stored_view stored) rest)
      else (if stored_seq stored \<noteq> last_exec \<or> stored_view stored \<noteq> last_view then []
            else stored # last_votes_scan last_exec True last_view rest))"

definition last_decision :: "decision_log \<Rightarrow> view_info \<Rightarrow> decision_proof option res" where
  "last_decision dl view =
     (case dl_last_exec dl of
        None \<Rightarrow> Inr None
      | Some last_exec \<Rightarrow>
          (case find (\<lambda>stored. stored_seq stored = last_exec) (rev (dl_pre_prepares dl)) of
             None \<Rightarrow> Inl (Panic ''unreachable'')
           | Some pre_prepare \<Rightarrow>
               (let prepares = last_votes_scan last_exec False seq_zero (rev (dl_prepares dl)) in
                if length prepares < usize_wrap (2 * view_f view) then Inr None
                else (let commits = last_votes_scan last_exec False seq_zero (rev (dl_commits dl)) in
                      if length commits < view_quorum view then Inr None
                      else Inr (Some \<lparr>pf_pre_prepare = pre_prepare, pf_prepares = prepares,
                                      pf_commits = commits\<rparr>)))))"

definition collect_data_of :: "decision_log \<Rightarrow> view_info \<Rightarrow> collect_data res" where
  "collect_data_of dl view =
     bind_res (to_be_decided dl view) (\<lambda>incomplete.
     bind_res (last_decision dl view) (\<lambda>last_proof.
     Inr \<lparr>cd_incomplete_proof = incomplete, cd_last_proof = last_proof\<rparr>))"

text \<open>\<open>clear_last_occurrences\<close>: the loops over \<open>enumerate().rev()\<close> and over the scratch
  indices.\<close>

fun clear_scan :: "seq_no \<Rightarrow> (nat \<times> stored_consensus) list \<Rightarrow> nat list" where
  "clear_scan in_exec [] = []"
| "clear_scan in_exec ((i, stored) # rest) =
     (if stored_seq stored \<noteq> in_exec then [] else i # clear_scan in_exec rest)"

fun swap_remove_each :: "nat list \<Rightarrow> 'a list \<Rightarrow> 'a list res" where
  "swap_remove_each [] log = Inr log"
| "swap_remove_each (i # scratch) log =
     (case swap_remove i log of
        None \<Rightarrow> Inl (Panic ''swap_remove index out of bounds'')
      | Some (_, log') \<Rightarrow> swap_remove_each scratch log')"

definition clear_log :: "seq_no \<Rightarrow> stored_consensus list \<Rightarrow> stored_consensus list res" where
  "clear_log in_exec log = swap_remove_each (clear_scan in_exec (rev (enumerate 0 log))) log"

fun clear_pre_scan ::
  "seq_no \<Rightarrow> digest option \<Rightarrow> nat option \<Rightarrow> (nat \<times> stored_consensus) list \<Rightarrow> nat list \<times> nat option" where
  "clear_pre_scan in_exec val pre_prepare_i [] = ([], pre_prepare_i)"
| "clear_pre_scan in_exec val pre_prepare_i ((i, stored) # rest) =
     (if stored_seq stored \<noteq> in_exec then ([], pre_prepare_i)
      else (let pre_prepare_i =
              (case val of
                 None \<Rightarrow> pre_prepare_i
               | Some v \<Rightarrow> if pre_prepare_i = None \<and> header_digest (sm_header stored) = v
                           then Some i else pre_prepare_i);
              (scratch, j) = clear_pre_scan in_exec val pre_prepare_i rest in
            (i # scratch, j)))"

fun clear_pre_each ::
  "nat option \<Rightarrow> stored_consensus option \<Rightarrow> nat list \<Rightarrow> stored_consensus list
     \<Rightarrow> (stored_consensus option \<times> stored_consensus list) res" where
  "clear_pre_each pre_prepare_i pre_prepare [] log = Inr (pre_prepare, log)"
| "clear_pre_each pre_prepare_i pre_prepare (i # scratch) log =
     (case swap_remove i log of
        None \<Rightarrow> Inl (Panic ''swap_remove index out of bounds'')
      | Some (x, log') \<Rightarrow>
          (if pre_prepare_i = Some i then clear_pre_each None (Some x) scratch log'
           else clear_pre_each pre_prepare_i pre_prepare scratch log'))"

definition clear_last_occurrences ::
  "seq_no \<Rightarrow> digest option \<Rightarrow> decision_log \<Rightarrow> (stored_consensus option \<times> decision_log) res" where
  "clear_last_occurrences in_exec val dl =
     (case clear_pre_scan in_exec val None (rev (enumerate 0 (dl_pre_prepares dl))) of
        (scratch, pre_prepare_i) \<Rightarrow>
          bind_res (clear_pre_each pre_prepare_i None scratch (dl_pre_prepares dl)) (\<lambda>(pre_prepare, pps).
          bind_res (clear_log in_exec (dl_prepares dl)) (\<lambda>ps.
          bind_res (clear_log in_exec (dl_commits dl)) (\<lambda>cs.
          Inr (pre_prepare, dl\<lparr>dl_pre_prepares := pps, dl_prepares := ps, dl_commits := cs\<rparr>)))))"

section \<open>The log\<close>

datatype info = Info_Nil | Info_BeginCheckpoint

datatype 's checkpoint_state =
    CP_None
  | CP_Partial seq_no
  | CP_PartialWithEarlier seq_no "'s checkpoint"
  | CP_Complete "'s checkpoint"

record ('s, 'o) log =
  lg_curr_seq :: seq_no
  lg_batch_size :: usize
  lg_declog :: decision_log
  lg_requests :: "'o stored_request entries"
  lg_deciding :: "(digest, 'o stored_request) hmap"
  lg_decided :: "'o list"
  lg_checkpoint :: "'s checkpoint_state"

definition log_new :: "usize \<Rightarrow> ('s, 'o) log" where
  "log_new batch_size =
     \<lparr>lg_curr_seq = seq_zero, lg_batch_size = batch_size, lg_declog = decision_log_new,
      lg_requests = [], lg_deciding = [], lg_decided = [], lg_checkpoint = CP_None\<rparr>"

definition log_install_state ::
  "seq_no \<Rightarrow> ('s, 'o) recovery_state \<Rightarrow> ('s, 'o) log \<Rightarrow> ('s, 'o) log" where
  "log_install_state last_seq rs lg =
     lg\<lparr>lg_declog := rs_declog rs, lg_decided := rs_requests rs,
        lg_checkpoint := CP_Complete (rs_checkpoint rs), lg_curr_seq := last_seq\<rparr>"

definition snapshot :: "view_info \<Rightarrow> ('s, 'o) log \<Rightarrow> ('s, 'o) recovery_state res" where
  "snapshot view lg =
     (case lg_checkpoint lg of
        CP_Complete checkpoint \<Rightarrow>
          Inr \<lparr>rs_view = view, rs_checkpoint = checkpoint, rs_requests = lg_decided lg,
               rs_declog = lg_declog lg\<rparr>
      | _ \<Rightarrow> Inl (Err (Wrapped ErrorKind_ConsensusLog ''Checkpoint to be finalized'')))"

definition log_insert ::
  "('o, 'z) log_env_scheme \<Rightarrow> header \<Rightarrow> ('s, 'o, 'p) system_message \<Rightarrow> ('s, 'o) log \<Rightarrow> ('s, 'o) log" where
  "log_insert env h m lg =
     (case m of
        SM_Request message \<Rightarrow>
          (let dig = unique_digest env h; stored = StoredMessage h message in
           lg\<lparr>lg_requests := om_insert (env_omap env) dig stored (lg_requests lg),
              lg_deciding := hmap_remove dig (lg_deciding lg)\<rparr>)
      | SM_Consensus message \<Rightarrow>
          (let stored = StoredMessage h message; dl = lg_declog lg in
           lg\<lparr>lg_declog :=
             (case cm_kind message of
                PrePrepare _ \<Rightarrow> dl\<lparr>dl_pre_prepares := dl_pre_prepares dl @ [stored]\<rparr>
              | Prepare _ \<Rightarrow> dl\<lparr>dl_prepares := dl_prepares dl @ [stored]\<rparr>
              | Commit _ \<Rightarrow> dl\<lparr>dl_commits := dl_commits dl @ [stored]\<rparr>)\<rparr>)
      | _ \<Rightarrow> lg)"

definition next_batch ::
  "('o, 'z) log_env_scheme \<Rightarrow> ('s, 'o) log \<Rightarrow> digest list option \<times> ('s, 'o) log" where
  "next_batch env lg =
     (case om_pop_front (env_omap env) (lg_requests lg) of
        None \<Rightarrow> (None, lg)
      | Some ((dig, stored), requests) \<Rightarrow>
          (let deciding = hmap_insert dig stored (lg_deciding lg);
               lg' = lg\<lparr>lg_requests := requests, lg_deciding := deciding\<rparr> in
           (if length deciding \<ge> lg_batch_size lg
            then Some (take (lg_batch_size lg) (hmap_keys (env_ord_digest env) deciding))
            else None,
            lg')))"

definition view_change_propose :: "('o, 'z) log_env_scheme \<Rightarrow> ('s, 'o) log \<Rightarrow> digest list" where
  "view_change_propose env lg =
     take (lg_batch_size lg)
       (om_keys (env_omap env) (lg_requests lg) @ hmap_keys (env_ord_digest env) (lg_deciding lg))"

definition has_request :: "('o, 'z) log_env_scheme \<Rightarrow> ('s, 'o) log \<Rightarrow> digest \<Rightarrow> bool" where
  "has_request env lg dig =
     (if hmap_contains (lg_deciding lg) dig then True
      else if om_get (env_omap env) (lg_requests lg) dig \<noteq> None then True
      else False)"

definition request_of :: "('o, 'z) log_env_scheme \<Rightarrow> ('s, 'o) log \<Rightarrow> digest \<Rightarrow> 'o stored_request option" where
  "request_of env lg dig =
     (case hmap_get (lg_deciding lg) dig of
        Some stored \<Rightarrow> Some stored
      | None \<Rightarrow> om_get (env_omap env) (lg_requests lg) dig)"

definition clone_requests ::
  "('o, 'z) log_env_scheme \<Rightarrow> ('s, 'o) log \<Rightarrow> digest list \<Rightarrow> 'o stored_request list" where
  "clone_requests env lg digests = List.map_filter (request_of env lg) digests"

definition begin_checkpoint :: "seq_no \<Rightarrow> ('s, 'o) log \<Rightarrow> (info \<times> ('s, 'o) log) res" where
  "begin_checkpoint s lg =
     (case lg_checkpoint lg of
        CP_None \<Rightarrow> Inr (Info_BeginCheckpoint, lg\<lparr>lg_checkpoint := CP_Partial s\<rparr>)
      | CP_Complete earlier \<Rightarrow>
          Inr (Info_BeginCheckpoint, lg\<lparr>lg_checkpoint := CP_PartialWithEarlier s earlier\<rparr>)
      | _ \<Rightarrow> Inl (Err (Wrapped ErrorKind_ConsensusLog ''Invalid checkpoint state detected'')))"

text \<open>The loop of \<open>finalize_batch\<close> that takes the requests out of the log.\<close>

fun finalize_take ::
  "('o, 'z) log_env_scheme \<Rightarrow> digest list \<Rightarrow> 'o update_batch \<Rightarrow> ('s, 'o) log
     \<Rightarrow> ('o update_batch \<times> ('s, 'o) log) res" where
  "finalize_take env [] batch lg = Inr (batch, lg)"
| "finalize_take env (dig # digests) batch lg =
     (case hmap_get (lg_deciding lg) dig of
        Some stored \<Rightarrow>
          finalize_take env digests
            (update_batch_add (header_from (sm_header stored)) dig (rm_operation (sm_message stored)) batch)
            (lg\<lparr>lg_deciding := hmap_remove dig (lg_deciding lg)\<rparr>)
      | None \<Rightarrow>
          (case om_remove (env_omap env) dig (lg_requests lg) of
             (Some stored, requests) \<Rightarrow>
               finalize_take env digests
                 (update_batch_add (header_from (sm_header stored)) dig (rm_operation (sm_message stored)) batch)
                 (lg\<lparr>lg_requests := requests\<rparr>)
           | (None, requests) \<Rightarrow> Inl (Err (Simple ErrorKind_ConsensusLog))))"

definition last_seq_no :: "('s, 'o) log \<Rightarrow> seq_no" where
  "last_seq_no lg =
     (let pps = dl_pre_prepares (lg_declog lg) in
      if length pps > 0 then stored_seq (pps ! (length pps - 1)) else lg_curr_seq lg)"

definition finalize_batch ::
  "('o, 'z) log_env_scheme \<Rightarrow> seq_no \<Rightarrow> digest list \<Rightarrow> ('s, 'o) log
     \<Rightarrow> ((info \<times> 'o update_batch) \<times> ('s, 'o) log) res" where
  "finalize_batch env s digests lg =
     bind_res (finalize_take env digests [] lg) (\<lambda>(batch, lg).
     let lg = lg\<lparr>lg_decided := lg_decided lg @ map up_operation batch\<rparr>;
         n = seq_to_u32 (last_seq_no lg) in
     bind_res (if n > 0 \<and> n mod PERIOD = 0 then begin_checkpoint (last_seq_no lg) lg
               else Inr (Info_Nil, lg)) (\<lambda>(report, lg).
     Inr ((report, batch), lg\<lparr>lg_declog := (lg_declog lg)\<lparr>dl_last_exec := Some s\<rparr>\<rparr>)))"

definition finalize_checkpoint_at :: "seq_no \<Rightarrow> 's \<Rightarrow> ('s, 'o) log \<Rightarrow> ('s, 'o) log" where
  "finalize_checkpoint_at s appstate lg =
     (let pps = dl_pre_prepares (lg_declog lg);
          lg = lg\<lparr>lg_checkpoint := CP_Complete \<lparr>cp_seq = s, cp_appstate = appstate\<rparr>, lg_decided := []\<rparr>;
          lg = (if pps = [] then lg
                else lg\<lparr>lg_declog := (lg_declog lg)\<lparr>dl_pre_prepares := []\<rparr>,
                        lg_curr_seq := stored_seq (last pps)\<rparr>) in
      lg\<lparr>lg_declog := (lg_declog lg)\<lparr>dl_prepares := [], dl_commits := []\<rparr>\<rparr>)"

definition finalize_checkpoint :: "'s \<Rightarrow> ('s, 'o) log \<Rightarrow> ('s, 'o) log res" where
  "finalize_checkpoint appstate lg =
     (case lg_checkpoint lg of
        CP_None \<Rightarrow> Inl (Err (Wrapped ErrorKind_ConsensusLog ''No checkpoint has been initiated yet''))
      | CP_Complete _ \<Rightarrow> Inl (Err (Wrapped ErrorKind_ConsensusLog ''Checkpoint already finalized''))
      | CP_Partial s \<Rightarrow> Inr (finalize_checkpoint_at s appstate lg)
      | CP_PartialWithEarlier s _ \<Rightarrow> Inr (finalize_checkpoint_at s appstate lg))"

section \<open>Proofs of the decision log\<close>

text \<open>The trailing messages of an instance, newest first, and the log without them.\<close>

definition trailing :: "seq_no \<Rightarrow> stored_consensus list \<Rightarrow> stored_consensus list" where
  "trailing s xs = takeWhile (\<lambda>m. stored_seq m = s) (rev xs)"

definition without_trailing :: "seq_no \<Rightarrow> stored_consensus list \<Rightarrow> stored_consensus list" where
  "without_trailing s xs = rev (dropWhile (\<lambda>m. stored_seq m = s) (rev xs))"

lemma trailing_split: "xs = without_trailing s xs @ rev (trailing s xs)"
  unfolding trailing_def without_trailing_def by (rule takeWhile_rev_suffix)

lemma trailing_snoc [simp]:
  "trailing s [] = []"
  "trailing s (xs @ [x]) = (if stored_seq x = s then x # trailing s xs else [])"
  "without_trailing s [] = []"
  "without_trailing s (xs @ [x]) = (if stored_seq x = s then without_trailing s xs else xs @ [x])"
  by (simp_all add: trailing_def without_trailing_def)

lemma enumerate_snoc: "rev (enumerate 0 (xs @ [x])) = (length xs, x) # rev (enumerate 0 xs)"
  by (simp add: enumerate_append_eq)

lemma swap_remove_snoc [simp]: "swap_remove (length xs) (xs @ [x]) = Some (x, xs)"
  using swap_remove_last [of "xs @ [x]"] by simp

lemma clear_log_eq: "clear_log s xs = Inr (without_trailing s xs)"
  unfolding clear_log_def
  by (induction xs rule: rev_induct) (simp_all add: enumerate_snoc)

lemma clear_pre_scan_fst:
  "fst (clear_pre_scan s v pi xs) = clear_scan s xs"
  by (induction s v pi xs rule: clear_pre_scan.induct) (auto simp: Let_def split: prod.splits)

lemma clear_pre_scan_Some: "snd (clear_pre_scan s v (Some k) xs) = Some k"
  by (induction s v "Some k" xs rule: clear_pre_scan.induct)
    (auto simp: Let_def split: prod.splits option.splits)

lemma clear_pre_scan_below: "snd (clear_pre_scan s v None (rev (enumerate 0 xs))) = Some k \<Longrightarrow> k < length xs"
proof (induction xs rule: rev_induct)
  case (snoc x xs)
  then show ?case
    by (auto simp: enumerate_snoc clear_pre_scan_Some less_SucI Let_def split: if_splits option.splits prod.splits)
      (metis clear_pre_scan_Some less_Suc_eq option.inject snd_conv)+
qed simp

lemma clear_pre_each_None:
  "clear_pre_each None acc (clear_scan s (rev (enumerate 0 xs))) xs = Inr (acc, without_trailing s xs)"
  by (induction xs rule: rev_induct) (simp_all add: enumerate_snoc)

lemma clear_pre_eq:
  assumes "clear_pre_scan s v None (rev (enumerate 0 xs)) = (scratch, j)"
  shows "clear_pre_each j None scratch xs =
    Inr (find (\<lambda>m. v = Some (header_digest (sm_header m))) (trailing s xs), without_trailing s xs)"
  using assms
proof (induction xs arbitrary: scratch j rule: rev_induct)
  case (snoc x xs)
  show ?case
  proof (cases "stored_seq x = s")
    case True
    show ?thesis
    proof (cases "v = Some (header_digest (sm_header x))")
      case hit: True
      have "j = Some (length xs)" and "scratch = length xs # clear_scan s (rev (enumerate 0 xs))"
        using snoc.prems True hit clear_pre_scan_Some [of s v "length xs" "rev (enumerate 0 xs)"]
          clear_pre_scan_fst [of s v "Some (length xs)" "rev (enumerate 0 xs)"]
        by (auto simp: enumerate_snoc split: prod.splits)
      then show ?thesis using True hit by (simp add: clear_pre_each_None)
    next
      case miss: False
      obtain scratch' where rest: "clear_pre_scan s v None (rev (enumerate 0 xs)) = (scratch', j)"
        and scratch: "scratch = length xs # scratch'"
        using snoc.prems True miss by (cases v) (auto simp: enumerate_snoc split: prod.splits)
      have "j \<noteq> Some (length xs)"
        using clear_pre_scan_below [of s v xs "length xs"] rest by auto
      then show ?thesis using snoc.IH [OF rest] scratch True miss by simp
    qed
  qed (use snoc.prems in \<open>auto simp: enumerate_snoc\<close>)
qed simp

lemma clear_last_occurrences_eq:
  "clear_last_occurrences s v dl =
     Inr (find (\<lambda>m. v = Some (header_digest (sm_header m))) (trailing s (dl_pre_prepares dl)),
       dl\<lparr>dl_pre_prepares := without_trailing s (dl_pre_prepares dl),
          dl_prepares := without_trailing s (dl_prepares dl),
          dl_commits := without_trailing s (dl_commits dl)\<rparr>)"
  by (cases "clear_pre_scan s v None (rev (enumerate 0 (dl_pre_prepares dl)))")
    (simp add: clear_last_occurrences_def clear_pre_eq clear_log_eq)

text \<open>The votes of the newest view in which instance \<open>s\<close> has votes, newest first.\<close>

definition last_block :: "seq_no \<Rightarrow> stored_consensus list \<Rightarrow> stored_consensus list" where
  "last_block s xs =
     (case dropWhile (\<lambda>m. stored_seq m \<noteq> s) (rev xs) of
        [] \<Rightarrow> []
      | m # ms \<Rightarrow> m # takeWhile (\<lambda>x. stored_seq x = s \<and> stored_view x = stored_view m) ms)"

lemma last_votes_scan_found:
  "last_votes_scan s True v xs = takeWhile (\<lambda>x. stored_seq x = s \<and> stored_view x = v) xs"
  by (induction xs) auto

lemma last_votes_scan_eq: "last_votes_scan s False v (rev xs) = last_block s xs"
proof -
  have "last_votes_scan s False v ys =
      (case dropWhile (\<lambda>m. stored_seq m \<noteq> s) ys of [] \<Rightarrow> []
       | m # ms \<Rightarrow> m # takeWhile (\<lambda>x. stored_seq x = s \<and> stored_view x = stored_view m) ms)" for ys
    by (induction ys) (auto simp: last_votes_scan_found)
  then show ?thesis by (simp add: last_block_def)
qed

lemma last_block_votes:
  assumes "m \<in> set (last_block s xs)"
  shows "m \<in> set xs" and "stored_seq m = s" and "stored_view m = stored_view (hd (last_block s xs))"
proof -
  from assms obtain x xs' where x: "dropWhile (\<lambda>m. stored_seq m \<noteq> s) (rev xs) = x # xs'"
    by (cases "dropWhile (\<lambda>m. stored_seq m \<noteq> s) (rev xs)") (auto simp: last_block_def)
  then have "x \<in> set xs" "set xs' \<subseteq> set xs" "stored_seq x = s"
    by (metis list.set_intros(1) set_dropWhileD set_rev,
        metis list.set_intros(2) set_dropWhileD set_rev subsetI,
        metis (mono_tags, lifting) dropWhile_eq_Cons_conv)
  with assms x show "m \<in> set xs" "stored_seq m = s" "stored_view m = stored_view (hd (last_block s xs))"
    by (auto simp: last_block_def dest: set_takeWhileD)
qed

lemma seq_cmp_refl [simp]: "seq_cmp a a = Equal"
  and seq_cmp_below [simp]: "a < b \<Longrightarrow> seq_cmp a b = Less"
  and seq_cmp_Equal: "seq_cmp a b = Equal \<longleftrightarrow> a = b"
  by (auto simp: seq_cmp_def)

text \<open>A log whose messages are all of the executing instance or earlier, with votes of the
  right kind, never hits the code marked unreachable.\<close>

definition declog_ordered :: "decision_log \<Rightarrow> bool" where
  "declog_ordered dl \<longleftrightarrow>
     (\<forall>m \<in> set (dl_pre_prepares dl). stored_seq m \<le> executing dl) \<and>
     (\<forall>m \<in> set (dl_prepares dl). stored_seq m \<le> executing dl \<and> (\<exists>d. cm_kind (sm_message m) = Prepare d))"

lemma write_set_scan_eq:
  assumes "\<forall>m \<in> set xs. stored_seq m \<le> e"
  shows "write_set_scan e xs = Inr (map (\<lambda>m. ViewDecisionPair (stored_view m) (header_digest (sm_header m)))
    (takeWhile (\<lambda>m. stored_seq m = e) xs))"
  using assms
proof (induction xs)
  case (Cons x xs)
  then consider "stored_seq x < e" | "stored_seq x = e" by fastforce
  then show ?case using Cons by cases auto
qed simp

lemma quorum_writes_scan_total:
  assumes "\<forall>m \<in> set xs. stored_seq m \<le> e \<and> (\<exists>d. cm_kind (sm_message m) = Prepare d)"
  shows "\<exists>r. quorum_writes_scan e q lv c xs = Inr r"
  using assms
proof (induction xs arbitrary: lv c)
  case (Cons x xs)
  then consider "stored_seq x < e" | "stored_seq x = e" by fastforce
  then show ?case using Cons by cases (auto simp: Let_def)
qed simp

lemma quorum_writes_scan_sound:
  assumes "quorum_writes_scan e q lv c xs = Inr (Some (ViewDecisionPair v d))"
    and "\<forall>m \<in> set ps. stored_seq m = e \<and> lv = Some (stored_view m)" and "c = length ps"
    and "lv = None \<longrightarrow> ps = []"
  shows "\<exists>ys. set ys \<subseteq> set ps \<union> set xs \<and> length ys = q \<and>
     (\<forall>m \<in> set ys. stored_seq m = e \<and> stored_view m = v) \<and>
     (\<exists>m \<in> set ys. cm_kind (sm_message m) = Prepare d)"
  using assms
proof (induction e q lv c xs arbitrary: ps rule: quorum_writes_scan.induct)
  case (2 e q lv c x xs)
  from 2(2) have cmp: "seq_cmp (stored_seq x) e = Equal" by (cases "seq_cmp (stored_seq x) e") auto
  then have eq: "stored_seq x = e" by (simp add: seq_cmp_Equal)
  let ?c = "(case lv of None \<Rightarrow> c | Some v \<Rightarrow> if stored_view x = v then c else 0) + 1"
  obtain ps' where ps': "set ps' \<subseteq> insert x (set ps)" "x \<in> set ps'" "?c = length ps'"
    and all: "\<forall>m \<in> set ps'. stored_seq m = e \<and> stored_view m = stored_view x"
  proof (cases "lv = None \<or> lv = Some (stored_view x)")
    case True
    then have "?c = length (ps @ [x])" using 2(4) by auto
    with that [of "ps @ [x]"] show ?thesis using 2(3) eq True by auto
  next
    case False
    then have "?c = length [x]" by (auto split: option.splits if_splits)
    with that [of "[x]"] show ?thesis using eq by simp
  qed
  show ?case
  proof (cases "?c = q")
    case True
    then have "v = stored_view x" and "cm_kind (sm_message x) = Prepare d"
      using 2(2) cmp by (auto simp: Let_def split: consensus_message_kind.splits)
    moreover have "set ps' \<subseteq> set ps \<union> set (x # xs)" using ps'(1) by auto
    ultimately show ?thesis using ps' all True by metis
  next
    case False
    then have scan: "quorum_writes_scan e q (Some (stored_view x)) ?c xs = Inr (Some (ViewDecisionPair v d))"
      using 2(2) cmp by (simp add: Let_def)
    have lv: "\<forall>m \<in> set ps'. stored_seq m = e \<and> Some (stored_view x) = Some (stored_view m)"
      using all by simp
    from 2(1) [OF cmp refl False scan lv ps'(3)] obtain ys where
      ys: "set ys \<subseteq> set ps' \<union> set xs" and rest: "length ys = q"
      "\<forall>m \<in> set ys. stored_seq m = e \<and> stored_view m = v"
      "\<exists>m \<in> set ys. cm_kind (sm_message m) = Prepare d" by blast
    have "set ys \<subseteq> set ps \<union> set (x # xs)" using ys ps'(1) by auto
    with rest show ?thesis by blast
  qed
qed simp

section \<open>Proofs of the log\<close>

text \<open>The digests of the requests the log holds, and the invariant on where it holds them.\<close>

definition known :: "('s, 'o) log \<Rightarrow> digest set" where
  "known lg = fst ` set (lg_requests lg) \<union> fst ` set (lg_deciding lg)"

definition log_wf :: "('o, 'z) log_env_scheme \<Rightarrow> ('s, 'o) log \<Rightarrow> bool" where
  "log_wf env lg \<longleftrightarrow>
     hmap_wf (lg_deciding lg) \<and> distinct (map fst (lg_requests lg)) \<and>
     fst ` set (lg_requests lg) \<inter> fst ` set (lg_deciding lg) = {} \<and>
     (\<forall>p \<in> set (lg_requests lg) \<union> set (lg_deciding lg). unique_digest env (sm_header (snd p)) = fst p)"

lemma omap_laws:
  assumes "omap_ok om"
  shows "om_pop_front om [] = None" "om_pop_front om (x # m) = Some (x, m)"
    "om_remove om k m = (map_of m k, hmap_remove k m)" "om_get om m = map_of m"
    "om_keys om m = map fst m"
  using assms unfolding omap_ok_def fun_eq_iff by blast+

lemma has_request_known: "omap_ok (env_omap env) \<Longrightarrow> has_request env lg d \<longleftrightarrow> d \<in> known lg"
  by (simp add: has_request_def known_def omap_laws hmap_contains_iff map_of_eq_None_iff)

lemma request_of_known: "omap_ok (env_omap env) \<Longrightarrow> request_of env lg d = None \<longleftrightarrow> d \<notin> known lg"
  using map_of_eq_None_iff [of "lg_deciding lg" d] map_of_eq_None_iff [of "lg_requests lg" d]
  by (cases "hmap_get (lg_deciding lg) d") (auto simp: request_of_def known_def omap_laws(4))

lemma log_wf_new: "log_wf env (log_new n)"
  by (simp add: log_wf_def log_new_def)

lemma set_om_insert:
  assumes "omap_ok om" and "distinct (map fst m)"
  shows "distinct (map fst (om_insert om k v m))"
    and "set (om_insert om k v m) = insert (k, v) {p \<in> set m. fst p \<noteq> k}"
proof -
  show dist: "distinct (map fst (om_insert om k v m))" using assms by (simp add: omap_ok_def)
  have upd: "map_of (om_insert om k v m) = (map_of m)(k \<mapsto> v)" using assms by (simp add: omap_ok_def)
  have "p \<in> set (om_insert om k v m) \<longleftrightarrow> p \<in> insert (k, v) {p \<in> set m. fst p \<noteq> k}" for p
  proof -
    have "p \<in> set (om_insert om k v m) \<longleftrightarrow> map_of (om_insert om k v m) (fst p) = Some (snd p)"
      using map_of_eq_Some_iff [OF dist, of "fst p" "snd p"] by auto
    also have "\<dots> \<longleftrightarrow> (if fst p = k then snd p = v else p \<in> set m)"
      using map_of_eq_Some_iff [OF assms(2), of "fst p" "snd p"] by (auto simp: upd)
    finally show ?thesis by (cases p) auto
  qed
  then show "set (om_insert om k v m) = insert (k, v) {p \<in> set m. fst p \<noteq> k}" by blast
qed

lemma set_hmap_remove: "set (hmap_remove k m) = {p \<in> set m. fst p \<noteq> k}"
  by (auto simp: AList.delete_eq)

lemma set_hmap_insert: "hmap_wf m \<Longrightarrow> set (hmap_insert k v m) = insert (k, v) {p \<in> set m. fst p \<noteq> k}"
  by (induction m) (auto simp: hmap_wf_def rev_image_eqI)

lemma log_insert_request:
  assumes "omap_ok (env_omap env)" and "log_wf env lg"
  shows "log_wf env (log_insert env h (SM_Request m) lg)"
    and "known (log_insert env h (SM_Request m) lg) = insert (unique_digest env h) (known lg)"
  using assms set_om_insert [OF assms(1), of "lg_requests lg"]
  by (auto simp: log_wf_def known_def log_insert_def Let_def set_hmap_remove)

lemma log_insert_wf:
  assumes "omap_ok (env_omap env)" and "log_wf env lg"
  shows "log_wf env (log_insert env h m lg)"
proof (cases m)
  case (SM_Request r)
  then show ?thesis using log_insert_request [OF assms] by simp
qed (use assms(2) in \<open>simp_all add: log_wf_def log_insert_def Let_def\<close>)

lemma log_insert_consensus [log_frame]:
  "lg_requests (log_insert env h (SM_Consensus m) lg) = lg_requests lg"
  "lg_deciding (log_insert env h (SM_Consensus m) lg) = lg_deciding lg"
  "lg_batch_size (log_insert env h x lg) = lg_batch_size lg"
  "lg_decided (log_insert env h x lg) = lg_decided lg"
  "lg_checkpoint (log_insert env h x lg) = lg_checkpoint lg"
  "dl_last_exec (lg_declog (log_insert env h x lg)) = dl_last_exec (lg_declog lg)"
  by (simp_all add: log_insert_def Let_def
      split: system_message.splits consensus_message_kind.splits)

lemma next_batch_wf:
  assumes "omap_ok (env_omap env)" and "log_wf env lg" and "next_batch env lg = (r, lg')"
  shows "log_wf env lg'" and "known lg' = known lg"
proof -
  have "log_wf env lg' \<and> known lg' = known lg"
  proof (cases "lg_requests lg")
    case Nil
    then show ?thesis using assms by (auto simp: next_batch_def omap_laws)
  next
    case (Cons p rest)
    obtain d st where p: "p = (d, st)" by fastforce
    have lg': "lg' = lg\<lparr>lg_requests := rest, lg_deciding := hmap_insert d st (lg_deciding lg)\<rparr>"
      using assms(1,3) Cons p by (auto simp: next_batch_def omap_laws Let_def)
    have wf: "hmap_wf (lg_deciding lg)" using assms(2) by (simp add: log_wf_def)
    have new: "set (hmap_insert d st (lg_deciding lg)) = insert (d, st) (set (lg_deciding lg))"
      using assms(2) Cons p by (auto simp: set_hmap_insert [OF wf] log_wf_def rev_image_eqI)
    show ?thesis using assms(2) Cons p by (auto simp: lg' log_wf_def known_def new)
  qed
  then show "log_wf env lg'" "known lg' = known lg" by auto
qed

lemma next_batch_batch:
  assumes "omap_ok (env_omap env)" and "hash_order (env_ord_digest env)" and "log_wf env lg"
    and "next_batch env lg = (Some ds, lg')"
  shows "length ds = lg_batch_size lg" "distinct ds" "set ds \<subseteq> known lg"
proof -
  have "length ds = lg_batch_size lg \<and> distinct ds \<and> set ds \<subseteq> known lg'"
  proof (cases "lg_requests lg")
    case Nil
    then show ?thesis using assms by (auto simp: next_batch_def omap_laws)
  next
    case (Cons p rest)
    obtain d st where p: "p = (d, st)" by fastforce
    let ?m = "hmap_insert d st (lg_deciding lg)" and ?ord = "env_ord_digest env"
    have "hmap_wf ?m" using assms(3) by (simp add: log_wf_def)
    then have keys: "distinct (?ord (map fst ?m))" "set (?ord (map fst ?m)) = fst ` set ?m"
      using assms(2) hash_order_set [OF assms(2)]
      by (auto simp: hmap_wf_def hash_order_def) (metis mset_eq_imp_distinct_iff)
    have ds: "ds = take (lg_batch_size lg) (?ord (map fst ?m))" "lg_batch_size lg \<le> length ?m"
      "lg_deciding lg' = ?m"
      using assms(1,4) Cons p by (auto simp: next_batch_def omap_laws Let_def hmap_keys_def split: if_splits)
    then show ?thesis
      using keys hash_order_length [OF assms(2), of "map fst ?m"] set_take_subset [of "lg_batch_size lg"]
      by (auto simp: known_def dest!: in_set_takeD)
  qed
  then show "length ds = lg_batch_size lg" "distinct ds" "set ds \<subseteq> known lg"
    using next_batch_wf(2) [OF assms(1,3,4)] by auto
qed

text \<open>What finalising makes of one request.\<close>

definition update_of :: "digest \<Rightarrow> 'o stored_request \<Rightarrow> 'o update" where
  "update_of d m = Update (header_from (sm_header m)) d (rm_operation (sm_message m))"

definition forget :: "digest \<Rightarrow> ('s, 'o) log \<Rightarrow> ('s, 'o) log" where
  "forget d lg =
     (if hmap_contains (lg_deciding lg) d then lg\<lparr>lg_deciding := hmap_remove d (lg_deciding lg)\<rparr>
      else lg\<lparr>lg_requests := hmap_remove d (lg_requests lg)\<rparr>)"

lemma forget_wf:
  assumes "log_wf env lg"
  shows "log_wf env (forget d lg)" and "known (forget d lg) = known lg - {d}"
  using assms
  by (auto simp: log_wf_def known_def forget_def hmap_contains_iff set_hmap_remove distinct_delete)

lemma forget_request_of:
  "omap_ok (env_omap env) \<Longrightarrow> d' \<noteq> d \<Longrightarrow> request_of env (forget d lg) d' = request_of env lg d'"
  by (simp add: forget_def request_of_def omap_laws hmap_simps split: option.splits)

lemma forget_frame [log_frame]:
  "lg_curr_seq (forget d lg) = lg_curr_seq lg" "lg_batch_size (forget d lg) = lg_batch_size lg"
  "lg_declog (forget d lg) = lg_declog lg" "lg_decided (forget d lg) = lg_decided lg"
  "lg_checkpoint (forget d lg) = lg_checkpoint lg"
  by (simp_all add: forget_def)

lemma finalize_take_Cons:
  assumes "omap_ok (env_omap env)"
  shows "finalize_take env (d # ds) batch lg =
    (case request_of env lg d of
       None \<Rightarrow> Inl (Err (Simple ErrorKind_ConsensusLog))
     | Some m \<Rightarrow> finalize_take env ds (batch @ [update_of d m]) (forget d lg))"
  by (auto simp: request_of_def forget_def hmap_contains_def omap_laws [OF assms] update_of_def
      update_batch_add_def split: option.splits)

lemma finalize_take_ok:
  assumes "omap_ok (env_omap env)" and "log_wf env lg" and "distinct ds" and "set ds \<subseteq> known lg"
  shows "finalize_take env ds batch lg =
    Inr (batch @ map (\<lambda>d. update_of d (the (request_of env lg d))) ds, fold forget ds lg)"
  using assms(2-4)
proof (induction ds arbitrary: batch lg)
  case (Cons d ds)
  then obtain m where m: "request_of env lg d = Some m"
    using request_of_known [OF assms(1), of lg d] by auto
  have "request_of env (forget d lg) x = request_of env lg x" if "x \<in> set ds" for x
    using that Cons.prems by (intro forget_request_of [OF assms(1)]) auto
  then have "map (\<lambda>x. update_of x (the (request_of env (forget d lg) x))) ds =
      map (\<lambda>x. update_of x (the (request_of env lg x))) ds"
    by simp
  moreover have "set ds \<subseteq> known (forget d lg)"
    using Cons.prems by (auto simp: forget_wf)
  ultimately show ?case
    using Cons.IH [of "forget d lg" "batch @ [update_of d m]"] Cons.prems m
    by (simp add: finalize_take_Cons [OF assms(1)] forget_wf del: finalize_take.simps)
qed simp

lemma finalize_take_error:
  assumes "omap_ok (env_omap env)" and "log_wf env lg" and "\<not> (distinct ds \<and> set ds \<subseteq> known lg)"
  shows "finalize_take env ds batch lg = Inl (Err (Simple ErrorKind_ConsensusLog))"
  using assms(2,3)
proof (induction ds arbitrary: batch lg)
  case (Cons d ds)
  show ?case
  proof (cases "request_of env lg d")
    case None
    then show ?thesis by (simp add: finalize_take_Cons [OF assms(1)] del: finalize_take.simps)
  next
    case (Some m)
    then have "d \<in> known lg" using request_of_known [OF assms(1), of lg d] by auto
    then have "\<not> (distinct ds \<and> set ds \<subseteq> known (forget d lg))"
      using Cons.prems by (auto simp: forget_wf)
    then show ?thesis
      using Cons.IH [of "forget d lg"] Cons.prems(1) Some
      by (simp add: finalize_take_Cons [OF assms(1)] forget_wf del: finalize_take.simps)
  qed
qed simp

lemma fold_forget:
  "log_wf env lg \<Longrightarrow> log_wf env (fold forget ds lg) \<and> known (fold forget ds lg) = known lg - set ds"
  by (induction ds arbitrary: lg) (auto simp: forget_wf)

lemma fold_forget_frame [log_frame]:
  "lg_curr_seq (fold forget ds lg) = lg_curr_seq lg" "lg_batch_size (fold forget ds lg) = lg_batch_size lg"
  "lg_declog (fold forget ds lg) = lg_declog lg" "lg_decided (fold forget ds lg) = lg_decided lg"
  "lg_checkpoint (fold forget ds lg) = lg_checkpoint lg"
  by (induction ds arbitrary: lg) (simp_all add: forget_frame)

lemma last_seq_no_frame:
  "lg_declog lg' = lg_declog lg \<Longrightarrow> lg_curr_seq lg' = lg_curr_seq lg \<Longrightarrow> last_seq_no lg' = last_seq_no lg"
  by (simp add: last_seq_no_def Let_def)

definition checkpoint_due :: "('s, 'o) log \<Rightarrow> bool" where
  "checkpoint_due lg \<longleftrightarrow> 0 < seq_to_u32 (last_seq_no lg) \<and> seq_to_u32 (last_seq_no lg) mod PERIOD = 0"

fun checkpoint_pending :: "'s checkpoint_state \<Rightarrow> bool" where
  "checkpoint_pending (CP_Partial s) = True"
| "checkpoint_pending (CP_PartialWithEarlier s cp) = True"
| "checkpoint_pending _ = False"

fun checkpoint_begun :: "seq_no \<Rightarrow> 's checkpoint_state \<Rightarrow> 's checkpoint_state" where
  "checkpoint_begun s (CP_Complete cp) = CP_PartialWithEarlier s cp"
| "checkpoint_begun s _ = CP_Partial s"

definition checkpoint_clash :: "('s, 'o) log \<Rightarrow> bool" where
  "checkpoint_clash lg \<longleftrightarrow> checkpoint_due lg \<and> checkpoint_pending (lg_checkpoint lg)"

definition batch_present :: "('o, 'z) log_env_scheme \<Rightarrow> ('s, 'o) log \<Rightarrow> digest list \<Rightarrow> bool" where
  "batch_present env lg ds \<longleftrightarrow> distinct ds \<and> (\<forall>d \<in> set ds. has_request env lg d)"

lemma begin_checkpoint_eq:
  "begin_checkpoint s lg =
     (if checkpoint_pending (lg_checkpoint lg)
      then Inl (Err (Wrapped ErrorKind_ConsensusLog ''Invalid checkpoint state detected''))
      else Inr (Info_BeginCheckpoint, lg\<lparr>lg_checkpoint := checkpoint_begun s (lg_checkpoint lg)\<rparr>))"
  by (cases "lg_checkpoint lg") (simp_all add: begin_checkpoint_def)

lemma finalize_batch_ok:
  assumes "omap_ok (env_omap env)" and "log_wf env lg" and "distinct ds" and "set ds \<subseteq> known lg"
  defines "batch \<equiv> map (\<lambda>d. update_of d (the (request_of env lg d))) ds"
  shows "finalize_batch env s ds lg =
    (if checkpoint_due lg \<and> checkpoint_pending (lg_checkpoint lg)
     then Inl (Err (Wrapped ErrorKind_ConsensusLog ''Invalid checkpoint state detected''))
     else Inr ((if checkpoint_due lg then Info_BeginCheckpoint else Info_Nil, batch),
       (fold forget ds lg)\<lparr>lg_decided := lg_decided lg @ map up_operation batch,
          lg_checkpoint := (if checkpoint_due lg then checkpoint_begun (last_seq_no lg) (lg_checkpoint lg)
                            else lg_checkpoint lg),
          lg_declog := (lg_declog lg)\<lparr>dl_last_exec := Some s\<rparr>\<rparr>))"
proof -
  let ?lg = "(fold forget ds lg)\<lparr>lg_decided := lg_decided lg @ map up_operation batch\<rparr>"
  have seq: "last_seq_no ?lg = last_seq_no lg"
    by (rule last_seq_no_frame) (simp_all add: fold_forget_frame)
  show ?thesis
    using finalize_take_ok [OF assms(1-4), of "[]"] seq
    by (simp add: finalize_batch_def batch_def [symmetric] fold_forget_frame Let_def begin_checkpoint_eq
        checkpoint_due_def)
qed

lemma finalize_batch_missing:
  assumes "omap_ok (env_omap env)" and "log_wf env lg" and "\<not> (distinct ds \<and> set ds \<subseteq> known lg)"
  shows "finalize_batch env s ds lg = Inl (Err (Simple ErrorKind_ConsensusLog))"
  using finalize_take_error [OF assms] by (simp add: finalize_batch_def)

lemma log_wf_frame:
  "lg_requests lg' = lg_requests lg \<Longrightarrow> lg_deciding lg' = lg_deciding lg \<Longrightarrow> log_wf env lg' = log_wf env lg"
  by (simp add: log_wf_def)

lemma known_frame:
  "lg_requests lg' = lg_requests lg \<Longrightarrow> lg_deciding lg' = lg_deciding lg \<Longrightarrow> known lg' = known lg"
  by (simp add: known_def)

section \<open>Properties\<close>

text \<open>
  C20. Clearing an instance. \<open>clear_last_occurrences\<close>, which removes by index from the back,
  never panics; it takes exactly the newest run of messages of instance \<open>s\<close> out of each of
  the three logs and leaves everything before it in order, and it returns the newest of the
  removed pre-prepares whose digest is the wanted one, if there is one.
\<close>

theorem clear_last_occurrences_spec:
  "\<exists>pre dl'. clear_last_occurrences s v dl = Inr (pre, dl') \<and>
     pre = find (\<lambda>m. v = Some (header_digest (sm_header m)))
             (takeWhile (\<lambda>m. stored_seq m = s) (rev (dl_pre_prepares dl))) \<and>
     rev (dl_pre_prepares dl') = dropWhile (\<lambda>m. stored_seq m = s) (rev (dl_pre_prepares dl)) \<and>
     rev (dl_prepares dl') = dropWhile (\<lambda>m. stored_seq m = s) (rev (dl_prepares dl)) \<and>
     rev (dl_commits dl') = dropWhile (\<lambda>m. stored_seq m = s) (rev (dl_commits dl)) \<and>
     dl_last_exec dl' = dl_last_exec dl"
  by (simp add: clear_last_occurrences_eq trailing_def without_trailing_def)

text \<open>
  C19. Proofs of decisions. \<open>last_decision\<close> is absent before the first execution, runs into
  unreachable code exactly when no pre-prepare of the last executed instance is logged,
  and otherwise returns a proof if and only if the newest view with votes of that instance
  has \<open>2f\<close> prepares and a quorum of commits in a row; the proof then holds just those
  votes, all of the log, of that instance and of one view each.
\<close>

theorem last_decision_spec:
  assumes "params_wf (vi_params v)"
  shows "(last_decision dl v = Inl e \<longleftrightarrow>
      e = Panic ''unreachable'' \<and>
      (\<exists>s. dl_last_exec dl = Some s \<and> s \<notin> stored_seq ` set (dl_pre_prepares dl))) \<and>
    (last_decision dl v = Inr (Some pf) \<longleftrightarrow>
      (\<exists>s. dl_last_exec dl = Some s \<and>
         find (\<lambda>m. stored_seq m = s) (rev (dl_pre_prepares dl)) = Some (pf_pre_prepare pf) \<and>
         pf_prepares pf = last_block s (dl_prepares dl) \<and> 2 * view_f v \<le> length (pf_prepares pf) \<and>
         pf_commits pf = last_block s (dl_commits dl) \<and> view_quorum v \<le> length (pf_commits pf))) \<and>
    (\<forall>s ms m. m \<in> set (last_block s ms) \<longrightarrow>
       m \<in> set ms \<and> stored_seq m = s \<and> stored_view m = stored_view (hd (last_block s ms)))"
proof -
  have f: "usize_wrap (2 * view_f v) = 2 * view_f v" using assms by (simp add: params_wf_def)
  have none: "find (\<lambda>m. stored_seq m = s) (rev ms) = None \<longleftrightarrow> s \<notin> stored_seq ` set ms" for s ms
    by (auto simp: find_None_iff)
  show ?thesis
  proof (intro conjI allI impI)
    show "last_decision dl v = Inl e \<longleftrightarrow> e = Panic ''unreachable'' \<and>
      (\<exists>s. dl_last_exec dl = Some s \<and> s \<notin> stored_seq ` set (dl_pre_prepares dl))"
      unfolding last_decision_def none [symmetric]
      by (auto simp: Let_def split: option.splits)
    show "last_decision dl v = Inr (Some pf) \<longleftrightarrow>
      (\<exists>s. dl_last_exec dl = Some s \<and>
         find (\<lambda>m. stored_seq m = s) (rev (dl_pre_prepares dl)) = Some (pf_pre_prepare pf) \<and>
         pf_prepares pf = last_block s (dl_prepares dl) \<and> 2 * view_f v \<le> length (pf_prepares pf) \<and>
         pf_commits pf = last_block s (dl_commits dl) \<and> view_quorum v \<le> length (pf_commits pf))"
      by (cases pf) (auto simp: last_decision_def f last_votes_scan_eq Let_def split: option.splits)
  qed (auto dest: last_block_votes)
qed

text \<open>A replica with \<open>n = 4\<close>, \<open>f = 1\<close> and votes on one instance.\<close>

definition example_view :: "seq_no \<Rightarrow> view_info" where
  "example_view s = \<lparr>vi_seq = s, vi_params = \<lparr>sp_n = 4, sp_f = 1\<rparr>\<rparr>"

definition example_header :: "u32 \<Rightarrow> header" where
  "example_header i = \<lparr>h_align = 0, h_version = 0, h_from = i, h_to = 0, h_nonce = 0, h_length = 3,
     h_digest = replicate 32 7, h_signature = replicate 64 0\<rparr>"

lemma example_serializes: "serializes (example_env :: ('s, 'o, 'p) env)"
  by (simp add: serializes_def example_env_def)

lemma example_connected: "connected (example_node :: ('s, 'o, 'p) node) (view_targets (example_view s))"
  by (simp add: connected_def view_targets_def node_targets_def node_of_usize_def hmap_contains_def
      example_node_def example_view_def upt_rec)

definition example_vote :: "u32 \<Rightarrow> seq_no \<Rightarrow> consensus_message_kind \<Rightarrow> stored_consensus" where
  "example_vote i s k = StoredMessage (example_header i) \<lparr>cm_seq = s, cm_view = SeqNo 0, cm_kind = k\<rparr>"

definition example_declog :: decision_log where
  "example_declog =
     \<lparr>dl_last_exec = Some (SeqNo 1),
      dl_pre_prepares = [example_vote 0 (SeqNo 1) (PrePrepare [Digest [1]])],
      dl_prepares = map (\<lambda>i. example_vote i (SeqNo 1) (Prepare (Digest (replicate 32 7)))) [1, 2],
      dl_commits = map (\<lambda>i. example_vote i (SeqNo 1) (Commit (Digest (replicate 32 7)))) [0, 1, 2]\<rparr>"

lemma example_view_wf: "params_wf (vi_params (example_view s))"
  by (simp add: params_wf_def example_view_def)

lemma example_view_simps [simp]:
  "vi_seq (example_view s) = s" "view_quorum (example_view s) = 3" "view_f (example_view s) = 1"
  "view_n (example_view s) = 4"
  by (simp_all add: example_view_def quorum_def)

theorem last_decision_spec_witness:
  "\<exists>pf. last_decision example_declog (example_view (SeqNo 0)) = Inr (Some pf) \<and> length (pf_commits pf) = 3"
proof -
  have block: "last_block (SeqNo 1) (dl_prepares example_declog) = rev (dl_prepares example_declog)"
    "last_block (SeqNo 1) (dl_commits example_declog) = rev (dl_commits example_declog)"
    by (simp_all add: last_block_def example_declog_def example_vote_def)
  have facts: "dl_last_exec example_declog = Some (SeqNo 1)" "length (dl_prepares example_declog) = 2"
    "length (dl_commits example_declog) = 3"
    "find (\<lambda>m. stored_seq m = SeqNo 1) (rev (dl_pre_prepares example_declog)) =
       Some (example_vote 0 (SeqNo 1) (PrePrepare [Digest [1]]))"
    by (simp_all add: example_declog_def example_vote_def)
  let ?pf = "\<lparr>pf_pre_prepare = example_vote 0 (SeqNo 1) (PrePrepare [Digest [1]]),
    pf_prepares = rev (dl_prepares example_declog), pf_commits = rev (dl_commits example_declog)\<rparr>"
  have "last_decision example_declog (example_view (SeqNo 0)) = Inr (Some ?pf)"
    by (rule iffD2 [OF conjunct1 [OF conjunct2 [OF last_decision_spec [OF example_view_wf]]]])
      (simp add: block facts)
  then show ?thesis by (simp add: facts)
qed



text \<open>
  C10. Finalising a batch. On a well-formed log, \<open>finalize_batch\<close> succeeds if and only if
  the digests are distinct, the log holds a request for each, and no checkpoint has to
  begin while another waits for its application state. It then returns one update per
  digest in the given order, each the operation and the client of the logged request,
  appends exactly those operations to the decided ones, forgets exactly those requests,
  records \<open>s\<close> as last executed and reports a checkpoint when one is due. The two kinds
  of failure are told apart by their errors.
\<close>

theorem finalize_batch_spec:
  assumes "omap_ok (env_omap env)" and "log_wf env lg"
  shows "case finalize_batch env s ds lg of
      Inl e \<Rightarrow>
        \<not> batch_present env lg ds \<and> e = Err (Simple ErrorKind_ConsensusLog) \<or>
        batch_present env lg ds \<and> checkpoint_clash lg \<and> e = Err (Wrapped ErrorKind_ConsensusLog ''Invalid checkpoint state detected'')
    | Inr ((report, batch), lg') \<Rightarrow>
        batch_present env lg ds \<and> \<not> checkpoint_clash lg \<and> map up_digest batch = ds \<and>
        map up_operation batch = map (rm_operation \<circ> sm_message) (clone_requests env lg ds) \<and>
        map up_from batch = map (header_from \<circ> sm_header) (clone_requests env lg ds) \<and>
        lg_decided lg' = lg_decided lg @ map up_operation batch \<and>
        (\<forall>d. has_request env lg' d \<longleftrightarrow> has_request env lg d \<and> d \<notin> set ds) \<and> log_wf env lg' \<and>
        dl_last_exec (lg_declog lg') = Some s \<and>
        report = (if checkpoint_due lg then Info_BeginCheckpoint else Info_Nil)"
proof -
  have present: "batch_present env lg ds \<longleftrightarrow> distinct ds \<and> set ds \<subseteq> known lg"
    by (auto simp: batch_present_def has_request_known [OF assms(1)])
  have clone: "set ds \<subseteq> known lg \<Longrightarrow> clone_requests env lg ds = map (\<lambda>d. the (request_of env lg d)) ds"
    unfolding clone_requests_def
    using request_of_known [OF assms(1), of lg]
    by (induction ds) (auto simp: List.map_filter_simps split: option.splits)
  show ?thesis
  proof (cases "batch_present env lg ds")
    case False
    then have "finalize_batch env s ds lg = Inl (Err (Simple ErrorKind_ConsensusLog))"
      using finalize_batch_missing [OF assms(1,2)] present by simp
    with False show ?thesis by simp
  next
    case True
    then have ds: "distinct ds" "set ds \<subseteq> known lg" using present by auto
    show ?thesis
      unfolding finalize_batch_ok [OF assms(1,2) ds]
      using True fold_forget [OF assms(2), of ds] clone [OF ds(2)]
      by (auto simp: checkpoint_clash_def update_of_def o_def has_request_known [OF assms(1)] log_wf_def known_def)
  qed
qed

definition example_log :: "(nat, nat) log" where
  "example_log = log_insert (example_env :: (nat, nat, nat) env) (example_header 1000)
     (SM_Request (RequestMessage 5) :: (nat, nat, nat) system_message) (log_new 1)"

theorem finalize_batch_spec_witness:
  "\<exists>lg'. finalize_batch (example_env :: (nat, nat, nat) env) (SeqNo 0) [unique_digest (example_env :: (nat, nat, nat) env) (example_header 1000)] example_log =
     Inr ((Info_Nil, [Update (NodeId 1000) (unique_digest (example_env :: (nat, nat, nat) env) (example_header 1000)) 5]), lg')"
proof -
  let ?env = "example_env :: (nat, nat, nat) env" and ?d = "unique_digest (example_env :: (nat, nat, nat) env) (example_header 1000)"
  have ok: "omap_ok (env_omap ?env)" by (simp add: example_env_def list_omap_ok)
  have wf: "log_wf ?env example_log"
    unfolding example_log_def by (rule log_insert_wf [OF ok log_wf_new])
  have req: "request_of ?env example_log ?d = Some (StoredMessage (example_header 1000) (RequestMessage 5))"
    by (simp add: request_of_def omap_laws [OF ok] example_log_def log_insert_def log_new_def Let_def
        example_env_def list_omap_def)
  have has: "has_request ?env example_log ?d" and due: "\<not> checkpoint_due example_log"
    using req request_of_known [OF ok, of example_log ?d]
    by (auto simp: has_request_known [OF ok] checkpoint_due_def last_seq_no_def example_log_def
        log_insert_def log_new_def decision_log_new_def Let_def seq_zero_def seq_to_u32_def)
  have clone: "clone_requests ?env example_log [?d] = [StoredMessage (example_header 1000) (RequestMessage 5)]"
    by (simp add: clone_requests_def req List.map_filter_simps)
  have "batch_present ?env example_log [?d]" "\<not> checkpoint_clash example_log"
    "header_from (example_header 1000) = NodeId 1000"
    using has due by (simp_all add: batch_present_def checkpoint_clash_def example_header_def
        header_from_def node_of_u32_def)
  with finalize_batch_spec [OF ok wf, of "[?d]" "SeqNo 0"] due clone show ?thesis
    by (cases "finalize_batch ?env (SeqNo 0) [?d] example_log")
      (auto simp: Cons_eq_map_conv map_eq_Cons_conv, metis update.collapse)
qed

text \<open>
  C21. No request is lost or duplicated on its way to a proposal. Logging a client request
  makes the log hold its unique digest and drops no other; \<open>next_batch\<close> keeps the set of
  requests held; it offers a batch exactly when a request is waiting and enough are being
  decided, and the batch then has exactly \<open>batch_size\<close> different digests of requests the
  log holds. All keep the log well formed.
\<close>

theorem requests_tracked:
  assumes "omap_ok (env_omap env)" and "hash_order (env_ord_digest env)" and "log_wf env lg"
  shows "log_wf env (log_insert env h (SM_Request r) lg) \<and>
    (\<forall>d. has_request env (log_insert env h (SM_Request r) lg) d \<longleftrightarrow>
       d = unique_digest env h \<or> has_request env lg d) \<and>
    (case next_batch env lg of (b, lg') \<Rightarrow>
       log_wf env lg' \<and> (\<forall>d. has_request env lg' d = has_request env lg d) \<and>
       (b = None \<longleftrightarrow> lg_requests lg = [] \<or> length (lg_deciding lg) + 1 < lg_batch_size lg) \<and>
       (\<forall>ds. b = Some ds \<longrightarrow> length ds = lg_batch_size lg \<and> distinct ds \<and>
          (\<forall>d \<in> set ds. has_request env lg d)))"
proof -
  obtain b lg' where nb: "next_batch env lg = (b, lg')" by fastforce
  have "b = None \<longleftrightarrow> lg_requests lg = [] \<or> length (lg_deciding lg) + 1 < lg_batch_size lg"
  proof (cases "lg_requests lg")
    case Nil
    then show ?thesis using nb by (simp add: next_batch_def omap_laws [OF assms(1)])
  next
    case (Cons p rest)
    then have "fst p \<notin> fst ` set (lg_deciding lg)" using assms(3) by (auto simp: log_wf_def)
    then show ?thesis
      using nb Cons by (cases p)
        (auto simp: next_batch_def omap_laws [OF assms(1)] Let_def length_hmap_insert split: if_splits)
  qed
  then show ?thesis
    using next_batch_wf [OF assms(1,3) nb] next_batch_batch [OF assms] nb
    by (auto simp: log_insert_request [OF assms(1,3)] has_request_known [OF assms(1)])
qed

theorem requests_tracked_witness:
  "fst (next_batch (example_env :: (nat, nat, nat) env) example_log) \<noteq> None"
proof -
  let ?env = "example_env :: (nat, nat, nat) env"
  have ok: "omap_ok (env_omap ?env)" by (simp add: example_env_def list_omap_ok)
  have ord: "hash_order (env_ord_digest ?env)" by (simp add: example_env_def)
  have wf: "log_wf ?env example_log"
    unfolding example_log_def by (rule log_insert_wf [OF ok log_wf_new])
  have "lg_requests example_log \<noteq> []" "lg_batch_size example_log = 1"
    by (simp_all add: example_log_def log_insert_def log_new_def Let_def example_env_def list_omap_def)
  then show ?thesis
    using requests_tracked [OF ok ord wf]
    by (cases "next_batch ?env example_log") auto
qed



text \<open>
  C38. No collect after a checkpoint. Finalising a checkpoint drops every pre-prepare but
  keeps the last executed sequence number, so from then on, until the next batch is
  finalised, asking the decision log for the data a view change needs runs into code
  marked unreachable and panics.
\<close>

theorem collect_after_checkpoint_panics:
  assumes "finalize_checkpoint st lg = Inr lg'" and "dl_last_exec (lg_declog lg) = Some s"
  shows "collect_data_of (lg_declog lg') v = Inl (Panic ''unreachable'')"
proof -
  have "lg_declog lg' = decision_log_new\<lparr>dl_last_exec := Some s\<rparr>"
    using assms by (auto simp: finalize_checkpoint_def finalize_checkpoint_at_def Let_def
        decision_log_new_def split: checkpoint_state.splits)
  then show ?thesis
    by (simp add: collect_data_of_def to_be_decided_def last_decision_def decision_log_new_def Let_def)
qed

theorem collect_after_checkpoint_panics_witness:
  "\<exists>lg'. finalize_checkpoint (42 :: nat)
       ((log_new 1 :: (nat, nat) log)\<lparr>lg_checkpoint := CP_Partial (SeqNo 1000), lg_declog := example_declog\<rparr>) =
       Inr lg' \<and>
     collect_data_of (lg_declog lg') (example_view (SeqNo 0)) = Inl (Panic ''unreachable'')"
proof -
  let ?lg = "(log_new 1 :: (nat, nat) log)\<lparr>lg_checkpoint := CP_Partial (SeqNo 1000), lg_declog := example_declog\<rparr>"
  obtain lg' where lg': "finalize_checkpoint (42 :: nat) ?lg = Inr lg'"
    by (simp add: finalize_checkpoint_def)
  have "dl_last_exec (lg_declog ?lg) = Some (SeqNo 1)" by (simp add: example_declog_def)
  with collect_after_checkpoint_panics [OF lg'] lg' show ?thesis by blast
qed

end
