(* ===== verification/Consensus.thy ===== *)
theory Consensus
  imports Log
begin

text \<open>
  The consensus state machine (\<open>src/bft/consensus/mod.rs\<close>): the queue of messages that
  arrive out of order, the phases of an instance, and the handlers. The handlers only read
  the view of the \<open>Synchronizer\<close> they are given, so they take that view here.
\<close>

named_theorems consensus_frame \<open>what an operation leaves unchanged of the consensus state\<close>

section \<open>The queue of consensus messages\<close>

record tbo_queue =
  tq_curr_seq :: seq_no
  tq_get_queue :: bool
  tq_pre_prepares :: "stored_consensus tbo"
  tq_prepares :: "stored_consensus tbo"
  tq_commits :: "stored_consensus tbo"

abbreviation consensus_sn :: "stored_consensus \<Rightarrow> seq_no" where
  "consensus_sn m \<equiv> cm_seq (sm_message m)"

definition tbo_queue_new :: "seq_no \<Rightarrow> tbo_queue" where
  "tbo_queue_new s =
     \<lparr>tq_curr_seq = s, tq_get_queue = False, tq_pre_prepares = [], tq_prepares = [], tq_commits = []\<rparr>"

definition tbo_signal :: "tbo_queue \<Rightarrow> tbo_queue" where
  "tbo_signal q = q\<lparr>tq_get_queue := True\<rparr>"

definition next_instance_queue :: "tbo_queue \<Rightarrow> tbo_queue" where
  "next_instance_queue q =
     q\<lparr>tq_curr_seq := seq_next (tq_curr_seq q),
       tq_pre_prepares := tbo_advance_message_queue (tq_pre_prepares q),
       tq_prepares := tbo_advance_message_queue (tq_prepares q),
       tq_commits := tbo_advance_message_queue (tq_commits q)\<rparr>"

definition queue_pre_prepare :: "header \<Rightarrow> consensus_message \<Rightarrow> tbo_queue \<Rightarrow> tbo_queue" where
  "queue_pre_prepare h m q =
     q\<lparr>tq_pre_prepares :=
         tbo_queue_message consensus_sn (tq_curr_seq q) (tq_pre_prepares q) (StoredMessage h m)\<rparr>"

definition queue_prepare :: "header \<Rightarrow> consensus_message \<Rightarrow> tbo_queue \<Rightarrow> tbo_queue" where
  "queue_prepare h m q =
     q\<lparr>tq_prepares :=
         tbo_queue_message consensus_sn (tq_curr_seq q) (tq_prepares q) (StoredMessage h m)\<rparr>"

definition queue_commit :: "header \<Rightarrow> consensus_message \<Rightarrow> tbo_queue \<Rightarrow> tbo_queue" where
  "queue_commit h m q =
     q\<lparr>tq_commits :=
         tbo_queue_message consensus_sn (tq_curr_seq q) (tq_commits q) (StoredMessage h m)\<rparr>"

definition queue_consensus :: "header \<Rightarrow> consensus_message \<Rightarrow> tbo_queue \<Rightarrow> tbo_queue" where
  "queue_consensus h m q =
     (case cm_kind m of
        PrePrepare _ \<Rightarrow> queue_pre_prepare h m q
      | Prepare _ \<Rightarrow> queue_prepare h m q
      | Commit _ \<Rightarrow> queue_commit h m q)"

section \<open>The state of an instance\<close>

datatype proto_phase =
    Phase_Init
  | Phase_PrePreparing
  | Phase_PreparingRequests
  | Phase_Preparing usize
  | Phase_Committing usize

record consensus =
  co_batch_size :: usize
  co_phase :: proto_phase
  co_tbo :: tbo_queue
  co_current :: "digest list"
  co_current_digest :: digest
  co_missing_requests :: "digest list"
  co_missing_swapbuf :: "nat list"

datatype consensus_poll_status =
    CPS_Recv
  | CPS_TryProposeAndRecv
  | CPS_NextMessage header consensus_message

datatype consensus_status =
    CS_VotedTwice node_id
  | CS_Deciding
  | CS_Decided "digest list"

abbreviation co_seq :: "consensus \<Rightarrow> seq_no" where
  "co_seq c \<equiv> tq_curr_seq (co_tbo c)"

definition zero_digest :: digest where
  "zero_digest = Digest (replicate DIGEST_LENGTH 0)"

definition consensus_new :: "seq_no \<Rightarrow> usize \<Rightarrow> consensus" where
  "consensus_new initial_seq_no batch_size =
     \<lparr>co_batch_size = 0, co_phase = Phase_Init, co_tbo = tbo_queue_new initial_seq_no,
      co_current = replicate batch_size zero_digest, co_current_digest = zero_digest,
      co_missing_requests = [], co_missing_swapbuf = []\<rparr>"

text \<open>\<open>signal\<close> and \<open>queue\<close> are reached through \<open>DerefMut\<close> to the queue.\<close>

definition consensus_signal :: "consensus \<Rightarrow> consensus" where
  "consensus_signal c = c\<lparr>co_tbo := tbo_signal (co_tbo c)\<rparr>"

definition consensus_queue :: "header \<Rightarrow> consensus_message \<Rightarrow> consensus \<Rightarrow> consensus" where
  "consensus_queue h m c = c\<lparr>co_tbo := queue_consensus h m (co_tbo c)\<rparr>"

definition next_instance :: "consensus \<Rightarrow> consensus" where
  "next_instance c = c\<lparr>co_tbo := next_instance_queue (co_tbo c)\<rparr>"

definition clear_queues :: "tbo_queue \<Rightarrow> tbo_queue" where
  "clear_queues q = q\<lparr>tq_pre_prepares := [], tq_prepares := [], tq_commits := []\<rparr>"

text \<open>The three \<open>drain(..limit)\<close> calls, each of which panics past the end of its deque.\<close>

definition drain_queues :: "nat \<Rightarrow> tbo_queue \<Rightarrow> tbo_queue res" where
  "drain_queues limit q =
     (if limit > length (tq_pre_prepares q) \<or> limit > length (tq_prepares q) \<or> limit > length (tq_commits q)
      then Inl (Panic ''range end index out of range'')
      else Inr (q\<lparr>tq_pre_prepares := drop limit (tq_pre_prepares q),
                  tq_prepares := drop limit (tq_prepares q),
                  tq_commits := drop limit (tq_commits q)\<rparr>))"

definition install_sequence_number :: "seq_no \<Rightarrow> consensus \<Rightarrow> consensus res" where
  "install_sequence_number s c =
     (let install = (\<lambda>q. c\<lparr>co_tbo := q\<lparr>tq_curr_seq := s, tq_get_queue := True\<rparr>, co_phase := Phase_Init\<rparr>) in
      case seq_index s (co_seq c) of
        Inr limit \<Rightarrow>
          (if limit = 0 then Inr c
           else if limit \<ge> length (tq_pre_prepares (co_tbo c)) then Inr (install (clear_queues (co_tbo c)))
           else bind_res (drain_queues limit (co_tbo c)) (\<lambda>q. Inr (install q)))
      | Inl _ \<Rightarrow> Inr (install (clear_queues (co_tbo c))))"

definition install_new_phase :: "('s, 'o) recovery_state \<Rightarrow> consensus \<Rightarrow> consensus res" where
  "install_new_phase rs c =
     (let pre_prepares = dl_pre_prepares (rs_declog rs);
          seq_no = (if pre_prepares = [] then co_seq c
                    else stored_seq (pre_prepares ! (length pre_prepares - 1))) in
      bind_res (install_sequence_number seq_no c) (\<lambda>c. Inr (consensus_signal c)))"

definition is_deciding :: "consensus \<Rightarrow> bool" where
  "is_deciding c = (case co_phase c of Phase_Init \<Rightarrow> False | _ \<Rightarrow> True)"

definition consensus_msg :: "consensus \<Rightarrow> view_info \<Rightarrow> consensus_message_kind \<Rightarrow> ('s, 'o, 'p) system_message" where
  "consensus_msg c view kind = SM_Consensus \<lparr>cm_seq = co_seq c, cm_view = vi_seq view, cm_kind = kind\<rparr>"

definition propose ::
  "('s, 'o, 'p, 'z) env_scheme \<Rightarrow> digest list \<Rightarrow> view_info \<Rightarrow> ('s, 'o, 'p) node \<Rightarrow> consensus
     \<Rightarrow> (consensus \<times> ('s, 'o, 'p) node) res" where
  "propose env digests view nd c =
     (case co_phase c of
        Phase_Init \<Rightarrow>
          (let c = c\<lparr>co_phase := Phase_PrePreparing\<rparr> in
           if nd_id nd \<noteq> leader view then Inr (c, nd)
           else bind_res (node_broadcast env (consensus_msg c view (PrePrepare digests)) (view_targets view) nd)
                  (\<lambda>(_, nd). Inr (c, nd)))
      | _ \<Rightarrow> Inr (c, nd))"

definition forge_propose :: "digest list \<Rightarrow> view_info \<Rightarrow> consensus \<Rightarrow> ('s, 'o, 'p) system_message" where
  "forge_propose requests view c = consensus_msg c view (PrePrepare requests)"

text \<open>\<open>self.batch_size = digests.len()\<close> and the copy into the prefix of \<open>self.current\<close>.\<close>

definition copy_current :: "digest list \<Rightarrow> consensus \<Rightarrow> consensus res" where
  "copy_current digests c =
     (if length digests > length (co_current c)
      then Inl (Panic ''range end index out of range for slice'')
      else Inr (c\<lparr>co_batch_size := length digests,
                  co_current := digests @ drop (length digests) (co_current c)\<rparr>))"

text \<open>Broadcast of a vote to all replicas of the view.\<close>

definition broadcast_vote ::
  "('s, 'o, 'p, 'z) env_scheme \<Rightarrow> consensus \<Rightarrow> view_info \<Rightarrow> consensus_message_kind \<Rightarrow> ('s, 'o, 'p) node
     \<Rightarrow> ('s, 'o, 'p) node res" where
  "broadcast_vote env c view kind nd =
     bind_res (node_broadcast env (consensus_msg c view kind) (view_targets view) nd) (\<lambda>(_, nd). Inr nd)"

definition finalize_view_change ::
  "('s, 'o, 'p, 'z) env_scheme \<Rightarrow> digest \<Rightarrow> view_info \<Rightarrow> ('s, 'o) log \<Rightarrow> ('s, 'o, 'p) node \<Rightarrow> consensus
     \<Rightarrow> (consensus \<times> ('s, 'o, 'p) node) res" where
  "finalize_view_change env dig view lg nd c =
     (let c = c\<lparr>co_phase := Phase_Preparing 1, co_current_digest := dig\<rparr>;
          pre_prepares = dl_pre_prepares (lg_declog lg) in
      if pre_prepares = [] then Inl (Panic ''index out of bounds'')
      else (case cm_kind (sm_message (last pre_prepares)) of
              PrePrepare digests \<Rightarrow>
                bind_res (copy_current digests c) (\<lambda>c.
                if nd_id nd \<noteq> leader view
                then bind_res (broadcast_vote env c view (Prepare (co_current_digest c)) nd) (\<lambda>nd. Inr (c, nd))
                else Inr (c, nd))
            | _ \<Rightarrow> Inl (Panic ''unreachable'')))"

section \<open>Polling\<close>

text \<open>The macro \<open>extract_msg\<close>: pop a message, or stop looking into the queue.\<close>

definition extract_pre_prepare :: "(consensus \<Rightarrow> consensus) \<Rightarrow> consensus_poll_status \<Rightarrow> consensus
    \<Rightarrow> consensus_poll_status \<times> consensus" where
  "extract_pre_prepare opt rsp c =
     (case tbo_pop_message (tq_pre_prepares (co_tbo c)) of
        (Some stored, q) \<Rightarrow>
          (CPS_NextMessage (sm_header stored) (sm_message stored),
           opt (c\<lparr>co_tbo := (co_tbo c)\<lparr>tq_pre_prepares := q\<rparr>\<rparr>))
      | (None, q) \<Rightarrow> (rsp, c\<lparr>co_tbo := (co_tbo c)\<lparr>tq_pre_prepares := q, tq_get_queue := False\<rparr>\<rparr>))"

definition extract_prepare :: "(consensus \<Rightarrow> consensus) \<Rightarrow> consensus_poll_status \<Rightarrow> consensus
    \<Rightarrow> consensus_poll_status \<times> consensus" where
  "extract_prepare opt rsp c =
     (case tbo_pop_message (tq_prepares (co_tbo c)) of
        (Some stored, q) \<Rightarrow>
          (CPS_NextMessage (sm_header stored) (sm_message stored),
           opt (c\<lparr>co_tbo := (co_tbo c)\<lparr>tq_prepares := q\<rparr>\<rparr>))
      | (None, q) \<Rightarrow> (rsp, c\<lparr>co_tbo := (co_tbo c)\<lparr>tq_prepares := q, tq_get_queue := False\<rparr>\<rparr>))"

definition extract_commit :: "(consensus \<Rightarrow> consensus) \<Rightarrow> consensus_poll_status \<Rightarrow> consensus
    \<Rightarrow> consensus_poll_status \<times> consensus" where
  "extract_commit opt rsp c =
     (case tbo_pop_message (tq_commits (co_tbo c)) of
        (Some stored, q) \<Rightarrow>
          (CPS_NextMessage (sm_header stored) (sm_message stored),
           opt (c\<lparr>co_tbo := (co_tbo c)\<lparr>tq_commits := q\<rparr>\<rparr>))
      | (None, q) \<Rightarrow> (rsp, c\<lparr>co_tbo := (co_tbo c)\<lparr>tq_commits := q, tq_get_queue := False\<rparr>\<rparr>))"

text \<open>\<open>swap_remove_back\<close> at each index in turn; past the end it removes nothing.\<close>

fun swap_remove_back_each :: "nat list \<Rightarrow> 'a list \<Rightarrow> 'a list" where
  "swap_remove_back_each [] xs = xs"
| "swap_remove_back_each (i # is) xs =
     swap_remove_back_each is (case swap_remove i xs of None \<Rightarrow> xs | Some (_, ys) \<Rightarrow> ys)"

definition received_indices :: "('o, 'z) log_env_scheme \<Rightarrow> ('s, 'o) log \<Rightarrow> digest list \<Rightarrow> nat list" where
  "received_indices env lg missing =
     map fst (filter (\<lambda>(index, dig). has_request env lg dig) (enumerate 0 missing))"

definition poll_missing :: "('o, 'z) log_env_scheme \<Rightarrow> ('s, 'o) log \<Rightarrow> consensus \<Rightarrow> consensus" where
  "poll_missing env lg c =
     (let swapbuf = co_missing_swapbuf c @ received_indices env lg (co_missing_requests c) in
      c\<lparr>co_missing_requests := swap_remove_back_each swapbuf (co_missing_requests c),
        co_missing_swapbuf := []\<rparr>)"

definition consensus_poll ::
  "('o, 'z) log_env_scheme \<Rightarrow> ('s, 'o) log \<Rightarrow> consensus \<Rightarrow> consensus_poll_status \<times> consensus" where
  "consensus_poll env lg c =
     (case co_phase c of
        Phase_Init \<Rightarrow>
          (if tq_get_queue (co_tbo c)
           then extract_pre_prepare (\<lambda>c. c\<lparr>co_phase := Phase_PrePreparing\<rparr>) CPS_TryProposeAndRecv c
           else (CPS_TryProposeAndRecv, c))
      | Phase_PrePreparing \<Rightarrow>
          (if tq_get_queue (co_tbo c) then extract_pre_prepare (\<lambda>c. c) CPS_Recv c else (CPS_Recv, c))
      | Phase_PreparingRequests \<Rightarrow>
          (let c = poll_missing env lg c in
           if co_missing_requests c = []
           then extract_prepare (\<lambda>c. c\<lparr>co_phase := Phase_Preparing 1\<rparr>) CPS_Recv c
           else (CPS_Recv, c))
      | Phase_Preparing _ \<Rightarrow>
          (if tq_get_queue (co_tbo c) then extract_prepare (\<lambda>c. c) CPS_Recv c else (CPS_Recv, c))
      | Phase_Committing _ \<Rightarrow>
          (if tq_get_queue (co_tbo c) then extract_commit (\<lambda>c. c) CPS_Recv c else (CPS_Recv, c)))"

section \<open>Processing a message\<close>

type_synonym ('s, 'o, 'p) consensus_result =
  "(consensus_status \<times> consensus \<times> ('s, 'o) log \<times> ('s, 'o, 'p) node) res"

definition process_pre_preparing ::
  "('s, 'o, 'p, 'z) env_scheme \<Rightarrow> header \<Rightarrow> consensus_message \<Rightarrow> view_info \<Rightarrow> ('s, 'o) log
     \<Rightarrow> ('s, 'o, 'p) node \<Rightarrow> consensus \<Rightarrow> ('s, 'o, 'p) consensus_result" where
  "process_pre_preparing env h m view lg nd c =
     (case cm_kind m of
        PrePrepare digests \<Rightarrow>
          (if cm_view m \<noteq> vi_seq view then Inr (CS_Deciding, c, lg, nd)
           else if cm_seq m \<noteq> co_seq c
           then Inr (CS_Deciding, c\<lparr>co_tbo := queue_pre_prepare h m (co_tbo c)\<rparr>, lg, nd)
           else
             bind_res (copy_current digests (c\<lparr>co_current_digest := header_digest h\<rparr>)) (\<lambda>c.
             bind_res (if nd_id nd \<noteq> leader view
                       then broadcast_vote env c view (Prepare (co_current_digest c)) nd
                       else Inr nd) (\<lambda>nd.
             let lg = log_insert env h (SM_Consensus m :: ('s, 'o, 'p) system_message) lg;
                 missing = co_missing_requests c @
                   filter (\<lambda>d. \<not> has_request env lg d) (co_current c) in
             Inr (CS_Deciding,
                  c\<lparr>co_missing_requests := missing,
                    co_phase := (if missing = [] then Phase_Preparing 1 else Phase_PreparingRequests)\<rparr>,
                  lg, nd))))
      | Prepare _ \<Rightarrow> Inr (CS_Deciding, c\<lparr>co_tbo := queue_prepare h m (co_tbo c)\<rparr>, lg, nd)
      | Commit _ \<Rightarrow> Inr (CS_Deciding, c\<lparr>co_tbo := queue_commit h m (co_tbo c)\<rparr>, lg, nd))"

definition process_preparing ::
  "('s, 'o, 'p, 'z) env_scheme \<Rightarrow> usize \<Rightarrow> header \<Rightarrow> consensus_message \<Rightarrow> view_info \<Rightarrow> ('s, 'o) log
     \<Rightarrow> ('s, 'o, 'p) node \<Rightarrow> consensus \<Rightarrow> ('s, 'o, 'p) consensus_result" where
  "process_preparing env i h m view lg nd c =
     (case cm_kind m of
        PrePrepare _ \<Rightarrow> Inr (CS_Deciding, c\<lparr>co_tbo := queue_pre_prepare h m (co_tbo c)\<rparr>, lg, nd)
      | Prepare d \<Rightarrow>
          (if cm_view m \<noteq> vi_seq view then Inr (CS_Deciding, c, lg, nd)
           else if d \<noteq> co_current_digest c then Inr (CS_Deciding, c, lg, nd)
           else if cm_seq m \<noteq> co_seq c
           then Inr (CS_Deciding, c\<lparr>co_tbo := queue_prepare h m (co_tbo c)\<rparr>, lg, nd)
           else
             (let i = i + 1; lg = log_insert env h (SM_Consensus m :: ('s, 'o, 'p) system_message) lg in
              if i = view_quorum view
              then bind_res (broadcast_vote env c view (Commit (co_current_digest c)) nd) (\<lambda>nd.
                   Inr (CS_Deciding, c\<lparr>co_phase := Phase_Committing 0\<rparr>, lg, nd))
              else Inr (CS_Deciding, c\<lparr>co_phase := Phase_Preparing i\<rparr>, lg, nd)))
      | Commit _ \<Rightarrow> Inr (CS_Deciding, c\<lparr>co_tbo := queue_commit h m (co_tbo c)\<rparr>, lg, nd))"

definition process_committing ::
  "('s, 'o, 'p, 'z) env_scheme \<Rightarrow> usize \<Rightarrow> header \<Rightarrow> consensus_message \<Rightarrow> view_info \<Rightarrow> ('s, 'o) log
     \<Rightarrow> ('s, 'o, 'p) node \<Rightarrow> consensus \<Rightarrow> ('s, 'o, 'p) consensus_result" where
  "process_committing env i h m view lg nd c =
     (case cm_kind m of
        PrePrepare _ \<Rightarrow> Inr (CS_Deciding, c\<lparr>co_tbo := queue_pre_prepare h m (co_tbo c)\<rparr>, lg, nd)
      | Prepare _ \<Rightarrow> Inr (CS_Deciding, c\<lparr>co_tbo := queue_prepare h m (co_tbo c)\<rparr>, lg, nd)
      | Commit d \<Rightarrow>
          (if cm_view m \<noteq> vi_seq view then Inr (CS_Deciding, c, lg, nd)
           else if d \<noteq> co_current_digest c then Inr (CS_Deciding, c, lg, nd)
           else if cm_seq m \<noteq> co_seq c
           then Inr (CS_Deciding, c\<lparr>co_tbo := queue_commit h m (co_tbo c)\<rparr>, lg, nd)
           else
             (let i = i + 1; lg = log_insert env h (SM_Consensus m :: ('s, 'o, 'p) system_message) lg in
              if i = view_quorum view
              then (if co_batch_size c > length (co_current c)
                    then Inl (Panic ''range end index out of range for slice'')
                    else Inr (CS_Decided (take (co_batch_size c) (co_current c)),
                              c\<lparr>co_phase := Phase_Init\<rparr>, lg, nd))
              else Inr (CS_Deciding, c\<lparr>co_phase := Phase_Committing i\<rparr>, lg, nd))))"

definition consensus_process_message ::
  "('s, 'o, 'p, 'z) env_scheme \<Rightarrow> header \<Rightarrow> consensus_message \<Rightarrow> view_info \<Rightarrow> ('s, 'o) log
     \<Rightarrow> ('s, 'o, 'p) node \<Rightarrow> consensus \<Rightarrow> ('s, 'o, 'p) consensus_result" where
  "consensus_process_message env h m view lg nd c =
     (case co_phase c of
        Phase_Init \<Rightarrow> Inr (CS_Deciding, consensus_queue h m c, lg, nd)
      | Phase_PrePreparing \<Rightarrow> process_pre_preparing env h m view lg nd c
      | Phase_PreparingRequests \<Rightarrow> Inr (CS_Deciding, consensus_queue h m c, lg, nd)
      | Phase_Preparing i \<Rightarrow> process_preparing env i h m view lg nd c
      | Phase_Committing i \<Rightarrow> process_committing env i h m view lg nd c)"

section \<open>The queue invariant\<close>

text \<open>Every queued message waits in the slot of its distance to the current instance, in the
  queue of its kind.\<close>

fun is_pre_prepare :: "consensus_message_kind \<Rightarrow> bool" where
  "is_pre_prepare (PrePrepare _) = True"
| "is_pre_prepare _ = False"

fun is_prepare :: "consensus_message_kind \<Rightarrow> bool" where
  "is_prepare (Prepare _) = True"
| "is_prepare _ = False"

fun is_commit :: "consensus_message_kind \<Rightarrow> bool" where
  "is_commit (Commit _) = True"
| "is_commit _ = False"

definition tbo_all :: "('m \<Rightarrow> bool) \<Rightarrow> 'm tbo \<Rightarrow> bool" where
  "tbo_all P q \<longleftrightarrow> (\<forall>i. \<forall>m \<in> set (tbo_at q i). P m)"

definition queue_inv :: "tbo_queue \<Rightarrow> bool" where
  "queue_inv q \<longleftrightarrow>
     tbo_ordered consensus_sn (tq_curr_seq q) (tq_pre_prepares q) \<and>
     tbo_ordered consensus_sn (tq_curr_seq q) (tq_prepares q) \<and>
     tbo_ordered consensus_sn (tq_curr_seq q) (tq_commits q) \<and>
     tbo_all (\<lambda>m. is_pre_prepare (cm_kind (sm_message m))) (tq_pre_prepares q) \<and>
     tbo_all (\<lambda>m. is_prepare (cm_kind (sm_message m))) (tq_prepares q) \<and>
     tbo_all (\<lambda>m. is_commit (cm_kind (sm_message m))) (tq_commits q)"

lemma tbo_all_queue: "tbo_all P q \<Longrightarrow> P m \<Longrightarrow> tbo_all P (tbo_queue_message sn c q m)"
  by (auto simp: tbo_all_def tbo_at_queue_message)

lemma tbo_all_pop: "tbo_all P q \<Longrightarrow> tbo_all P (snd (tbo_pop_message q))"
  by (auto simp: tbo_all_def tbo_at_pop_message) (metis list.set_sel(2) tl_Nil)

lemma tbo_all_popped: "tbo_all P q \<Longrightarrow> tbo_pop_message q = (Some m, q') \<Longrightarrow> P m"
  by (cases q) (auto simp: tbo_all_def tbo_at_def split: list.splits dest: spec [of _ 0])

lemma tbo_all_advance: "tbo_all P q \<Longrightarrow> tbo_all P (tbo_advance_message_queue q)"
  by (simp add: tbo_all_def tbo_at_advance_message_queue)

lemma tbo_at_drop: "tbo_at (drop k q) i = tbo_at q (k + i)"
  by (auto simp: tbo_at_def less_diff_conv add.commute)

lemma tbo_all_drop: "tbo_all P q \<Longrightarrow> tbo_all P (drop k q)"
  by (simp add: tbo_all_def tbo_at_drop)

lemma tbo_all_Nil [simp]: "tbo_all P []"
  by (simp add: tbo_all_def tbo_at_def)

lemmas tbo_keeps = tbo.queue_ordered tbo.pop_ordered tbo.advance_ordered
  tbo_all_queue tbo_all_pop tbo_all_advance tbo_all_drop

lemma queue_inv_new: "queue_inv (tbo_queue_new s)"
  by (simp add: queue_inv_def tbo_queue_new_def)

lemma queue_inv_signal: "queue_inv (tbo_signal q) = queue_inv q"
  by (simp add: queue_inv_def tbo_signal_def)

lemma queue_inv_next_instance: "queue_inv q \<Longrightarrow> queue_inv (next_instance_queue q)"
  by (simp add: queue_inv_def next_instance_queue_def tbo_keeps)

lemma queue_inv_queue_pre_prepare:
  "queue_inv q \<Longrightarrow> is_pre_prepare (cm_kind m) \<Longrightarrow> queue_inv (queue_pre_prepare h m q)"
  by (simp add: queue_inv_def queue_pre_prepare_def tbo_keeps)

lemma queue_inv_queue_prepare:
  "queue_inv q \<Longrightarrow> is_prepare (cm_kind m) \<Longrightarrow> queue_inv (queue_prepare h m q)"
  by (simp add: queue_inv_def queue_prepare_def tbo_keeps)

lemma queue_inv_queue_commit:
  "queue_inv q \<Longrightarrow> is_commit (cm_kind m) \<Longrightarrow> queue_inv (queue_commit h m q)"
  by (simp add: queue_inv_def queue_commit_def tbo_keeps)

lemma queue_inv_queue: "queue_inv q \<Longrightarrow> queue_inv (queue_consensus h m q)"
  by (cases "cm_kind m")
    (simp_all add: queue_consensus_def queue_inv_queue_pre_prepare queue_inv_queue_prepare
      queue_inv_queue_commit)

lemmas queue_inv_queues = queue_inv_queue_pre_prepare queue_inv_queue_prepare queue_inv_queue_commit
  queue_inv_queue

lemma queue_inv_clear: "queue_inv ((clear_queues q)\<lparr>tq_curr_seq := s, tq_get_queue := b\<rparr>)"
  by (simp add: queue_inv_def clear_queues_def)

text \<open>The slots of a queue from \<open>limit\<close> on are the slots of the instance \<open>limit\<close> further.\<close>

lemma seq_index_shift:
  assumes "seq_index s c = Inr k" and "seq_index m c = Inr (k + i)"
  shows "seq_index m s = Inr i"
proof -
  let ?r = "\<lambda>x. sint (seq_raw x)"
  have k: "int k = (?r s - ?r c) mod 2 ^ 31" and ki: "int (k + i) = (?r m - ?r c) mod 2 ^ 31"
    and le: "k + i \<le> 1500"
    using assms by (auto simp: seq_index_Inr)
  have "(?r m - ?r s) mod 2 ^ 31 = ((?r m - ?r c) mod 2 ^ 31 - (?r s - ?r c) mod 2 ^ 31) mod 2 ^ 31"
    by (simp add: mod_diff_eq)
  also have "\<dots> = int i mod 2 ^ 31" unfolding k [symmetric] ki [symmetric] by simp
  finally show ?thesis using le by (simp add: seq_index_Inr)
qed

lemma tbo_ordered_drop:
  "tbo_ordered sn c q \<Longrightarrow> seq_index s c = Inr k \<Longrightarrow> tbo_ordered sn s (drop k q)"
  by (auto simp: slots_ordered_def tbo_at_drop intro: seq_index_shift)

lemma queue_inv_drain:
  assumes "queue_inv q" and "seq_index s (tq_curr_seq q) = Inr k" and "drain_queues k q = Inr q'"
  shows "queue_inv (q'\<lparr>tq_curr_seq := s, tq_get_queue := b\<rparr>)"
  using assms
  by (auto simp: queue_inv_def drain_queues_def tbo_keeps tbo_ordered_drop split: if_splits)

lemma install_sequence_number_inv:
  "queue_inv (co_tbo c) \<Longrightarrow> install_sequence_number s c = Inr c' \<Longrightarrow> queue_inv (co_tbo c')"
  by (auto simp: install_sequence_number_def Let_def queue_inv_clear queue_inv_drain res_simps
      split: sum.splits if_splits)

lemma tbo_popped_keeps:
  assumes "tbo_pop_message q = (r, q')"
  shows "tbo_ordered sn s q \<Longrightarrow> tbo_ordered sn s q'" "tbo_all P q \<Longrightarrow> tbo_all P q'"
  using tbo.pop_ordered [of sn s q] tbo_all_pop [of P q] assms by simp_all

lemma extract_inv:
  assumes "queue_inv (co_tbo c)" and "\<And>c. co_tbo (opt c) = co_tbo c"
  shows "queue_inv (co_tbo (snd (extract_pre_prepare opt rsp c)))"
    "queue_inv (co_tbo (snd (extract_prepare opt rsp c)))"
    "queue_inv (co_tbo (snd (extract_commit opt rsp c)))"
  using assms
  by (auto simp: queue_inv_def extract_pre_prepare_def extract_prepare_def extract_commit_def
      split: prod.splits option.splits elim: tbo_popped_keeps)

lemma poll_missing_frame [consensus_frame, simp]:
  "co_tbo (poll_missing env lg c) = co_tbo c" "co_phase (poll_missing env lg c) = co_phase c"
  "co_current (poll_missing env lg c) = co_current c" "co_batch_size (poll_missing env lg c) = co_batch_size c"
  "co_current_digest (poll_missing env lg c) = co_current_digest c"
  by (simp_all add: poll_missing_def Let_def)

lemma consensus_poll_inv: "queue_inv (co_tbo c) \<Longrightarrow> queue_inv (co_tbo (snd (consensus_poll env lg c)))"
  by (cases "co_phase c") (simp_all add: consensus_poll_def Let_def extract_inv)

text \<open>A popped message is of the current instance, or of the one \<open>2 ^ 31\<close> away.\<close>

lemma pop_current:
  "tbo_ordered consensus_sn s q \<Longrightarrow> tbo_pop_message q = (Some m, q') \<Longrightarrow> seq_index (stored_seq m) s = Inr 0"
  using tbo.pop_index [of consensus_sn s q m] by simp

lemma consensus_poll_current:
  assumes "queue_inv (co_tbo c)" and "consensus_poll env lg c = (CPS_NextMessage h m, c')"
  shows "seq_index (cm_seq m) (co_seq c) = Inr 0"
  using assms pop_current
  by (cases "co_phase c")
    (auto simp: consensus_poll_def Let_def queue_inv_def extract_pre_prepare_def extract_prepare_def
      extract_commit_def split: if_splits prod.splits option.splits)

lemma process_tbo_inv:
  assumes "queue_inv (co_tbo c)" and "consensus_process_message env h m view lg nd c = Inr (st, c', lg', nd')"
  shows "queue_inv (co_tbo c') \<and> co_seq c' = co_seq c"
proof -
  have seq: "tq_curr_seq (queue_pre_prepare h m q) = tq_curr_seq q" "tq_curr_seq (queue_prepare h m q) = tq_curr_seq q"
    "tq_curr_seq (queue_commit h m q) = tq_curr_seq q" "tq_curr_seq (queue_consensus h m q) = tq_curr_seq q" for q
    by (simp_all add: queue_pre_prepare_def queue_prepare_def queue_commit_def queue_consensus_def
        split: consensus_message_kind.splits)
  show ?thesis
  proof (cases "co_phase c")
    case Phase_PrePreparing
    with assms show ?thesis
      by (cases "cm_kind m") (auto simp: consensus_process_message_def process_pre_preparing_def seq Let_def
          queue_inv_queues res_simps copy_current_def split: if_splits)
  next
    case (Phase_Preparing i)
    with assms show ?thesis
      by (cases "cm_kind m") (auto simp: consensus_process_message_def process_preparing_def seq Let_def
          queue_inv_queues res_simps split: if_splits)
  next
    case (Phase_Committing i)
    with assms show ?thesis
      by (cases "cm_kind m") (auto simp: consensus_process_message_def process_committing_def seq Let_def
          queue_inv_queues res_simps split: if_splits)
  qed (use assms in \<open>auto simp: consensus_process_message_def consensus_queue_def seq queue_inv_queues\<close>)
qed

end
