(* ===== verification/Timeouts.thy ===== *)
theory Timeouts
  imports Messages
begin

text \<open>
  Timeouts (\<open>src/bft/timeouts/mod.rs\<close>): the handle every task shares, the tasks it spawns
  and what one of them does when its delay is over. The \<open>intmap\<close> crate that holds the
  cancelled timeouts is a parameter.
\<close>

section \<open>The shared handle\<close>

text \<open>
  A value of \<open>IntMap<()>\<close> is the list of its keys; \<open>intmap_ok\<close> is what the crate
  documents: insertion adds a key, removal takes it out and reports whether it was there.
\<close>

record intmap_ops =
  im_insert :: "u64 \<Rightarrow> u64 list \<Rightarrow> u64 list"
  im_remove :: "u64 \<Rightarrow> u64 list \<Rightarrow> unit option \<times> u64 list"

definition intmap_ok :: "intmap_ops \<Rightarrow> bool" where
  "intmap_ok im \<longleftrightarrow>
     (\<forall>k m. set (im_insert im k m) = insert k (set m)) \<and>
     (\<forall>k m. fst (im_remove im k m) = (if k \<in> set m then Some () else None)) \<and>
     (\<forall>k m. set (snd (im_remove im k m)) = set m - {k})"

type_synonym duration = nat

text \<open>Durations are in nanoseconds, as \<open>Duration::from_secs\<close> makes them.\<close>

definition from_secs :: "nat \<Rightarrow> duration" where
  "from_secs secs = secs * 1000000000"

text \<open>A spawned task sleeps for its duration; one that can be cancelled carries its number.\<close>

datatype timeout_task = TimeoutTask (tt_dur: duration) (tt_kind: timeout_kind) (tt_seq: "u64 option")

record timeouts_handle =
  th_current_seq_no :: u64
  th_canceled :: "u64 list"
  th_spawned :: "timeout_task list"

definition timeouts_new :: timeouts_handle where
  "timeouts_new = \<lparr>th_current_seq_no = 0, th_canceled = [], th_spawned = []\<rparr>"

definition gen_seq_no :: "timeouts_handle \<Rightarrow> u64 \<times> timeouts_handle" where
  "gen_seq_no th = (th_current_seq_no th, th\<lparr>th_current_seq_no := th_current_seq_no th + 1\<rparr>)"

definition timeout_cancel :: "intmap_ops \<Rightarrow> u64 \<Rightarrow> timeouts_handle \<Rightarrow> timeouts_handle" where
  "timeout_cancel im s th = th\<lparr>th_canceled := im_insert im s (th_canceled th)\<rparr>"

definition was_canceled :: "intmap_ops \<Rightarrow> u64 \<Rightarrow> timeouts_handle \<Rightarrow> bool \<times> timeouts_handle" where
  "was_canceled im s th =
     (case im_remove im s (th_canceled th) of
        (r, m) \<Rightarrow> (r \<noteq> None, th\<lparr>th_canceled := m\<rparr>))"

definition timeout :: "duration \<Rightarrow> timeout_kind \<Rightarrow> timeouts_handle \<Rightarrow> timeouts_handle" where
  "timeout dur kind th = th\<lparr>th_spawned := th_spawned th @ [TimeoutTask dur kind None]\<rparr>"

definition timeout_with_cancel ::
  "duration \<Rightarrow> timeout_kind \<Rightarrow> timeouts_handle \<Rightarrow> u64 \<times> timeouts_handle" where
  "timeout_with_cancel dur kind th =
     (case gen_seq_no th of
        (s, th') \<Rightarrow> (s, th'\<lparr>th_spawned := th_spawned th' @ [TimeoutTask dur kind (Some s)]\<rparr>))"

text \<open>What a task does after its delay; its send ignores a closed channel.\<close>

definition timeout_fire ::
  "intmap_ops \<Rightarrow> timeout_task \<Rightarrow> timeouts_handle \<Rightarrow> ('s, 'o, 'p) message option \<times> timeouts_handle" where
  "timeout_fire im t th =
     (case tt_seq t of
        None \<Rightarrow> (Some (Timeout (tt_kind t)), th)
      | Some s \<Rightarrow>
          (case was_canceled im s th of
             (c, th') \<Rightarrow> (if \<not> c then Some (Timeout (tt_kind t)) else None, th')))"

section \<open>Runs\<close>

text \<open>
  The operations on the shared handle in the order they take effect. A task fires at most
  once, at its position in the list of spawned tasks.
\<close>

datatype timeout_op =
    Op_Timeout duration timeout_kind
  | Op_TimeoutWithCancel duration timeout_kind
  | Op_Cancel u64
  | Op_Fire nat

text \<open>The handle and which tasks have fired.\<close>

inductive timeout_step ::
  "intmap_ops \<Rightarrow> timeouts_handle \<times> nat set \<Rightarrow> timeout_op \<Rightarrow> timeouts_handle \<times> nat set \<Rightarrow> bool"
  for im where
  step_timeout: "timeout_step im (th, F) (Op_Timeout d k) (timeout d k th, F)"
| step_with_cancel: "timeout_step im (th, F) (Op_TimeoutWithCancel d k) (snd (timeout_with_cancel d k th), F)"
| step_cancel: "timeout_step im (th, F) (Op_Cancel s) (timeout_cancel im s th, F)"
| step_fire: "i < length (th_spawned th) \<Longrightarrow> i \<notin> F \<Longrightarrow>
    timeout_step im (th, F) (Op_Fire i)
      (snd (timeout_fire im (th_spawned th ! i) th :: (unit, unit, unit) message option \<times> timeouts_handle),
       insert i F)"

inductive timeout_run :: "intmap_ops \<Rightarrow> timeouts_handle \<times> nat set \<Rightarrow> bool" for im where
  run_new: "timeout_run im (timeouts_new, {})"
| run_step: "timeout_run im c \<Longrightarrow> timeout_step im c e c' \<Longrightarrow>
    unat (th_current_seq_no (fst c)) < 2 ^ 64 - 1 \<Longrightarrow> timeout_run im c'"

lemma timeout_fire_spawned [simp]: "th_spawned (snd (timeout_fire im t th)) = th_spawned th"
  and timeout_fire_seq_no [simp]: "th_current_seq_no (snd (timeout_fire im t th)) = th_current_seq_no th"
  by (auto simp: timeout_fire_def was_canceled_def split: option.splits prod.splits)

text \<open>Tasks with a number have different numbers, all given out already.\<close>

definition timeouts_inv :: "timeouts_handle \<Rightarrow> bool" where
  "timeouts_inv th \<longleftrightarrow>
     (\<forall>i < length (th_spawned th). \<forall>s. tt_seq (th_spawned th ! i) = Some s \<longrightarrow>
        s < th_current_seq_no th \<and>
        (\<forall>j < length (th_spawned th). tt_seq (th_spawned th ! j) = Some s \<longrightarrow> j = i))"

lemma less_succ_word: "unat s < 2 ^ 64 - 1 \<Longrightarrow> t < s \<Longrightarrow> t < s + 1" "unat s < 2 ^ 64 - 1 \<Longrightarrow> s < s + 1"
  for s t :: u64
  by (simp_all add: word_less_nat_alt unat_word_ariths)

lemma timeouts_inv_timeout: "timeouts_inv th \<Longrightarrow> timeouts_inv (timeout d k th)"
  by (auto simp: timeouts_inv_def timeout_def nth_append less_Suc_eq split: if_splits)

lemma timeouts_inv_with_cancel:
  assumes "timeouts_inv th" and "unat (th_current_seq_no th) < 2 ^ 64 - 1"
  shows "timeouts_inv (snd (timeout_with_cancel d k th))"
  using assms(1) less_succ_word [OF assms(2)]
  by (fastforce simp: timeouts_inv_def timeout_with_cancel_def gen_seq_no_def nth_append less_Suc_eq
      split: if_splits)

lemma timeouts_inv_run: "timeout_run im c \<Longrightarrow> timeouts_inv (fst c)"
proof (induction rule: timeout_run.induct)
  case run_new
  then show ?case by (simp add: timeouts_inv_def timeouts_new_def)
next
  case (run_step c e c')
  from run_step(2) show ?case
    by cases (use run_step(3,4) in \<open>auto simp: timeouts_inv_timeout timeouts_inv_with_cancel\<close>,
        simp_all add: timeouts_inv_def timeout_cancel_def)
qed

lemma timeout_fire_eq:
  assumes "intmap_ok im"
  shows "fst (timeout_fire im t th) =
      (case tt_seq t of
         Some s \<Rightarrow> (if s \<in> set (th_canceled th) then None else Some (Timeout (tt_kind t)))
       | None \<Rightarrow> Some (Timeout (tt_kind t)))"
    and "set (th_canceled (snd (timeout_fire im t th))) = set (th_canceled th) - set_option (tt_seq t)"
  using assms
  by (auto simp: timeout_fire_def was_canceled_def intmap_ok_def case_prod_unfold split: option.splits)

lemma timeout_cancel_set: "intmap_ok im \<Longrightarrow> set (th_canceled (timeout_cancel im s th)) = insert s (set (th_canceled th))"
  by (simp add: timeout_cancel_def intmap_ok_def)

section \<open>Properties\<close>

text \<open>
  Cancelling. In every reachable state of the shared handle (fewer than \<open>2 ^ 64\<close>
  cancellable timeouts made), cancelling the timeout with number \<open>s\<close> silences that one
  and no other: the task with that number sends nothing when it fires, every other task,
  with a number or without, sends exactly what it would have sent, and the record of the
  cancellation is gone once the task has fired.
\<close>

theorem cancel_silences_one:
  assumes "intmap_ok im" and "timeout_run im (th, F)"
    and "i < length (th_spawned th)" and "tt_seq (th_spawned th ! i) = Some s"
  defines "fire \<equiv> \<lambda>j t. timeout_fire im (th_spawned th ! j) t"
  shows "fst (fire i (timeout_cancel im s th)) = None \<and>
    (\<forall>j < length (th_spawned th). j \<noteq> i \<longrightarrow>
       fst (fire j (timeout_cancel im s th)) = fst (fire j th)) \<and>
    s \<notin> set (th_canceled (snd (fire i (timeout_cancel im s th))))"
proof -
  have inv: "timeouts_inv th" using timeouts_inv_run [OF assms(2)] by simp
  have ne: "tt_seq (th_spawned th ! j) \<noteq> Some s" if "j < length (th_spawned th)" "j \<noteq> i" for j
    using inv assms(3,4) that by (auto simp: timeouts_inv_def)
  show ?thesis
    using assms(1,3,4) ne
    by (auto simp: fire_def timeout_fire_eq timeout_cancel_set split: option.splits)
qed

definition list_intmap :: intmap_ops where
  "list_intmap = \<lparr>im_insert = List.insert,
     im_remove = (\<lambda>k m. (if k \<in> set m then Some () else None, removeAll k m))\<rparr>"

theorem cancel_silences_one_witness:
  "\<exists>th. timeout_run list_intmap (th, {}) \<and> length (th_spawned th) = 2 \<and>
     fst (timeout_fire list_intmap (th_spawned th ! 1) (timeout_cancel list_intmap 0 th)
        :: (unit, unit, unit) message option \<times> timeouts_handle) = None"
proof -
  let ?t1 = "timeout 3000 (Timeout_ClientRequests (SeqNo 0)) timeouts_new"
  let ?t2 = "snd (timeout_with_cancel 1000 (Timeout_Cst (SeqNo 0)) ?t1)"
  have "timeout_run list_intmap (?t1, {})"
    by (rule run_step [OF run_new step_timeout]) (simp add: timeouts_new_def)
  then have run: "timeout_run list_intmap (?t2, {})"
    by (rule run_step [OF _ step_with_cancel]) (simp add: timeouts_new_def timeout_def)
  have spawned: "length (th_spawned ?t2) = 2" "tt_seq (th_spawned ?t2 ! 1) = Some 0"
    by (simp_all add: timeouts_new_def timeout_def timeout_with_cancel_def gen_seq_no_def)
  have ok: "intmap_ok list_intmap" by (auto simp: intmap_ok_def list_intmap_def)
  from cancel_silences_one [OF ok run, of 1 0] spawned run show ?thesis by auto
qed

end
