(* ===== verification/Sync.thy ===== *)
theory Sync
  imports Consensus Timeouts
begin

text \<open>
  The view change protocol (\<open>src/bft/sync/mod.rs\<close>): the queue of view change messages, the
  watched client requests and their timers, the four phases of a view change, and the
  predicates a new leader and its followers evaluate on the collected data. The clock
  (\<open>Instant::now\<close>) and the seed of a fresh random state are arguments of the operations
  that read them; hash maps and hash sets are iterated in the orders of the environment.
\<close>

section \<open>Data\<close>

datatype sound = Unbound bool | Bound digest

fun sound_value :: "sound \<Rightarrow> digest option" where
  "sound_value (Bound d) = Some d"
| "sound_value (Unbound _) = None"

fun sound_test :: "sound \<Rightarrow> bool" where
  "sound_test (Unbound ok) = ok"
| "sound_test (Bound _) = True"

record finalize_state =
  fs_curr_cid :: seq_no
  fs_proposed :: "digest list"
  fs_sound :: sound

datatype finalize_status =
    FS_NoValue
  | FS_RunCst finalize_state
  | FS_Commit finalize_state

type_synonym instant = nat

datatype timeout_phase =
    TP_Init instant
  | TP_TimedOutOnce instant
  | TP_TimedOut

datatype sync_phase =
    SP_Init
  | SP_Stopping usize
  | SP_Stopping2 usize
  | SP_StoppingData usize
  | SP_Syncing
  | SP_SyncingState

datatype sync_status =
    SS_Nil
  | SS_Running
  | SS_NewView
  | SS_RunCst
  | SS_RequestsTimedOut (ss_forwarded: "digest list") (ss_stopped: "digest list")

datatype 'o sync_poll_status =
    SPS_Recv
  | SPS_NextMessage header "'o view_change_message"
  | SPS_ResumeViewChange

section \<open>The queue of view change messages\<close>

record 'o sync_queue =
  sq_view :: view_info
  sq_get_queue :: bool
  sq_stop :: "'o stored_view_change tbo"
  sq_stop_data :: "'o stored_view_change tbo"
  sq_sync :: "'o stored_view_change tbo"

abbreviation view_change_sn :: "'o stored_view_change \<Rightarrow> seq_no" where
  "view_change_sn m \<equiv> vc_view (sm_message m)"

definition sync_queue_new :: "view_info \<Rightarrow> 'o sync_queue" where
  "sync_queue_new view =
     \<lparr>sq_view = view, sq_get_queue = False, sq_stop = [], sq_stop_data = [], sq_sync = []\<rparr>"

definition sync_signal_queue :: "'o sync_queue \<Rightarrow> 'o sync_queue" where
  "sync_signal_queue q = q\<lparr>sq_get_queue := True\<rparr>"

definition sync_next_instance_queue :: "'o sync_queue \<Rightarrow> 'o sync_queue" where
  "sync_next_instance_queue q =
     q\<lparr>sq_stop := tbo_advance_message_queue (sq_stop q),
       sq_stop_data := tbo_advance_message_queue (sq_stop_data q),
       sq_sync := tbo_advance_message_queue (sq_sync q)\<rparr>"

definition queue_stop :: "header \<Rightarrow> 'o view_change_message \<Rightarrow> 'o sync_queue \<Rightarrow> 'o sync_queue" where
  "queue_stop h m q =
     (let s = seq_next (vi_seq (sq_view q)) in
      q\<lparr>sq_stop := tbo_queue_message view_change_sn s (sq_stop q) (StoredMessage h m)\<rparr>)"

definition queue_stop_data :: "header \<Rightarrow> 'o view_change_message \<Rightarrow> 'o sync_queue \<Rightarrow> 'o sync_queue" where
  "queue_stop_data h m q =
     (let s = vi_seq (sq_view q) in
      q\<lparr>sq_stop_data := tbo_queue_message view_change_sn s (sq_stop_data q) (StoredMessage h m)\<rparr>)"

definition queue_sync :: "header \<Rightarrow> 'o view_change_message \<Rightarrow> 'o sync_queue \<Rightarrow> 'o sync_queue" where
  "queue_sync h m q =
     (let s = vi_seq (sq_view q) in
      q\<lparr>sq_sync := tbo_queue_message view_change_sn s (sq_sync q) (StoredMessage h m)\<rparr>)"

definition queue_view_change :: "header \<Rightarrow> 'o view_change_message \<Rightarrow> 'o sync_queue \<Rightarrow> 'o sync_queue" where
  "queue_view_change h m q =
     (case vc_kind m of
        Stop _ \<Rightarrow> queue_stop h m q
      | StopData _ \<Rightarrow> queue_stop_data h m q
      | Sync _ \<Rightarrow> queue_sync h m q)"

definition can_process_stops :: "'o sync_queue \<Rightarrow> bool" where
  "can_process_stops q = (case sq_stop q of [] \<Rightarrow> False | deque # _ \<Rightarrow> length deque > 0)"

section \<open>The synchroniser\<close>

record 'o synchronizer =
  sy_watching_timeouts :: bool
  sy_phase :: sync_phase
  sy_timeout_seq :: seq_no
  sy_timeout_dur :: duration
  sy_stopped :: "(node_id, 'o stored_request list) hmap"
  sy_collects :: "(node_id, 'o stored_view_change) hmap"
  sy_watching :: "(digest, timeout_phase) hmap"
  sy_tbo :: "'o sync_queue"
  sy_finalize_state :: "finalize_state option"

abbreviation sync_view :: "'o synchronizer \<Rightarrow> view_info" where
  "sync_view sy \<equiv> sq_view (sy_tbo sy)"

definition synchronizer_new :: "duration \<Rightarrow> view_info \<Rightarrow> 'o synchronizer" where
  "synchronizer_new timeout_dur view =
     \<lparr>sy_watching_timeouts = False, sy_phase = SP_Init, sy_timeout_seq = seq_zero,
      sy_timeout_dur = timeout_dur, sy_stopped = [], sy_collects = [], sy_watching = [],
      sy_tbo = sync_queue_new view, sy_finalize_state = None\<rparr>"

text \<open>\<open>signal\<close> and \<open>queue\<close> are reached through \<open>DerefMut\<close> to the queue.\<close>

definition sync_signal :: "'o synchronizer \<Rightarrow> 'o synchronizer" where
  "sync_signal sy = sy\<lparr>sy_tbo := sync_signal_queue (sy_tbo sy)\<rparr>"

definition sync_queue_message :: "header \<Rightarrow> 'o view_change_message \<Rightarrow> 'o synchronizer \<Rightarrow> 'o synchronizer" where
  "sync_queue_message h m sy = sy\<lparr>sy_tbo := queue_view_change h m (sy_tbo sy)\<rparr>"

subsection \<open>Watched requests\<close>

definition next_timeout :: "'o synchronizer \<Rightarrow> seq_no \<times> 'o synchronizer" where
  "next_timeout sy = (sy_timeout_seq sy, sy\<lparr>sy_timeout_seq := seq_next (sy_timeout_seq sy)\<rparr>)"

text \<open>Take the next timeout number and start a timer for it.\<close>

definition start_timer :: "timeouts_handle \<Rightarrow> 'o synchronizer \<Rightarrow> 'o synchronizer \<times> timeouts_handle" where
  "start_timer th sy =
     (case next_timeout sy of
        (s, sy) \<Rightarrow> (sy, timeout (sy_timeout_dur sy) (Timeout_ClientRequests s) th))"

definition watch_request_impl ::
  "timeout_phase \<Rightarrow> digest \<Rightarrow> timeouts_handle \<Rightarrow> 'o synchronizer \<Rightarrow> 'o synchronizer \<times> timeouts_handle" where
  "watch_request_impl phase dig th sy =
     (let (sy, th) =
        (if \<not> sy_watching_timeouts sy
         then (case start_timer th sy of (sy, th) \<Rightarrow> (sy\<lparr>sy_watching_timeouts := True\<rparr>, th))
         else (sy, th))
      in (sy\<lparr>sy_watching := hmap_insert dig phase (sy_watching sy)\<rparr>, th))"

definition watch_request ::
  "instant \<Rightarrow> digest \<Rightarrow> timeouts_handle \<Rightarrow> 'o synchronizer \<Rightarrow> 'o synchronizer \<times> timeouts_handle" where
  "watch_request now dig th sy = watch_request_impl (TP_Init now) dig th sy"

fun watch_forwarded_loop ::
  "('s, 'o, 'p, 'z) env_scheme \<Rightarrow> timeout_phase \<Rightarrow> 'o stored_request list
     \<Rightarrow> 'o synchronizer \<times> timeouts_handle \<times> ('s, 'o) log
     \<Rightarrow> 'o synchronizer \<times> timeouts_handle \<times> ('s, 'o) log" where
  "watch_forwarded_loop env phase [] st = st"
| "watch_forwarded_loop env phase (r # requests) (sy, th, lg) =
     (let (sy, th) = watch_request_impl phase (unique_digest env (sm_header r)) th sy;
          lg = log_insert env (sm_header r) (SM_Request (sm_message r) :: ('s, 'o, 'p) system_message) lg
      in watch_forwarded_loop env phase requests (sy, th, lg))"

definition watch_forwarded_requests ::
  "('s, 'o, 'p, 'z) env_scheme \<Rightarrow> instant \<Rightarrow> 'o stored_request list \<Rightarrow> timeouts_handle \<Rightarrow> ('s, 'o) log
     \<Rightarrow> 'o synchronizer \<Rightarrow> 'o synchronizer \<times> timeouts_handle \<times> ('s, 'o) log" where
  "watch_forwarded_requests env now requests th lg sy =
     watch_forwarded_loop env (TP_TimedOutOnce now) requests (sy, th, lg)"

definition unwatch_request :: "digest \<Rightarrow> 'o synchronizer \<Rightarrow> 'o synchronizer" where
  "unwatch_request dig sy =
     (let watching = hmap_remove dig (sy_watching sy) in
      sy\<lparr>sy_watching := watching, sy_watching_timeouts := watching \<noteq> []\<rparr>)"

definition unwatch_all_requests :: "'o synchronizer \<Rightarrow> 'o synchronizer" where
  "unwatch_all_requests sy = snd (next_timeout sy)"

definition watch_all_requests ::
  "instant \<Rightarrow> timeouts_handle \<Rightarrow> 'o synchronizer \<Rightarrow> 'o synchronizer \<times> timeouts_handle" where
  "watch_all_requests now th sy =
     (let watching = map (\<lambda>(d, _). (d, TP_Init now)) (sy_watching sy);
          sy = sy\<lparr>sy_watching := watching, sy_watching_timeouts := watching \<noteq> []\<rparr> in
      if sy_watching_timeouts sy then start_timer th sy else (sy, th))"

text \<open>\<open>duration_since\<close> is zero for a later instant.\<close>

definition expired :: "instant \<Rightarrow> duration \<Rightarrow> instant \<Rightarrow> bool" where
  "expired now dur i \<longleftrightarrow> now - i > dur"

fun to_forward :: "instant \<Rightarrow> duration \<Rightarrow> timeout_phase \<Rightarrow> bool" where
  "to_forward now dur (TP_Init i) = expired now dur i"
| "to_forward now dur (TP_TimedOutOnce i) = False"
| "to_forward now dur TP_TimedOut = False"

fun to_stop :: "instant \<Rightarrow> duration \<Rightarrow> timeout_phase \<Rightarrow> bool" where
  "to_stop now dur (TP_Init i) = False"
| "to_stop now dur (TP_TimedOutOnce i) = expired now dur i"
| "to_stop now dur TP_TimedOut = False"

definition client_requests_timed_out ::
  "('s, 'o, 'p, 'z) env_scheme \<Rightarrow> instant \<Rightarrow> seq_no \<Rightarrow> timeouts_handle \<Rightarrow> 'o synchronizer
     \<Rightarrow> sync_status \<times> 'o synchronizer \<times> timeouts_handle" where
  "client_requests_timed_out env now s th sy =
     (if \<not> sy_watching_timeouts sy \<or> seq_next s \<noteq> sy_timeout_seq sy then (SS_Nil, sy, th)
      else
        (let dur = sy_timeout_dur sy;
             watched = hmap_iter (env_ord_digest env) (sy_watching sy);
             forwarded = map fst (filter (\<lambda>(_, phase). to_forward now dur phase) watched);
             stopped = map fst (filter (\<lambda>(_, phase). to_stop now dur phase) watched);
             sy = sy\<lparr>sy_watching :=
               map (\<lambda>(d, phase). (d, if to_stop now dur phase then TP_TimedOut else phase)) (sy_watching sy)\<rparr>;
             (sy, th) = start_timer th sy
         in (SS_RequestsTimedOut forwarded stopped, sy, th)))"

subsection \<open>Stopped requests\<close>

definition entry_or_insert :: "'k \<Rightarrow> 'v \<Rightarrow> ('k, 'v) hmap \<Rightarrow> ('k, 'v) hmap" where
  "entry_or_insert k v m = (if hmap_contains m k then m else hmap_insert k v m)"

definition stopped_requests ::
  "('s, 'o, 'p, 'z) env_scheme \<Rightarrow> 'o stored_request list option \<Rightarrow> 'o synchronizer
     \<Rightarrow> 'o stored_request list \<times> 'o synchronizer" where
  "stopped_requests env timed_out sy =
     (let dig = (\<lambda>r. unique_digest env (sm_header r));
          stopped = hmap_iter (env_ord_node env) (sy_stopped sy);
          merge = fold (\<lambda>(_, rs). fold (\<lambda>r. entry_or_insert (dig r) r) rs) stopped in
      case timed_out of
        Some requests \<Rightarrow>
          (hmap_values (env_ord_digest env) (merge (fold (\<lambda>r. hmap_insert (dig r) r) requests [])), sy)
      | None \<Rightarrow> (hmap_values (env_ord_digest env) (merge []), sy\<lparr>sy_stopped := []\<rparr>))"

fun add_stopped_loop ::
  "('s, 'o, 'p, 'z) env_scheme \<Rightarrow> 'o stored_request list \<Rightarrow> 'o synchronizer \<times> ('s, 'o) log
     \<Rightarrow> 'o synchronizer \<times> ('s, 'o) log" where
  "add_stopped_loop env [] st = st"
| "add_stopped_loop env (r # requests) (sy, lg) =
     add_stopped_loop env requests
       (sy\<lparr>sy_watching := hmap_insert (unique_digest env (sm_header r)) TP_TimedOut (sy_watching sy)\<rparr>,
        log_insert env (sm_header r) (SM_Request (sm_message r) :: ('s, 'o, 'p) system_message) lg)"

definition add_stopped_requests ::
  "('s, 'o, 'p, 'z) env_scheme \<Rightarrow> ('s, 'o) log \<Rightarrow> 'o synchronizer \<Rightarrow> 'o synchronizer \<times> ('s, 'o) log" where
  "add_stopped_requests env lg sy =
     (case stopped_requests env None sy of (requests, sy) \<Rightarrow> add_stopped_loop env requests (sy, lg))"

definition install_view :: "view_info \<Rightarrow> 'o synchronizer \<Rightarrow> 'o synchronizer" where
  "install_view view sy = sy\<lparr>sy_tbo := (sy_tbo sy)\<lparr>sq_view := view\<rparr>\<rparr>"

definition begin_view_change ::
  "('s, 'o, 'p, 'z) env_scheme \<Rightarrow> 'o stored_request list option \<Rightarrow> ('s, 'o, 'p) node \<Rightarrow> 'o synchronizer
     \<Rightarrow> ('o synchronizer \<times> ('s, 'o, 'p) node) res" where
  "begin_view_change env timed_out nd sy =
     (let sy =
        (case (sy_phase sy, timed_out) of
           (SP_Stopping i, None) \<Rightarrow> sy\<lparr>sy_phase := SP_Stopping2 (i + 1)\<rparr>
         | (SP_Stopping i, Some _) \<Rightarrow> sy\<lparr>sy_phase := SP_Stopping2 i\<rparr>
         | _ \<Rightarrow> sy\<lparr>sy_stopped := [], sy_collects := [], sy_phase := SP_Stopping2 0\<rparr>);
          sy = unwatch_all_requests sy;
          (requests, sy) = stopped_requests env timed_out sy;
          m = SM_ViewChange (ViewChangeMessage (seq_next (vi_seq (sync_view sy))) (Stop requests))
      in bind_res (node_broadcast env m (view_targets (sync_view sy)) nd) (\<lambda>(_, nd). Inr (sy, nd)))"

definition forward_requests ::
  "('s, 'o, 'p, 'z) env_scheme \<Rightarrow> 'o stored_request list \<Rightarrow> ('s, 'o, 'p) node \<Rightarrow> 'o synchronizer
     \<Rightarrow> ('s, 'o, 'p) node res" where
  "forward_requests env timed_out nd sy =
     bind_res (node_broadcast env (SM_ForwardedRequests timed_out) (view_targets (sync_view sy)) nd)
       (\<lambda>(_, nd). Inr nd)"

section \<open>The predicates on collects\<close>

text \<open>\<open>None\<close> stands for a collect of another instance than the one in execution.\<close>

type_synonym normalized = "collect_data option list"

abbreviation quorum_writes :: "collect_data \<Rightarrow> view_decision_pair option" where
  "quorum_writes c \<equiv> ip_quorum_writes (cd_incomplete_proof c)"

abbreviation write_set :: "collect_data \<Rightarrow> view_decision_pair list" where
  "write_set c \<equiv> ip_write_set (cd_incomplete_proof c)"

fun pair_ts :: "view_decision_pair \<Rightarrow> seq_no" where
  "pair_ts (ViewDecisionPair ts _) = ts"

fun pair_value :: "view_decision_pair \<Rightarrow> digest" where
  "pair_value (ViewDecisionPair _ v) = v"

definition unbound :: "view_info \<Rightarrow> normalized \<Rightarrow> bool" where
  "unbound view ncs =
     (if length ncs < view_quorum view then False
      else
        (let cnt = length (filter (\<lambda>mc.
               case mc of
                 None \<Rightarrow> True
               | Some c \<Rightarrow> (case quorum_writes c of None \<Rightarrow> True | Some p \<Rightarrow> pair_ts p = seq_zero)) ncs)
         in cnt \<ge> view_quorum view))"

definition some_collects :: "normalized \<Rightarrow> collect_data list" where
  "some_collects ncs = List.map_filter (\<lambda>mc. mc) ncs"

definition quorum_highest :: "view_info \<Rightarrow> seq_no \<Rightarrow> digest \<Rightarrow> normalized \<Rightarrow> bool" where
  "quorum_highest view ts val ncs =
     (let appears = list_ex (\<lambda>c.
            case quorum_writes c of None \<Rightarrow> False | Some p \<Rightarrow> pair_ts p = ts \<and> pair_value p = val)
            (some_collects ncs);
          cnt = length (filter (\<lambda>c.
            case quorum_writes c of
              None \<Rightarrow> False
            | Some p \<Rightarrow>
                (case seq_cmp (pair_ts p) ts of
                   Less \<Rightarrow> True
                 | Equal \<Rightarrow> pair_value p = val
                 | Greater \<Rightarrow> False)) (some_collects ncs))
      in appears \<and> cnt \<ge> view_quorum view)"

definition certified_value :: "view_info \<Rightarrow> seq_no \<Rightarrow> digest \<Rightarrow> normalized \<Rightarrow> bool" where
  "certified_value view ts val ncs =
     (let cnt = sum_list (map (\<lambda>c.
            length (filter (\<lambda>p. seq_ge (pair_ts p) ts \<and> pair_value p = val) (write_set c)))
            (some_collects ncs))
      in cnt > view_f view)"

definition binds :: "view_info \<Rightarrow> seq_no \<Rightarrow> digest \<Rightarrow> normalized \<Rightarrow> bool" where
  "binds view ts val ncs =
     (if length ncs < view_quorum view then False
      else quorum_highest view ts val ncs \<and> certified_value view ts val ncs)"

text \<open>The timestamps and values the two hash sets of \<open>sound\<close> are filled with.\<close>

fun collect_timestamps :: "collect_data option \<Rightarrow> seq_no list" where
  "collect_timestamps None = [seq_zero]"
| "collect_timestamps (Some c) =
     (case quorum_writes c of None \<Rightarrow> seq_zero | Some p \<Rightarrow> pair_ts p) # map pair_ts (write_set c)"

fun collect_values :: "collect_data option \<Rightarrow> digest list" where
  "collect_values None = []"
| "collect_values (Some c) = map pair_value (write_set c)"

definition sound_of ::
  "('s, 'o, 'p, 'z) env_scheme \<Rightarrow> view_info \<Rightarrow> normalized \<Rightarrow> sound" where
  "sound_of env view ncs =
     (let timestamps = env_ord_seq env (remdups (concat (map collect_timestamps ncs)));
          vals = env_ord_digest env (remdups (concat (map collect_values ncs))) in
      case find (\<lambda>(ts, val). binds view ts val ncs) (List.product timestamps vals) of
        Some (_, val) \<Rightarrow> Bound val
      | None \<Rightarrow> Unbound (unbound view ncs))"

definition collect_data_msgs :: "'o stored_view_change list \<Rightarrow> collect_data list" where
  "collect_data_msgs collects =
     List.map_filter (\<lambda>stored.
       case vc_kind (sm_message stored) of StopData c \<Rightarrow> Some c | _ \<Rightarrow> None) collects"

definition normalized_collects :: "seq_no \<Rightarrow> collect_data list \<Rightarrow> normalized" where
  "normalized_collects in_exec collects =
     map (\<lambda>c. if ip_in_exec (cd_incomplete_proof c) = in_exec then Some c else None) collects"

definition validate_signature ::
  "('s, 'o, 'p, 'z) env_scheme \<Rightarrow> ('s, 'o, 'p) node \<Rightarrow> header \<Rightarrow> bool" where
  "validate_signature env nd h =
     (case wire_message_from_parts env h [] of
        Inl _ \<Rightarrow> False
      | Inr wm \<Rightarrow>
          (case get_public_key nd (header_from h) of
             None \<Rightarrow> False
           | Some key \<Rightarrow> wire_message_is_valid env wm (Some key)))"

definition signed_collects ::
  "('s, 'o, 'p, 'z) env_scheme \<Rightarrow> ('s, 'o, 'p) node \<Rightarrow> 'o stored_view_change list
     \<Rightarrow> 'o stored_view_change list" where
  "signed_collects env nd collects = filter (\<lambda>stored. validate_signature env nd (sm_header stored)) collects"

text \<open>Enough commits of the proposed digest with a valid signature.\<close>

definition proof_valid ::
  "('s, 'o, 'p, 'z) env_scheme \<Rightarrow> view_info \<Rightarrow> ('s, 'o, 'p) node \<Rightarrow> decision_proof \<Rightarrow> bool" where
  "proof_valid env view nd pf =
     (let dig = header_digest (sm_header (pf_pre_prepare pf)) in
      length (filter (\<lambda>stored. validate_signature env nd (sm_header stored))
        (filter (\<lambda>stored. has_proposed_digest (sm_message stored) dig = Some True) (pf_commits pf)))
      \<ge> view_quorum view)"

text \<open>\<open>max_by_key\<close> returns the last of several maximal elements.\<close>

fun max_by_key :: "('a \<Rightarrow> 'k :: linorder) \<Rightarrow> 'a list \<Rightarrow> 'a option" where
  "max_by_key key [] = None"
| "max_by_key key (x # xs) =
     (case max_by_key key xs of
        None \<Rightarrow> Some x
      | Some y \<Rightarrow> Some (if key y < key x then x else y))"

definition highest_proof ::
  "('s, 'o, 'p, 'z) env_scheme \<Rightarrow> view_info \<Rightarrow> ('s, 'o, 'p) node \<Rightarrow> 'o stored_view_change list
     \<Rightarrow> decision_proof option" where
  "highest_proof env view nd collects =
     max_by_key (\<lambda>pf. stored_seq (pf_pre_prepare pf))
       (filter (proof_valid env view nd)
         (List.map_filter cd_last_proof (collect_data_msgs collects)))"

text \<open>The instance after the highest proof; the addition is on \<open>u32\<close> and wraps.\<close>

definition curr_cid_of :: "decision_proof option \<Rightarrow> seq_no" where
  "curr_cid_of pf =
     (case pf of
        None \<Rightarrow> seq_zero
      | Some p \<Rightarrow> seq_of_u32 (seq_to_u32 (stored_seq (pf_pre_prepare p)) + 1))"

section \<open>Finishing a view change\<close>

definition pre_finalize :: "finalize_state \<Rightarrow> ('s, 'o) log \<Rightarrow> 'o synchronizer \<Rightarrow> finalize_status" where
  "pre_finalize state lg sy =
     (if sy_phase sy = SP_Syncing \<and> executing (lg_declog lg) \<noteq> fs_curr_cid state then FS_RunCst state
      else if fs_proposed state = [] \<and> \<not> sound_test (fs_sound state) then FS_NoValue
      else FS_Commit state)"

type_synonym seed = "u64 \<times> u64 \<times> u64 \<times> u64"

type_synonym ('s, 'o, 'p) finalized =
  "(sync_status \<times> 'o synchronizer \<times> ('s, 'o) log \<times> consensus \<times> ('s, 'o, 'p) node) res"

definition finalize ::
  "('s, 'o, 'p, 'z) env_scheme \<Rightarrow> seed \<Rightarrow> finalize_state \<Rightarrow> ('s, 'o) log \<Rightarrow> consensus \<Rightarrow> ('s, 'o, 'p) node
     \<Rightarrow> 'o synchronizer \<Rightarrow> ('s, 'o, 'p) finalized" where
  "finalize env seed state lg c nd sy =
     bind_res (clear_last_occurrences (fs_curr_cid state) (sound_value (fs_sound state)) (lg_declog lg))
       (\<lambda>(stored, dl).
     let lg = lg\<lparr>lg_declog := dl\<rparr>;
         proposed =
           (case stored of
              None \<Rightarrow> fs_proposed state
            | Some st \<Rightarrow>
                (case fst (take_proposed_requests (sm_message st)) of
                   Some requests \<Rightarrow> requests
                 | None \<Rightarrow> fs_proposed state));
         m = forge_propose proposed (sync_view sy) c in
     case serialize_digest env m of
       Inl _ \<Rightarrow> Inl (Panic ''called `Result::unwrap()` on an `Err` value'')
     | Inr (dig, buf) \<Rightarrow>
         (let nonce = fst (next_state (prng_new seed));
              h = wm_header (wire_message_new env (leader (sync_view sy)) (nd_id nd) buf nonce (Some dig) None);
              lg = log_insert env h m lg in
          bind_res (finalize_view_change env dig (sync_view sy) lg nd c) (\<lambda>(c, nd).
          Inr (SS_NewView,
               sy\<lparr>sy_tbo := sync_next_instance_queue (sy_tbo sy), sy_phase := SP_Init\<rparr>, lg, c, nd))))"

text \<open>The macro \<open>finalize_view_change\<close>.\<close>

definition try_finalize ::
  "('s, 'o, 'p, 'z) env_scheme \<Rightarrow> seed \<Rightarrow> finalize_state \<Rightarrow> ('s, 'o) log \<Rightarrow> consensus \<Rightarrow> ('s, 'o, 'p) node
     \<Rightarrow> 'o synchronizer \<Rightarrow> ('s, 'o, 'p) finalized" where
  "try_finalize env seed state lg c nd sy =
     (case pre_finalize state lg sy of
        FS_NoValue \<Rightarrow> Inr (SS_Running, sy\<lparr>sy_collects := []\<rparr>, lg, c, nd)
      | FS_RunCst state \<Rightarrow>
          Inr (SS_RunCst,
               sy\<lparr>sy_collects := [], sy_finalize_state := Some state, sy_phase := SP_SyncingState\<rparr>, lg, c, nd)
      | FS_Commit state \<Rightarrow> finalize env seed state lg c nd (sy\<lparr>sy_collects := []\<rparr>))"

definition resume_view_change ::
  "('s, 'o, 'p, 'z) env_scheme \<Rightarrow> seed \<Rightarrow> ('s, 'o) log \<Rightarrow> consensus \<Rightarrow> ('s, 'o, 'p) node \<Rightarrow> 'o synchronizer
     \<Rightarrow> (unit option \<times> 'o synchronizer \<times> ('s, 'o) log \<times> consensus \<times> ('s, 'o, 'p) node) res" where
  "resume_view_change env seed lg c nd sy =
     (case sy_finalize_state sy of
        None \<Rightarrow> Inr (None, sy, lg, c, nd)
      | Some state \<Rightarrow>
          bind_res (try_finalize env seed state lg c nd (sy\<lparr>sy_finalize_state := None\<rparr>))
            (\<lambda>(_, sy, lg, c, nd). Inr (Some (), sy, lg, c, nd)))"

section \<open>Polling and processing\<close>

text \<open>The macro \<open>extract_msg\<close> on each of the three queues.\<close>

definition extract_stop ::
  "('o synchronizer \<Rightarrow> 'o synchronizer) \<Rightarrow> 'o synchronizer \<Rightarrow> 'o sync_poll_status \<times> 'o synchronizer" where
  "extract_stop opt sy =
     (case tbo_pop_message (sq_stop (sy_tbo sy)) of
        (Some stored, q) \<Rightarrow>
          (SPS_NextMessage (sm_header stored) (sm_message stored),
           opt (sy\<lparr>sy_tbo := (sy_tbo sy)\<lparr>sq_stop := q\<rparr>\<rparr>))
      | (None, q) \<Rightarrow> (SPS_Recv, sy\<lparr>sy_tbo := (sy_tbo sy)\<lparr>sq_stop := q, sq_get_queue := False\<rparr>\<rparr>))"

definition extract_stop_data :: "'o synchronizer \<Rightarrow> 'o sync_poll_status \<times> 'o synchronizer" where
  "extract_stop_data sy =
     (case tbo_pop_message (sq_stop_data (sy_tbo sy)) of
        (Some stored, q) \<Rightarrow>
          (SPS_NextMessage (sm_header stored) (sm_message stored),
           sy\<lparr>sy_tbo := (sy_tbo sy)\<lparr>sq_stop_data := q\<rparr>\<rparr>)
      | (None, q) \<Rightarrow> (SPS_Recv, sy\<lparr>sy_tbo := (sy_tbo sy)\<lparr>sq_stop_data := q, sq_get_queue := False\<rparr>\<rparr>))"

definition extract_sync :: "'o synchronizer \<Rightarrow> 'o sync_poll_status \<times> 'o synchronizer" where
  "extract_sync sy =
     (case tbo_pop_message (sq_sync (sy_tbo sy)) of
        (Some stored, q) \<Rightarrow>
          (SPS_NextMessage (sm_header stored) (sm_message stored),
           sy\<lparr>sy_tbo := (sy_tbo sy)\<lparr>sq_sync := q\<rparr>\<rparr>)
      | (None, q) \<Rightarrow> (SPS_Recv, sy\<lparr>sy_tbo := (sy_tbo sy)\<lparr>sq_sync := q, sq_get_queue := False\<rparr>\<rparr>))"

definition sync_poll :: "'o synchronizer \<Rightarrow> 'o sync_poll_status \<times> 'o synchronizer" where
  "sync_poll sy =
     (if \<not> sq_get_queue (sy_tbo sy) then (SPS_Recv, sy)
      else (case sy_phase sy of
              SP_Init \<Rightarrow> extract_stop (\<lambda>sy. sy\<lparr>sy_phase := SP_Stopping 0\<rparr>) sy
            | SP_Stopping _ \<Rightarrow> extract_stop (\<lambda>sy. sy) sy
            | SP_Stopping2 _ \<Rightarrow> extract_stop (\<lambda>sy. sy) sy
            | SP_StoppingData _ \<Rightarrow> extract_stop_data sy
            | SP_Syncing \<Rightarrow> extract_sync sy
            | SP_SyncingState \<Rightarrow> (SPS_ResumeViewChange, sy)))"

definition stop_status :: "usize \<Rightarrow> 'o synchronizer \<Rightarrow> sync_status" where
  "stop_status i sy = (if i > view_f (sync_view sy) then SS_Running else SS_Nil)"

text \<open>
  The state a message is processed in: what \<open>process_message\<close> gets by reference besides the
  synchroniser itself.
\<close>

type_synonym ('s, 'o, 'p) sync_world =
  "'o synchronizer \<times> timeouts_handle \<times> ('s, 'o) log \<times> consensus \<times> ('s, 'o, 'p) node"

type_synonym ('s, 'o, 'p) sync_result = "(sync_status \<times> ('s, 'o, 'p) sync_world) res"

text \<open>A quorum of \<open>STOP\<close> messages: install the next view and send our \<open>STOP-DATA\<close>.\<close>

definition stop_quorum ::
  "('s, 'o, 'p, 'z) env_scheme \<Rightarrow> instant \<Rightarrow> ('s, 'o, 'p) sync_world \<Rightarrow> ('s, 'o, 'p) sync_world res" where
  "stop_quorum env now w =
     (case w of (sy, th, lg, c, nd) \<Rightarrow>
        (let (sy, lg) = add_stopped_requests env lg sy;
             (sy, th) = watch_all_requests now th sy;
             sy = install_view (next_view (sync_view sy)) sy;
             sy = sy\<lparr>sy_phase :=
               (if nd_id nd \<noteq> leader (sync_view sy) then SP_Syncing else SP_StoppingData 0)\<rparr> in
         bind_res (collect_data_of (lg_declog lg) (sync_view sy)) (\<lambda>collect.
         bind_res (node_send env
             (SM_ViewChange (ViewChangeMessage (vi_seq (sync_view sy)) (StopData collect)))
             (leader (sync_view sy)) nd) (\<lambda>(_, nd).
         Inr (sy, th, lg, c, nd)))))"

definition process_stopping ::
  "('s, 'o, 'p, 'z) env_scheme \<Rightarrow> instant \<Rightarrow> usize \<Rightarrow> header \<Rightarrow> 'o view_change_message
     \<Rightarrow> ('s, 'o, 'p) sync_world \<Rightarrow> ('s, 'o, 'p) sync_result" where
  "process_stopping env now i h m w =
     (case w of (sy, th, lg, c, nd) \<Rightarrow>
        (case vc_kind m of
           Stop requests \<Rightarrow>
             (if vc_view m \<noteq> seq_next (vi_seq (sync_view sy))
              then Inr (stop_status i sy, sy\<lparr>sy_tbo := queue_stop h m (sy_tbo sy)\<rparr>, th, lg, c, nd)
              else if hmap_contains (sy_stopped sy) (header_from h)
              then Inr (stop_status i sy, w)
              else
                (let i = i + 1;
                     sy = sy\<lparr>sy_stopped := hmap_insert (header_from h) requests (sy_stopped sy)\<rparr> in
                 case sy_phase sy of
                   SP_Stopping _ \<Rightarrow>
                     (if i > view_f (sync_view sy)
                      then bind_res (begin_view_change env None nd sy) (\<lambda>(sy, nd).
                           Inr (SS_Running, sy, th, lg, c, nd))
                      else Inr (SS_Nil, sy\<lparr>sy_phase := SP_Stopping i\<rparr>, th, lg, c, nd))
                 | _ \<Rightarrow>
                     (if i = view_quorum (sync_view sy)
                      then bind_res (stop_quorum env now (sy, th, lg, c, nd)) (\<lambda>w. Inr (SS_Running, w))
                      else Inr (SS_Running, sy\<lparr>sy_phase := SP_Stopping2 i\<rparr>, th, lg, c, nd))))
         | StopData _ \<Rightarrow>
             Inr (stop_status i sy, sy\<lparr>sy_tbo := queue_stop_data h m (sy_tbo sy)\<rparr>, th, lg, c, nd)
         | Sync _ \<Rightarrow>
             Inr (stop_status i sy, sy\<lparr>sy_tbo := queue_sync h m (sy_tbo sy)\<rparr>, th, lg, c, nd)))"

text \<open>The new leader, once a quorum of \<open>STOP-DATA\<close> is there.\<close>

definition stop_data_quorum ::
  "('s, 'o, 'p, 'z) env_scheme \<Rightarrow> seed \<Rightarrow> ('s, 'o, 'p) sync_world \<Rightarrow> ('s, 'o, 'p) sync_result" where
  "stop_data_quorum env seed w =
     (case w of (sy, th, lg, c, nd) \<Rightarrow>
        (let view = sync_view sy;
             collects = hmap_values (env_ord_node env) (sy_collects sy);
             pf = highest_proof env view nd collects;
             curr_cid = curr_cid_of pf;
             sound = sound_of env view (normalized_collects curr_cid (collect_data_msgs collects)) in
         if \<not> sound_test sound
         then Inr (SS_Running, sy\<lparr>sy_collects := []\<rparr>, th, lg, c, nd)
         else
           (let p = view_change_propose env lg;
                m = SM_ViewChange (ViewChangeMessage (vi_seq view) (Sync (LeaderCollects p collects)));
                targets = filter (\<lambda>i. i \<noteq> nd_id nd) (view_targets view) in
            bind_res (node_broadcast env m targets nd) (\<lambda>(_, nd).
            bind_res (try_finalize env seed
                \<lparr>fs_curr_cid = curr_cid, fs_proposed = p, fs_sound = sound\<rparr> lg c nd sy)
              (\<lambda>(st, sy, lg, c, nd). Inr (st, sy, th, lg, c, nd))))))"

definition process_stopping_data ::
  "('s, 'o, 'p, 'z) env_scheme \<Rightarrow> seed \<Rightarrow> usize \<Rightarrow> header \<Rightarrow> 'o view_change_message
     \<Rightarrow> ('s, 'o, 'p) sync_world \<Rightarrow> ('s, 'o, 'p) sync_result" where
  "process_stopping_data env seed i h m w =
     (case w of (sy, th, lg, c, nd) \<Rightarrow>
        (case vc_kind m of
           Stop _ \<Rightarrow> Inr (SS_Running, sy\<lparr>sy_tbo := queue_stop h m (sy_tbo sy)\<rparr>, th, lg, c, nd)
         | StopData _ \<Rightarrow>
             (if vc_view m \<noteq> vi_seq (sync_view sy)
              then (if leader (view_peek (sync_view sy) (vc_view m)) = nd_id nd
                    then Inr (SS_Running, sy\<lparr>sy_tbo := queue_stop_data h m (sy_tbo sy)\<rparr>, th, lg, c, nd)
                    else Inr (SS_Running, w))
              else if leader (sync_view sy) \<noteq> nd_id nd then Inr (SS_Running, w)
              else if hmap_contains (sy_collects sy) (header_from h) then Inr (SS_Running, w)
              else
                (let i = i + 1;
                     sy = sy\<lparr>sy_collects :=
                       hmap_insert (header_from h) (StoredMessage h m) (sy_collects sy)\<rparr> in
                 if i \<noteq> view_quorum (sync_view sy)
                 then Inr (SS_Running, sy\<lparr>sy_phase := SP_StoppingData i\<rparr>, th, lg, c, nd)
                 else stop_data_quorum env seed (sy, th, lg, c, nd)))
         | Sync _ \<Rightarrow> Inr (SS_Running, sy\<lparr>sy_tbo := queue_sync h m (sy_tbo sy)\<rparr>, th, lg, c, nd)))"

definition process_syncing ::
  "('s, 'o, 'p, 'z) env_scheme \<Rightarrow> seed \<Rightarrow> header \<Rightarrow> 'o view_change_message
     \<Rightarrow> ('s, 'o, 'p) sync_world \<Rightarrow> ('s, 'o, 'p) sync_result" where
  "process_syncing env seed h m w =
     (case w of (sy, th, lg, c, nd) \<Rightarrow>
        (case vc_kind m of
           Stop _ \<Rightarrow> Inr (SS_Running, sy\<lparr>sy_tbo := queue_stop h m (sy_tbo sy)\<rparr>, th, lg, c, nd)
         | StopData _ \<Rightarrow> Inr (SS_Running, sy\<lparr>sy_tbo := queue_stop_data h m (sy_tbo sy)\<rparr>, th, lg, c, nd)
         | Sync lc \<Rightarrow>
             (if vc_view m \<noteq> vi_seq (sync_view sy)
              then Inr (SS_Running, sy\<lparr>sy_tbo := queue_sync h m (sy_tbo sy)\<rparr>, th, lg, c, nd)
              else if header_from h \<noteq> leader (sync_view sy) then Inr (SS_Running, w)
              else
                (let view = sync_view sy;
                     signed = signed_collects env nd (lc_collects lc);
                     curr_cid = curr_cid_of (highest_proof env view nd signed);
                     sound = sound_of env view (normalized_collects curr_cid (collect_data_msgs signed)) in
                 if \<not> sound_test sound then Inr (SS_Running, w)
                 else
                   bind_res (try_finalize env seed
                       \<lparr>fs_curr_cid = curr_cid, fs_proposed = lc_proposed lc, fs_sound = sound\<rparr> lg c nd sy)
                     (\<lambda>(st, sy, lg, c, nd). Inr (st, sy, th, lg, c, nd))))))"

definition sync_process_message ::
  "('s, 'o, 'p, 'z) env_scheme \<Rightarrow> instant \<Rightarrow> seed \<Rightarrow> header \<Rightarrow> 'o view_change_message
     \<Rightarrow> ('s, 'o, 'p) sync_world \<Rightarrow> ('s, 'o, 'p) sync_result" where
  "sync_process_message env now seed h m w =
     (case w of (sy, rest) \<Rightarrow>
        (case sy_phase sy of
           SP_Init \<Rightarrow> Inr (SS_Nil, sync_queue_message h m sy, rest)
         | SP_Stopping i \<Rightarrow> process_stopping env now i h m w
         | SP_Stopping2 i \<Rightarrow> process_stopping env now i h m w
         | SP_StoppingData i \<Rightarrow> process_stopping_data env seed i h m w
         | SP_Syncing \<Rightarrow> process_syncing env seed h m w
         | SP_SyncingState \<Rightarrow> Inl (Panic ''internal error: entered unreachable code'')))"

end
