(* ===== verification/Certificates.thy ===== *)
theory Certificates
  imports Consensus
begin

text \<open>
  What a consensus instance guarantees: the votes that back a decision, the abstract voting
  machine an instance refines, what polling does to missing requests, and the cases in
  which the state machine of \<open>src/bft/consensus/mod.rs\<close> does not make progress.
\<close>

section \<open>Certificates\<close>

text \<open>
  The steps of one instance in a view: processing a message that does not decide, polling,
  queueing, signalling, and the operations of the log and the proposal in between. The log
  operations are those of \<open>Log\<close> that leave the decision log alone.
\<close>

type_synonym ('s, 'o, 'p) instance_state = "consensus \<times> ('s, 'o) log \<times> ('s, 'o, 'p) node"

inductive instance_step ::
  "('s, 'o, 'p, 'z) env_scheme \<Rightarrow> view_info \<Rightarrow> ('s, 'o, 'p) instance_state \<Rightarrow> ('s, 'o, 'p) instance_state \<Rightarrow> bool"
  for env view where
  is_message: "consensus_process_message env h m view lg nd c = Inr (CS_Deciding, c', lg', nd') \<Longrightarrow>
    instance_step env view (c, lg, nd) (c', lg', nd')"
| is_poll: "consensus_poll env lg c = (st, c') \<Longrightarrow> instance_step env view (c, lg, nd) (c', lg, nd)"
| is_signal: "instance_step env view (c, lg, nd) (consensus_signal c, lg, nd)"
| is_queue: "instance_step env view (c, lg, nd) (consensus_queue h m c, lg, nd)"
| is_request: "instance_step env view (c, lg, nd)
    (c, log_insert env h (SM_Request r :: ('s, 'o, 'p) system_message) lg, nd)"
| is_propose: "next_batch env lg = (Some ds, lg') \<Longrightarrow> propose env ds view nd c = Inr (c', nd') \<Longrightarrow>
    instance_step env view (c, lg, nd) (c', lg', nd')"
| is_no_batch: "next_batch env lg = (None, lg') \<Longrightarrow> instance_step env view (c, lg, nd) (c, lg', nd)"
| is_send: "instance_step env view (c, lg, nd) (c, lg, nd')"

text \<open>The votes an instance adds to the decision log.\<close>

definition vote_of :: "seq_no \<Rightarrow> seq_no \<Rightarrow> consensus_message_kind \<Rightarrow> stored_consensus \<Rightarrow> bool" where
  "vote_of s v k m \<longleftrightarrow> sm_message m = \<lparr>cm_seq = s, cm_view = v, cm_kind = k\<rparr>"

definition proposal_of :: "seq_no \<Rightarrow> seq_no \<Rightarrow> consensus \<Rightarrow> stored_consensus \<Rightarrow> bool" where
  "proposal_of s v c m \<longleftrightarrow>
     co_batch_size c \<le> length (co_current c) \<and>
     vote_of s v (PrePrepare (take (co_batch_size c) (co_current c))) m \<and>
     header_digest (sm_header m) = co_current_digest c"

definition declog_plus ::
  "decision_log \<Rightarrow> stored_consensus list \<Rightarrow> stored_consensus list \<Rightarrow> stored_consensus list \<Rightarrow> decision_log" where
  "declog_plus dl pps ps cs =
     dl\<lparr>dl_pre_prepares := dl_pre_prepares dl @ pps, dl_prepares := dl_prepares dl @ ps,
        dl_commits := dl_commits dl @ cs\<rparr>"

fun phase_votes :: "usize \<Rightarrow> proto_phase \<Rightarrow> stored_consensus list \<Rightarrow> stored_consensus list
    \<Rightarrow> stored_consensus list \<Rightarrow> bool" where
  "phase_votes q Phase_Init pps ps cs = (pps = [] \<and> ps = [] \<and> cs = [])"
| "phase_votes q Phase_PrePreparing pps ps cs = (pps = [] \<and> ps = [] \<and> cs = [])"
| "phase_votes q Phase_PreparingRequests pps ps cs = (length pps = 1 \<and> ps = [] \<and> cs = [])"
| "phase_votes q (Phase_Preparing i) pps ps cs = (length pps = 1 \<and> length ps + 1 = i \<and> cs = [])"
| "phase_votes q (Phase_Committing i) pps ps cs =
     (length pps = 1 \<and> ps \<noteq> [] \<and> length ps + 1 = q \<and> length cs = i)"

definition votes_ok :: "seq_no \<Rightarrow> seq_no \<Rightarrow> consensus \<Rightarrow> stored_consensus list \<Rightarrow> stored_consensus list
    \<Rightarrow> stored_consensus list \<Rightarrow> bool" where
  "votes_ok s v c pps ps cs \<longleftrightarrow>
     (\<forall>m \<in> set pps. proposal_of s v c m) \<and>
     (\<forall>m \<in> set ps. vote_of s v (Prepare (co_current_digest c)) m) \<and>
     (\<forall>m \<in> set cs. vote_of s v (Commit (co_current_digest c)) m)"

definition instance_inv :: "seq_no \<Rightarrow> view_info \<Rightarrow> decision_log \<Rightarrow> ('s, 'o, 'p) instance_state \<Rightarrow> bool" where
  "instance_inv s view dl st \<longleftrightarrow>
     (case st of (c, lg, nd) \<Rightarrow>
        co_seq c = s \<and>
        (\<exists>pps ps cs. lg_declog lg = declog_plus dl pps ps cs \<and>
           phase_votes (view_quorum view) (co_phase c) pps ps cs \<and> votes_ok s (vi_seq view) c pps ps cs))"

lemma instance_invI:
  assumes "lg_declog lg = declog_plus dl pps ps cs" and "votes_ok s (vi_seq view) c pps ps cs"
    and "phase_votes (view_quorum view) (co_phase c) pps ps cs" and "co_seq c = s"
  shows "instance_inv s view dl (c, lg, nd)"
  using assms by (auto simp: instance_inv_def)

lemma votes_ok_cong:
  assumes "co_batch_size c' = co_batch_size c" and "co_current c' = co_current c"
    and "co_current_digest c' = co_current_digest c"
  shows "votes_ok s v c' pps ps cs = votes_ok s v c pps ps cs"
  using assms by (simp add: votes_ok_def proposal_of_def)

lemma queue_seq [simp]:
  "tq_curr_seq (queue_pre_prepare h m q) = tq_curr_seq q" "tq_curr_seq (queue_prepare h m q) = tq_curr_seq q"
  "tq_curr_seq (queue_commit h m q) = tq_curr_seq q" "tq_curr_seq (queue_consensus h m q) = tq_curr_seq q"
  "tq_curr_seq (tbo_signal q) = tq_curr_seq q"
  by (simp_all add: queue_pre_prepare_def queue_prepare_def queue_commit_def queue_consensus_def
      tbo_signal_def split: consensus_message_kind.splits)

text \<open>What polling leaves alone, and how it moves the phase.\<close>

lemma consensus_poll_frame:
  assumes "consensus_poll env lg c = (st, c')"
  shows "co_seq c' = co_seq c" "co_batch_size c' = co_batch_size c" "co_current c' = co_current c"
    "co_current_digest c' = co_current_digest c"
    "co_phase c' = co_phase c \<or> co_phase c = Phase_Init \<and> co_phase c' = Phase_PrePreparing \<or>
     co_phase c = Phase_PreparingRequests \<and> co_phase c' = Phase_Preparing 1"
  using assms
  by (cases "co_phase c"; auto simp: consensus_poll_def Let_def extract_pre_prepare_def extract_prepare_def
      extract_commit_def split: if_splits prod.splits option.splits)+

lemma next_batch_declog: "next_batch env lg = (r, lg') \<Longrightarrow> lg_declog lg' = lg_declog lg"
  by (auto simp: next_batch_def Let_def split: option.splits prod.splits)

lemma log_insert_request_declog [simp]: "lg_declog (log_insert env h (SM_Request r) lg) = lg_declog lg"
  by (simp add: log_insert_def Let_def)

lemma propose_frame:
  assumes "propose env ds view nd c = Inr (c', nd')"
  shows "c' = c \<or> co_phase c = Phase_Init \<and> c' = c\<lparr>co_phase := Phase_PrePreparing\<rparr>"
  using assms by (auto simp: propose_def Let_def res_simps split: proto_phase.splits if_splits)

text \<open>What logging a consensus message amounts to.\<close>

definition log_push :: "header \<Rightarrow> consensus_message \<Rightarrow> ('s, 'o) log \<Rightarrow> ('s, 'o) log" where
  "log_push h m lg = lg\<lparr>lg_declog :=
     (case cm_kind m of
        PrePrepare _ \<Rightarrow> (lg_declog lg)\<lparr>dl_pre_prepares := dl_pre_prepares (lg_declog lg) @ [StoredMessage h m]\<rparr>
      | Prepare _ \<Rightarrow> (lg_declog lg)\<lparr>dl_prepares := dl_prepares (lg_declog lg) @ [StoredMessage h m]\<rparr>
      | Commit _ \<Rightarrow> (lg_declog lg)\<lparr>dl_commits := dl_commits (lg_declog lg) @ [StoredMessage h m]\<rparr>)\<rparr>"

lemma log_insert_push [simp]: "log_insert env h (SM_Consensus m) lg = log_push h m lg"
  by (simp add: log_insert_def log_push_def Let_def)

lemma declog_plus_push:
  assumes "lg_declog lg = declog_plus dl pps ps cs"
  shows "lg_declog (log_push h m lg) =
    (case cm_kind m of
       PrePrepare _ \<Rightarrow> declog_plus dl (pps @ [StoredMessage h m]) ps cs
     | Prepare _ \<Rightarrow> declog_plus dl pps (ps @ [StoredMessage h m]) cs
     | Commit _ \<Rightarrow> declog_plus dl pps ps (cs @ [StoredMessage h m]))"
  using assms by (simp add: log_push_def declog_plus_def split: consensus_message_kind.splits)

lemma vote_of_StoredMessage:
  "vote_of s v k (StoredMessage h m) \<longleftrightarrow> cm_seq m = s \<and> cm_view m = v \<and> cm_kind m = k"
  by (cases m) (simp add: vote_of_def)

lemma copy_current_frame:
  assumes "copy_current ds c = Inr c'"
  shows "co_batch_size c' = length ds" "take (length ds) (co_current c') = ds" "length ds \<le> length (co_current c')"
    "co_current_digest c' = co_current_digest c" "co_tbo c' = co_tbo c" "co_phase c' = co_phase c"
    "co_missing_requests c' = co_missing_requests c" "length (co_current c') = length (co_current c)"
  using assms by (auto simp: copy_current_def split: if_splits)

lemma instance_inv_pre_preparing:
  assumes "instance_inv s view dl (c, lg, nd)" and "co_phase c = Phase_PrePreparing"
    and "process_pre_preparing env h m view lg nd c = Inr (st, c', lg', nd')"
  shows "instance_inv s view dl (c', lg', nd')"
proof -
  have dl: "lg_declog lg = declog_plus dl [] [] []" and s: "co_seq c = s"
    using assms(1,2) by (auto simp: instance_inv_def)
  show ?thesis
  proof (cases "\<exists>ds. cm_kind m = PrePrepare ds \<and> cm_view m = vi_seq view \<and> cm_seq m = co_seq c")
    case True
    then obtain ds where ds: "cm_kind m = PrePrepare ds" "cm_view m = vi_seq view" "cm_seq m = co_seq c" by blast
    obtain c1 where c1: "copy_current ds (c\<lparr>co_current_digest := header_digest h\<rparr>) = Inr c1"
      using assms(3) ds by (auto simp: process_pre_preparing_def res_simps)
    note frame = copy_current_frame [OF c1]
    have c': "co_batch_size c' = co_batch_size c1" "co_current c' = co_current c1"
      "co_current_digest c' = co_current_digest c1" "co_tbo c' = co_tbo c"
      "co_phase c' = Phase_Preparing 1 \<or> co_phase c' = Phase_PreparingRequests"
      "lg' = log_push h m lg"
      using assms(3) ds c1 frame
      by (auto simp: process_pre_preparing_def res_simps Let_def split: if_splits)
    have "votes_ok s (vi_seq view) c' [StoredMessage h m] [] []"
      using c' ds frame s by (simp add: votes_ok_def proposal_of_def vote_of_StoredMessage)
    moreover have "lg_declog lg' = declog_plus dl [StoredMessage h m] [] []"
      unfolding c' using declog_plus_push [OF dl] ds by simp
    ultimately show ?thesis using c' s by (fastforce simp: instance_inv_def)
  next
    case False
    then have "lg' = lg" "co_phase c' = Phase_PrePreparing" "co_seq c' = s"
      using assms s by (auto simp: process_pre_preparing_def split: consensus_message_kind.splits if_splits)
    then show ?thesis using dl by (force simp: instance_inv_def votes_ok_def)
  qed
qed

lemma instance_inv_unvoted:
  assumes "instance_inv s view dl (c, lg, nd)" and "co_phase c' = co_phase c" and "co_seq c' = co_seq c"
    and "co_batch_size c' = co_batch_size c" and "co_current c' = co_current c"
    and "co_current_digest c' = co_current_digest c" and "lg_declog lg' = lg_declog lg"
  shows "instance_inv s view dl (c', lg', nd')"
  using assms votes_ok_cong [OF assms(4-6)] by (simp add: instance_inv_def)

lemma instance_inv_preparing:
  assumes "instance_inv s view dl (c, lg, nd)" and "co_phase c = Phase_Preparing i"
    and "process_preparing env i h m view lg nd c = Inr (st, c', lg', nd')"
  shows "instance_inv s view dl (c', lg', nd')"
proof (cases "cm_kind m = Prepare (co_current_digest c) \<and> cm_view m = vi_seq view \<and> cm_seq m = co_seq c")
  case True
  obtain pps ps where dl: "lg_declog lg = declog_plus dl pps ps []" and s: "co_seq c = s"
    and votes: "length pps = 1" "length ps + 1 = i" "votes_ok s (vi_seq view) c pps ps []"
    using assms(1,2) by (auto simp: instance_inv_def)
  have c': "c' = c\<lparr>co_phase := (if i + 1 = view_quorum view then Phase_Committing 0 else Phase_Preparing (i + 1))\<rparr>"
    "lg' = log_push h m lg"
    using assms(3) True by (auto simp: process_preparing_def Let_def res_simps split: if_splits)
  have "lg_declog lg' = declog_plus dl pps (ps @ [StoredMessage h m]) []"
    unfolding c' using declog_plus_push [OF dl] True by simp
  moreover have "votes_ok s (vi_seq view) c' pps (ps @ [StoredMessage h m]) []"
    using votes(3) True s by (auto simp: c' votes_ok_def proposal_of_def vote_of_StoredMessage)
  moreover have "phase_votes (view_quorum view) (co_phase c') pps (ps @ [StoredMessage h m]) []"
    using votes by (simp add: c')
  moreover have "co_seq c' = s" using s by (simp add: c')
  ultimately show ?thesis by (rule instance_invI)
next
  case False
  then have "lg' = lg \<and> (\<exists>q. c' = c\<lparr>co_tbo := q\<rparr> \<and> tq_curr_seq q = co_seq c)"
    using assms(3) by (auto simp: process_preparing_def split: consensus_message_kind.splits if_splits
        intro: exI [of _ "co_tbo c"])
  then show ?thesis by (auto intro: instance_inv_unvoted [OF assms(1)])
qed

lemma instance_inv_committing:
  assumes "instance_inv s view dl (c, lg, nd)" and "co_phase c = Phase_Committing i"
    and "process_committing env i h m view lg nd c = Inr (CS_Deciding, c', lg', nd')"
  shows "instance_inv s view dl (c', lg', nd')"
proof (cases "cm_kind m = Commit (co_current_digest c) \<and> cm_view m = vi_seq view \<and> cm_seq m = co_seq c")
  case True
  obtain pps ps cs where dl: "lg_declog lg = declog_plus dl pps ps cs" and s: "co_seq c = s"
    and votes: "phase_votes (view_quorum view) (Phase_Committing i) pps ps cs" "votes_ok s (vi_seq view) c pps ps cs"
    using assms(1,2) by (auto simp: instance_inv_def)
  have c': "c' = c\<lparr>co_phase := Phase_Committing (i + 1)\<rparr>" "lg' = log_push h m lg"
    using assms(3) True by (auto simp: process_committing_def Let_def split: if_splits)
  have "lg_declog lg' = declog_plus dl pps ps (cs @ [StoredMessage h m])"
    unfolding c' using declog_plus_push [OF dl] True by simp
  moreover have "votes_ok s (vi_seq view) c' pps ps (cs @ [StoredMessage h m])"
    using votes(2) True s by (auto simp: c' votes_ok_def proposal_of_def vote_of_StoredMessage)
  moreover have "phase_votes (view_quorum view) (co_phase c') pps ps (cs @ [StoredMessage h m])"
    using votes by (simp add: c')
  moreover have "co_seq c' = s" using s by (simp add: c')
  ultimately show ?thesis by (rule instance_invI)
next
  case False
  then have "lg' = lg \<and> (\<exists>q. c' = c\<lparr>co_tbo := q\<rparr> \<and> tq_curr_seq q = co_seq c)"
    using assms(3) by (auto simp: process_committing_def split: consensus_message_kind.splits if_splits
        intro: exI [of _ "co_tbo c"])
  then show ?thesis by (auto intro: instance_inv_unvoted [OF assms(1)])
qed

lemma instance_inv_step:
  assumes "instance_inv s view dl st" and "instance_step env view st st'"
  shows "instance_inv s view dl st'"
  using assms(2)
proof cases
  case (is_message h m lg nd c c' lg' nd')
  show ?thesis
  proof (cases "co_phase c")
    case Phase_PrePreparing
    with is_message assms(1) show ?thesis
      by (auto simp: consensus_process_message_def intro: instance_inv_pre_preparing)
  next
    case (Phase_Preparing i)
    with is_message assms(1) show ?thesis
      by (auto simp: consensus_process_message_def intro: instance_inv_preparing)
  next
    case (Phase_Committing i)
    with is_message assms(1) show ?thesis
      by (auto simp: consensus_process_message_def intro: instance_inv_committing)
  qed (use is_message assms(1) in \<open>auto simp: consensus_process_message_def consensus_queue_def
      intro: instance_inv_unvoted\<close>)
next
  case (is_poll lg c r c' nd)
  obtain pps ps cs where inv: "lg_declog lg = declog_plus dl pps ps cs" "co_seq c = s"
    "phase_votes (view_quorum view) (co_phase c) pps ps cs" "votes_ok s (vi_seq view) c pps ps cs"
    using assms(1) is_poll by (auto simp: instance_inv_def)
  note frame = consensus_poll_frame [OF is_poll(3)]
  have "phase_votes (view_quorum view) (co_phase c') pps ps cs" using frame(5) inv(3) by auto
  moreover have "votes_ok s (vi_seq view) c' pps ps cs"
    using votes_ok_cong [OF frame(2-4)] inv(4) by simp
  ultimately show ?thesis using inv frame(1) is_poll by (auto intro: instance_invI)
next
  case (is_propose lg ds lg' nd c c' nd')
  have "lg_declog lg' = lg_declog lg" using next_batch_declog [OF is_propose(3)] .
  then show ?thesis
    using propose_frame [OF is_propose(4)] assms(1) is_propose(1,2)
    by (auto simp: instance_inv_def votes_ok_def proposal_of_def)
qed (use assms(1) in \<open>auto simp: consensus_signal_def consensus_queue_def next_batch_declog
    intro: instance_inv_unvoted\<close>)

interpretation deciding: kept_invariant "instance_step env view" "instance_inv s view dl"
  for env :: "('s, 'o, 'p, 'z) env_scheme" and view s dl
  by unfold_locales (rule instance_inv_step)

lemma instance_inv_init:
  "co_phase c = Phase_Init \<Longrightarrow> instance_inv (co_seq c) view (lg_declog lg) (c, lg, nd)"
  by (auto simp: instance_inv_def declog_plus_def votes_ok_def)

lemma decided_votes:
  assumes "instance_inv s view dl (c, lg, nd)"
    and "consensus_process_message env h m view lg nd c = Inr (CS_Decided ds, c', lg', nd')"
  shows "\<exists>pp ps cs. lg_declog lg' = declog_plus dl [pp] ps cs \<and>
    vote_of s (vi_seq view) (PrePrepare ds) pp \<and> ps \<noteq> [] \<and> length ps + 1 = view_quorum view \<and>
    length cs = view_quorum view \<and>
    (\<forall>m \<in> set ps. vote_of s (vi_seq view) (Prepare (header_digest (sm_header pp))) m) \<and>
    (\<forall>m \<in> set cs. vote_of s (vi_seq view) (Commit (header_digest (sm_header pp))) m) \<and>
    co_phase c' = Phase_Init \<and> co_seq c' = s"
proof -
  obtain i where i: "co_phase c = Phase_Committing i"
    using assms(2)
    by (cases "co_phase c") (auto simp: consensus_process_message_def process_pre_preparing_def
        process_preparing_def Let_def res_simps split: consensus_message_kind.splits if_splits)
  obtain pps ps cs where inv: "lg_declog lg = declog_plus dl pps ps cs" "co_seq c = s"
    "length pps = 1" "ps \<noteq> []" "length ps + 1 = view_quorum view" "length cs = i"
    "votes_ok s (vi_seq view) c pps ps cs"
    using assms(1) i by (auto simp: instance_inv_def)
  then obtain pp where pp: "pps = [pp]" by (auto simp: length_Suc_conv)
  have m: "cm_kind m = Commit (co_current_digest c)" "cm_view m = vi_seq view" "cm_seq m = s"
    "i + 1 = view_quorum view" "ds = take (co_batch_size c) (co_current c)" "lg' = log_push h m lg"
    "c' = c\<lparr>co_phase := Phase_Init\<rparr>"
    using assms(2) i inv(2)
    by (auto simp: consensus_process_message_def process_committing_def Let_def
        split: consensus_message_kind.splits if_splits)
  have "lg_declog lg' = declog_plus dl [pp] ps (cs @ [StoredMessage h m])"
    unfolding m using declog_plus_push [OF inv(1)] m pp by simp
  with inv m pp show ?thesis
    by (intro exI [of _ pp] exI [of _ ps] exI [of _ "cs @ [StoredMessage h m]"])
      (auto simp: votes_ok_def proposal_of_def vote_of_StoredMessage)
qed

section \<open>An abstract instance\<close>

text \<open>
  What an instance promises in one view, without queues, logs or networks: at most one
  proposal is accepted, prepare votes for it are counted up to the quorum, then commit votes.
  A proposal counts as the leader's prepare vote.
\<close>

datatype abstract_instance =
    A_Idle
  | A_Proposed "digest list" digest nat
  | A_Prepared "digest list" digest nat

inductive abstract_step :: "nat \<Rightarrow> abstract_instance \<Rightarrow> abstract_instance \<Rightarrow> bool" for q where
  as_accept: "abstract_step q A_Idle (A_Proposed ds d 0)"
| as_prepare: "k + 2 \<noteq> q \<Longrightarrow> abstract_step q (A_Proposed ds d k) (A_Proposed ds d (k + 1))"
| as_prepared: "k + 2 = q \<Longrightarrow> abstract_step q (A_Proposed ds d k) (A_Prepared ds d 0)"
| as_commit: "k + 1 \<noteq> q \<Longrightarrow> abstract_step q (A_Prepared ds d k) (A_Prepared ds d (k + 1))"

inductive_simps abstract_step_simps:
  "abstract_step q A_Idle st" "abstract_step q (A_Proposed ds d k) st" "abstract_step q (A_Prepared ds d k) st"

fun proposal :: "abstract_instance \<Rightarrow> (digest list \<times> digest) option" where
  "proposal A_Idle = None"
| "proposal (A_Proposed ds d k) = Some (ds, d)"
| "proposal (A_Prepared ds d k) = Some (ds, d)"

lemma abstract_proposal_stable:
  "(abstract_step q)\<^sup>*\<^sup>* a b \<Longrightarrow> proposal a = Some p \<Longrightarrow> proposal b = Some p"
proof (induction rule: rtranclp_induct)
  case (step b c)
  then show ?case by (cases b) (auto simp: abstract_step_simps)
qed

definition abs_instance :: "('s, 'o, 'p) instance_state \<Rightarrow> abstract_instance" where
  "abs_instance st =
     (case st of (c, lg, nd) \<Rightarrow>
        (let ds = take (co_batch_size c) (co_current c); d = co_current_digest c in
         case co_phase c of
           Phase_Init \<Rightarrow> A_Idle
         | Phase_PrePreparing \<Rightarrow> A_Idle
         | Phase_PreparingRequests \<Rightarrow> A_Proposed ds d 0
         | Phase_Preparing i \<Rightarrow> A_Proposed ds d (i - 1)
         | Phase_Committing i \<Rightarrow> A_Prepared ds d i))"

lemma abs_instance_same:
  assumes "co_phase c' = co_phase c" and "co_batch_size c' = co_batch_size c" and "co_current c' = co_current c"
    and "co_current_digest c' = co_current_digest c"
  shows "abs_instance (c', lg', nd') = abs_instance (c, lg, nd)"
  using assms by (simp add: abs_instance_def)

lemma process_abstract:
  assumes "instance_inv s view dl (c, lg, nd)"
    and "consensus_process_message env h m view lg nd c = Inr (CS_Deciding, c', lg', nd')"
  shows "abs_instance (c', lg', nd') = abs_instance (c, lg, nd) \<or>
    abstract_step (view_quorum view) (abs_instance (c, lg, nd)) (abs_instance (c', lg', nd'))"
proof (cases "co_phase c")
  case Phase_PrePreparing
  with assms(2) show ?thesis
    by (cases "cm_kind m") (auto simp: consensus_process_message_def process_pre_preparing_def Let_def
        abs_instance_def abstract_step_simps res_simps split: if_splits)
next
  case (Phase_Preparing i)
  then have "i \<ge> 1" using assms(1) by (auto simp: instance_inv_def)
  with Phase_Preparing assms(2) show ?thesis
    by (cases "cm_kind m") (auto simp: consensus_process_message_def process_preparing_def Let_def
        abs_instance_def abstract_step_simps res_simps split: if_splits)
next
  case (Phase_Committing i)
  with assms(2) show ?thesis
    by (cases "cm_kind m") (auto simp: consensus_process_message_def process_committing_def Let_def
        abs_instance_def abstract_step_simps split: if_splits)
qed (use assms(2) in \<open>auto simp: consensus_process_message_def consensus_queue_def abs_instance_def\<close>)

lemma instance_step_abstract:
  assumes "instance_inv s view dl st" and "instance_step env view st st'"
  shows "abs_instance st' = abs_instance st \<or>
    abstract_step (view_quorum view) (abs_instance st) (abs_instance st')"
  using assms(2)
proof cases
  case (is_message h m lg nd c c' lg' nd')
  with assms(1) show ?thesis by (auto dest: process_abstract)
next
  case (is_poll lg c r c' nd)
  show ?thesis
    using consensus_poll_frame [OF is_poll(3)] is_poll(1,2) by (auto simp: abs_instance_def)
next
  case (is_propose lg ds lg' nd c c' nd')
  then show ?thesis using propose_frame [OF is_propose(4)] by (auto simp: abs_instance_def)
qed (auto simp: consensus_signal_def consensus_queue_def abs_instance_def)

interpretation refined: forward_simulation "instance_step env view" "instance_inv s view dl"
  "abstract_step (view_quorum view)" abs_instance
  for env :: "('s, 'o, 'p, 'z) env_scheme" and view s dl
  by unfold_locales (rule instance_step_abstract)

section \<open>Missing requests\<close>

lemma swap_remove_back_each_append:
  "swap_remove_back_each (is @ js) xs = swap_remove_back_each js (swap_remove_back_each is xs)"
  by (induction "is" arbitrary: xs) auto

text \<open>Removing at increasing indices takes out only elements that stood at those indices.\<close>

lemma swap_remove_back_each_only:
  assumes "sorted is" and "distinct is" and "\<forall>i \<in> set is. i < length xs \<longrightarrow> P (xs ! i)"
  shows "\<exists>removed. mset xs = mset removed + mset (swap_remove_back_each is xs) \<and> (\<forall>x \<in> set removed. P x)"
  using assms
proof (induction "is" arbitrary: xs)
  case (Cons i "is")
  show ?case
  proof (cases "swap_remove i xs")
    case None
    then show ?thesis using Cons by auto
  next
    case (Some p)
    obtain x ys where p: "p = (x, ys)" by fastforce
    have x: "x = xs ! i" "i < length xs" using Some p by (auto simp: swap_remove_def split: if_splits)
    have "\<forall>j \<in> set is. j < length ys \<longrightarrow> P (ys ! j)"
    proof (intro ballI impI)
      fix j assume j: "j \<in> set is" "j < length ys"
      then have "i < j" using Cons.prems(1,2) by (auto simp: less_le)
      then show "P (ys ! j)"
        using swap_remove_nth_above [of i xs x ys j] swap_remove_length [of i xs x ys] Some p j Cons.prems(3)
        by auto
    qed
    then obtain removed where "mset ys = mset removed + mset (swap_remove_back_each is ys)" "\<forall>x \<in> set removed. P x"
      using Cons.IH [of ys] Cons.prems(1,2) by auto
    then show ?thesis
      using Some p swap_remove_mset [of i xs x ys] x Cons.prems(3)
      by (intro exI [of _ "x # removed"]) auto
  qed
qed simp

lemma swap_remove_back_each_upt:
  "k \<le> n \<Longrightarrow> length xs = n - k \<Longrightarrow> length (swap_remove_back_each [k..<n] xs) = min (n - k) (n div 2)"
proof (induction "n - k" arbitrary: k xs)
  case (Suc d)
  then have k: "k < n" by simp
  then have upt: "[k..<n] = k # [Suc k..<n]" by (simp add: upt_rec)
  show ?case
  proof (cases "k < length xs")
    case True
    then obtain x ys where "swap_remove k xs = Some (x, ys)" by (auto simp: swap_remove_def)
    then show ?thesis
      using Suc.hyps(1) [of "Suc k" ys] Suc.hyps(2) Suc.prems True k swap_remove_length [of k xs x ys]
      by (simp add: upt)
  next
    case False
    have stay: "swap_remove_back_each is xs = xs" if "\<forall>i \<in> set is. length xs \<le> i" for "is"
      using that by (induction "is") (auto simp: swap_remove_def)
    have "\<forall>i \<in> set [k..<n]. length xs \<le> i" using False by auto
    then show ?thesis using stay Suc.prems False by simp
  qed
qed simp

lemma received_indices_props:
  "sorted (received_indices env lg ds)" "distinct (received_indices env lg ds)"
  "i \<in> set (received_indices env lg ds) \<Longrightarrow> i < length ds \<and> has_request env lg (ds ! i)"
proof -
  have "map fst (enumerate 0 ds) = [0..<length ds]" by (simp add: map_fst_enumerate)
  then show "sorted (received_indices env lg ds)" "distinct (received_indices env lg ds)"
    unfolding received_indices_def
    by (metis sorted_filter sorted_upt, metis distinct_map_filter distinct_upt)
qed (auto simp: received_indices_def in_set_enumerate_eq)

lemma received_indices_all:
  "\<forall>d \<in> set ds. has_request env lg d \<Longrightarrow> received_indices env lg ds = [0..<length ds]"
proof -
  assume "\<forall>d \<in> set ds. has_request env lg d"
  then have "filter (\<lambda>(index, dig). has_request env lg dig) (enumerate 0 ds) = enumerate 0 ds"
    by (intro filter_True) (auto simp: in_set_enumerate_eq)
  then show ?thesis by (simp add: received_indices_def)
qed

section \<open>Votes and the log\<close>

lemma last_block_append:
  assumes "ms \<noteq> []" and "\<forall>m \<in> set ms. stored_seq m = s \<and> stored_view m = v"
  shows "length ms \<le> length (last_block s (xs @ ms))"
proof -
  obtain y ys where y: "rev ms = y # ys" using assms(1) by (cases "rev ms") auto
  then have all: "\<forall>m \<in> set (y # ys). stored_seq m = s \<and> stored_view m = v" using assms(2) by (metis set_rev)
  have "rev (xs @ ms) = y # (ys @ rev xs)" using y by simp
  then have "last_block s (xs @ ms) =
      y # takeWhile (\<lambda>x. stored_seq x = s \<and> stored_view x = stored_view y) (ys @ rev xs)"
    using all by (simp add: last_block_def)
  also have "\<dots> = y # ys @ takeWhile (\<lambda>x. stored_seq x = s \<and> stored_view x = stored_view y) (rev xs)"
    using all by (simp add: takeWhile_append2)
  finally show ?thesis using y by (metis append_Cons le_add1 length_append length_rev)
qed

lemma finalize_batch_declog:
  assumes "finalize_batch env s ds lg = Inr (r, lg')"
  shows "lg_declog lg' = (lg_declog lg)\<lparr>dl_last_exec := Some s\<rparr>"
proof -
  have take: "finalize_take env ds batch lg = Inr (b, lg1) \<Longrightarrow> lg_declog lg1 = lg_declog lg" for ds batch b lg1
    by (induction env ds batch lg rule: finalize_take.induct) (auto split: option.splits prod.splits)
  show ?thesis
    using assms take
    by (auto simp: finalize_batch_def res_simps Let_def begin_checkpoint_eq split: if_splits)
qed

fun process_votes ::
  "('s, 'o, 'p, 'z) env_scheme \<Rightarrow> view_info \<Rightarrow> (header \<times> consensus_message) list \<Rightarrow> ('s, 'o, 'p) instance_state
     \<Rightarrow> ('s, 'o, 'p) consensus_result" where
  "process_votes env view [] (c, lg, nd) = Inr (CS_Deciding, c, lg, nd)"
| "process_votes env view ((h, m) # ms) (c, lg, nd) =
     bind_res (consensus_process_message env h m view lg nd c) (\<lambda>(st, c, lg, nd).
       case st of CS_Deciding \<Rightarrow> process_votes env view ms (c, lg, nd) | _ \<Rightarrow> Inr (st, c, lg, nd))"

lemma process_votes_steps:
  assumes "process_votes env view ms (c, lg, nd) = Inr (CS_Deciding, c', lg', nd')"
  shows "(instance_step env view)\<^sup>*\<^sup>* (c, lg, nd) (c', lg', nd')"
  using assms
proof (induction ms arbitrary: c lg nd)
  case (Cons hm ms)
  obtain h m where hm: "hm = (h, m)" by fastforce
  obtain c1 lg1 nd1 where "consensus_process_message env h m view lg nd c = Inr (CS_Deciding, c1, lg1, nd1)"
    and rest: "process_votes env view ms (c1, lg1, nd1) = Inr (CS_Deciding, c', lg', nd')"
    using Cons.prems hm
    by (auto simp: res_simps split: consensus_status.splits) (metis consensus_status.exhaust)
  from is_message [OF this(1)] Cons.IH [OF rest] show ?case
    by (rule converse_rtranclp_into_rtranclp)
qed simp

lemma repeated_commit:
  assumes "co_phase c = Phase_Committing i" and "co_batch_size c \<le> length (co_current c)"
    and "cm_kind m = Commit (co_current_digest c)" and "cm_view m = vi_seq view" and "cm_seq m = co_seq c"
    and "i + k = view_quorum view" and "0 < k"
  shows "\<exists>c' lg'. process_votes env view (replicate k (h, m)) (c, lg, nd) =
    Inr (CS_Decided (take (co_batch_size c) (co_current c)), c', lg', nd)"
  using assms
proof (induction k arbitrary: i c lg)
  case (Suc k)
  show ?case
  proof (cases k)
    case 0
    with Suc.prems show ?thesis
      by (auto simp: consensus_process_message_def process_committing_def Let_def)
  next
    case (Suc k')
    have "consensus_process_message env h m view lg nd c =
        Inr (CS_Deciding, c\<lparr>co_phase := Phase_Committing (i + 1)\<rparr>, log_push h m lg, nd)"
      using Suc.prems Suc by (simp add: consensus_process_message_def process_committing_def Let_def)
    then show ?thesis
      using Suc.IH [of "c\<lparr>co_phase := Phase_Committing (i + 1)\<rparr>" "i + 1" "log_push h m lg"] Suc.prems Suc
      by simp
  qed
qed simp

lemma queue_then_pop:
  assumes "tbo_at q 0 = []" and "seq_index (sn m) s = Inr 0"
  obtains q' where "tbo_pop_message (tbo_queue_message sn s q m) = (Some m, q')"
    "tbo_queue_message sn s q' m = tbo_queue_message sn s q m"
proof (cases q)
  case Nil
  with assms that [of "[[]]"] show ?thesis by (simp add: tbo_queue_message_def)
next
  case (Cons a q')
  with assms that [of "[] # q'"] show ?thesis by (simp add: tbo_queue_message_def tbo_at_def)
qed

section \<open>Properties\<close>

text \<open>
  C2. Certificates. When an instance that started idle decides a batch in a view, the
  decision log has grown by exactly a certificate for it: one pre-prepare of that instance
  and view with that batch, then \<open>quorum - 1\<close> prepares and \<open>quorum\<close> commits, every one of
  that instance and view and for the digest of that pre-prepare. No vote for another
  instance, view or value is ever counted, whatever messages arrived in whatever order.
\<close>

theorem decided_certificate:
  assumes "(instance_step env view)\<^sup>*\<^sup>* (c0, lg0, nd0) (c, lg, nd)" and "co_phase c0 = Phase_Init"
    and "consensus_process_message env h m view lg nd c = Inr (CS_Decided ds, c', lg', nd')"
  shows "\<exists>pp ps cs.
    dl_pre_prepares (lg_declog lg') = dl_pre_prepares (lg_declog lg0) @ [pp] \<and>
    dl_prepares (lg_declog lg') = dl_prepares (lg_declog lg0) @ ps \<and>
    dl_commits (lg_declog lg') = dl_commits (lg_declog lg0) @ cs \<and>
    length ps + 1 = view_quorum view \<and> length cs = view_quorum view \<and>
    vote_of (co_seq c0) (vi_seq view) (PrePrepare ds) pp \<and>
    (\<forall>m \<in> set ps. vote_of (co_seq c0) (vi_seq view) (Prepare (header_digest (sm_header pp))) m) \<and>
    (\<forall>m \<in> set cs. vote_of (co_seq c0) (vi_seq view) (Commit (header_digest (sm_header pp))) m)"
proof -
  have "instance_inv (co_seq c0) view (lg_declog lg0) (c, lg, nd)"
    by (rule deciding.reachable_kept [OF assms(1) instance_inv_init [OF assms(2)]])
  from decided_votes [OF this assms(3)] show ?thesis by (force simp: declog_plus_def)
qed

definition example_commit :: "u32 \<Rightarrow> header \<times> consensus_message" where
  "example_commit i = (example_header i,
     \<lparr>cm_seq = SeqNo 5, cm_view = SeqNo 0, cm_kind = Commit (Digest (replicate 32 7))\<rparr>)"

definition example_prepare :: "u32 \<Rightarrow> header \<times> consensus_message" where
  "example_prepare i = (example_header i,
     \<lparr>cm_seq = SeqNo 5, cm_view = SeqNo 0, cm_kind = Prepare (Digest (replicate 32 7))\<rparr>)"

definition example_proposal :: "header \<times> consensus_message" where
  "example_proposal = (example_header 0,
     \<lparr>cm_seq = SeqNo 5, cm_view = SeqNo 0, cm_kind = PrePrepare [Digest (replicate 32 0)]\<rparr>)"

lemma example_env_simps [simp]:
  "blake3 example_env bs = replicate 32 0" "env_omap example_env = list_omap"
  "env_ord_digest example_env ks = ks" "env_serialize example_env m = Inr [1, 2, 3]"
  by (simp_all add: example_env_def)

lemma example_digest [simp]: "unique_digest (example_env :: ('s, 'o, 'p) env) h = Digest (replicate 32 0)"
  by (simp add: unique_digest_def digest_entropy_eq)

lemma example_log_simps [simp]:
  "lg_requests example_log = [(Digest (replicate 32 0), StoredMessage (example_header 1000) (RequestMessage 5))]"
  "lg_deciding example_log = []" "lg_batch_size example_log = 1" "lg_declog example_log = decision_log_new"
  by (simp_all add: example_log_def log_insert_def log_new_def Let_def) (simp add: list_omap_def)

lemma example_has_request:
  "has_request (example_env :: (nat, nat, nat) env) example_log d \<longleftrightarrow> d = Digest (replicate 32 0)"
  by (simp add: has_request_def hmap_contains_def omap_laws [OF list_omap_ok])

lemma has_request_push [simp]: "has_request env (log_push h m lg) d = has_request env lg d"
  by (simp add: has_request_def log_push_def)

lemma example_broadcast:
  "\<exists>nd'. broadcast_vote (example_env :: (nat, nat, nat) env) c (example_view s) k example_node = Inr nd'"
proof -
  let ?m = "consensus_msg c (example_view s) k :: (nat, nat, nat) system_message"
  obtain d where "serialize_digest (example_env :: (nat, nat, nat) env) ?m = Inr (d, [1, 2, 3])"
    by (simp add: serialize_digest_def)
  moreover obtain nonce rng where "next_state (nd_rng (example_node :: (nat, nat, nat) node)) = (nonce, rng)"
    by fastforce
  ultimately show ?thesis by (simp add: broadcast_vote_def node_broadcast_ok [OF example_connected])
qed

text \<open>
  The leader of view 0 from its idle state to the brink of a decision, with the commits of
  any three replicas.
\<close>

lemma example_run_of:
  "\<exists>c lg nd c' lg' nd'. (instance_step (example_env :: (nat, nat, nat) env) (example_view (SeqNo 0)))\<^sup>*\<^sup>*
      (consensus_new (SeqNo 5) 1, example_log, example_node) (c, lg, nd) \<and>
     consensus_process_message example_env (fst (example_commit k)) (snd (example_commit k))
       (example_view (SeqNo 0)) lg nd c = Inr (CS_Decided [Digest (replicate 32 0)], c', lg', nd') \<and>
     lg' = fold (\<lambda>(h, m). log_push h m) [example_proposal, example_prepare 1, example_prepare 2,
       example_commit i, example_commit j, example_commit k] example_log \<and>
     co_phase c = Phase_Committing 2 \<and> co_current_digest c = Digest (replicate 32 7)"
proof -
  let ?env = "example_env :: (nat, nat, nat) env" and ?v = "example_view (SeqNo 0)"
  let ?nd = "example_node :: (nat, nat, nat) node" and ?step = "instance_step ?env ?v"
  let ?c0 = "consensus_new (SeqNo 5) 1"
  let ?c1 = "consensus_signal (consensus_queue (fst example_proposal) (snd example_proposal) ?c0)"
  let ?c2 = "snd (consensus_poll ?env example_log ?c1)"
  have lead: "leader ?v = nd_id ?nd"
    by (simp add: leader_def seq_to_usize_def i32_as_usize_def node_of_usize_def example_node_def)
  obtain f where f: "\<And>c k. broadcast_vote ?env c ?v k ?nd = Inr (f c k)"
    using example_broadcast [of _ "SeqNo 0"] by metis
  have start: "?step\<^sup>*\<^sup>* (?c0, example_log, ?nd) (?c2, example_log, ?nd)"
    by (rule converse_rtranclp_into_rtranclp, rule is_queue, rule converse_rtranclp_into_rtranclp,
        rule is_signal, rule r_into_rtranclp, rule is_poll, rule prod.collapse [symmetric])
  obtain c lg nd where run: "process_votes ?env ?v
      [example_proposal, example_prepare 1, example_prepare 2, example_commit i, example_commit j]
      (?c2, example_log, ?nd) = Inr (CS_Deciding, c, lg, nd)" and c: "co_phase c = Phase_Committing 2"
    "co_seq c = SeqNo 5" "co_current_digest c = Digest (replicate 32 7)" "co_batch_size c = 1"
    "co_current c = [Digest (replicate 32 0)]"
    and lg: "lg = fold (\<lambda>(h, m). log_push h m)
      [example_proposal, example_prepare 1, example_prepare 2, example_commit i, example_commit j] example_log"
    by (simp add: example_proposal_def example_prepare_def example_commit_def consensus_new_def
        tbo_queue_new_def consensus_signal_def tbo_signal_def consensus_queue_def queue_consensus_def
        queue_pre_prepare_def tbo_queue_message_def consensus_poll_def extract_pre_prepare_def
        consensus_process_message_def process_pre_preparing_def process_preparing_def process_committing_def
        copy_current_def lead f Let_def example_has_request example_header_def header_digest_def)
  have "?step\<^sup>*\<^sup>* (?c0, example_log, ?nd) (c, lg, nd)"
    by (rule rtranclp_trans [OF start process_votes_steps [OF run]])
  moreover have "\<exists>c'. consensus_process_message ?env (fst (example_commit k)) (snd (example_commit k))
      ?v lg nd c = Inr (CS_Decided [Digest (replicate 32 0)], c',
        log_push (fst (example_commit k)) (snd (example_commit k)) lg, nd)"
    by (simp add: consensus_process_message_def process_committing_def c example_commit_def Let_def)
  moreover have "log_push (fst (example_commit k)) (snd (example_commit k)) lg = fold (\<lambda>(h, m). log_push h m)
      [example_proposal, example_prepare 1, example_prepare 2, example_commit i, example_commit j,
       example_commit k] example_log"
    by (simp add: lg case_prod_unfold)
  ultimately show ?thesis using c(1,3) by blast
qed

lemma example_run:
  "\<exists>c lg nd c' lg' nd'. (instance_step (example_env :: (nat, nat, nat) env) (example_view (SeqNo 0)))\<^sup>*\<^sup>*
      (consensus_new (SeqNo 5) 1, example_log, example_node) (c, lg, nd) \<and>
     consensus_process_message example_env (fst (example_commit 3)) (snd (example_commit 3))
       (example_view (SeqNo 0)) lg nd c = Inr (CS_Decided [Digest (replicate 32 0)], c', lg', nd') \<and>
     (\<exists>r lg''. finalize_batch (example_env :: (nat, nat, nat) env) (SeqNo 5) [Digest (replicate 32 0)] lg' =
        Inr (r, lg''))"
proof -
  have "\<exists>r lg''. finalize_batch (example_env :: (nat, nat, nat) env) (SeqNo 5) [Digest (replicate 32 0)]
      (fold (\<lambda>(h, m). log_push h m) [example_proposal, example_prepare 1, example_prepare 2,
        example_commit 1, example_commit 2, example_commit 3] example_log) = Inr (r, lg'')"
    by (simp add: finalize_batch_def log_push_def example_proposal_def example_prepare_def example_commit_def
        omap_laws [OF list_omap_ok] last_seq_no_def Let_def seq_to_u32_def PERIOD_def decision_log_new_def)
  then show ?thesis using example_run_of [where i = 1 and j = 2 and k = 3] by blast
qed

theorem decided_certificate_witness:
  "\<exists>c lg nd c' lg' nd'.
     (instance_step (example_env :: (nat, nat, nat) env) (example_view (SeqNo 0)))\<^sup>*\<^sup>*
       (consensus_new (SeqNo 5) 1, example_log, example_node) (c, lg, nd) \<and>
     consensus_process_message example_env (fst (example_commit 3)) (snd (example_commit 3))
       (example_view (SeqNo 0)) lg nd c = Inr (CS_Decided [Digest (replicate 32 0)], c', lg', nd') \<and>
     length (dl_prepares (lg_declog lg')) = 2 \<and> length (dl_commits (lg_declog lg')) = 3"
proof -
  obtain c lg nd c' lg' nd' where run: "(instance_step (example_env :: (nat, nat, nat) env) (example_view (SeqNo 0)))\<^sup>*\<^sup>*
      (consensus_new (SeqNo 5) 1, example_log, example_node) (c, lg, nd)"
    and dec: "consensus_process_message example_env (fst (example_commit 3)) (snd (example_commit 3))
       (example_view (SeqNo 0)) lg nd c = Inr (CS_Decided [Digest (replicate 32 0)], c', lg', nd')"
    using example_run by blast
  have "co_phase (consensus_new (SeqNo 5) 1) = Phase_Init" by (simp add: consensus_new_def)
  from decided_certificate [OF run this dec]
  have "length (dl_prepares (lg_declog lg')) = 2 \<and> length (dl_commits (lg_declog lg')) = 3"
    by (auto simp: decision_log_new_def)
  with run dec show ?thesis by blast
qed

text \<open>
  C5. A decision can be proved to others. After an instance that started idle has decided
  and its batch has been finalised, \<open>last_decision\<close> returns a proof of it: no panic and not
  absent, with a pre-prepare that proposes exactly the decided batch, at least \<open>2f\<close>
  prepares and at least a quorum of commits.
\<close>

theorem decided_has_proof:
  assumes "(instance_step env view)\<^sup>*\<^sup>* (c0, lg0, nd0) (c, lg, nd)" and "co_phase c0 = Phase_Init"
    and "consensus_process_message env h m view lg nd c = Inr (CS_Decided ds, c', lg', nd')"
    and "finalize_batch env (co_seq c0) ds lg' = Inr (r, lg'')" and "params_wf (vi_params view)"
  shows "\<exists>pf. last_decision (lg_declog lg'') view = Inr (Some pf) \<and>
    vote_of (co_seq c0) (vi_seq view) (PrePrepare ds) (pf_pre_prepare pf) \<and>
    2 * view_f view \<le> length (pf_prepares pf) \<and> view_quorum view \<le> length (pf_commits pf)"
proof -
  let ?s = "co_seq c0" and ?v = "vi_seq view" and ?dl = "lg_declog lg''"
  have "instance_inv ?s view (lg_declog lg0) (c, lg, nd)"
    by (rule deciding.reachable_kept [OF assms(1) instance_inv_init [OF assms(2)]])
  from decided_votes [OF this assms(3)] obtain pp ps cs where
    dl: "lg_declog lg' = declog_plus (lg_declog lg0) [pp] ps cs" and pp: "vote_of ?s ?v (PrePrepare ds) pp"
    and q: "ps \<noteq> []" "length ps + 1 = view_quorum view" "length cs = view_quorum view"
    and votes: "\<forall>m \<in> set ps. vote_of ?s ?v (Prepare (header_digest (sm_header pp))) m"
      "\<forall>m \<in> set cs. vote_of ?s ?v (Commit (header_digest (sm_header pp))) m" by blast
  have quorum: "view_quorum view = 2 * view_f view + 1" by (rule quorum_wf [OF assms(5)])
  have exec: "dl_last_exec ?dl = Some ?s" "dl_pre_prepares ?dl = dl_pre_prepares (lg_declog lg0) @ [pp]"
    "dl_prepares ?dl = dl_prepares (lg_declog lg0) @ ps" "dl_commits ?dl = dl_commits (lg_declog lg0) @ cs"
    using finalize_batch_declog [OF assms(4)] dl by (simp_all add: declog_plus_def)
  have seqs: "\<forall>m \<in> set ps. stored_seq m = ?s \<and> stored_view m = ?v"
    "\<forall>m \<in> set cs. stored_seq m = ?s \<and> stored_view m = ?v" "stored_seq pp = ?s"
    using votes pp by (auto simp: vote_of_def)
  have "cs \<noteq> []" using q(3) quorum by auto
  then have len: "2 * view_f view \<le> length (last_block ?s (dl_prepares ?dl))"
    "view_quorum view \<le> length (last_block ?s (dl_commits ?dl))"
    using last_block_append [OF q(1) seqs(1)] last_block_append [OF _ seqs(2)] q quorum
    by (simp_all add: exec)
  have wrap: "usize_wrap (2 * view_f view) = 2 * view_f view" using assms(5) by (simp add: params_wf_def)
  have "find (\<lambda>m. stored_seq m = ?s) (rev (dl_pre_prepares ?dl)) = Some pp"
    by (simp add: exec seqs)
  then show ?thesis
    using len pp by (simp add: last_decision_def exec(1) last_votes_scan_eq wrap Let_def)
qed

theorem decided_has_proof_witness:
  "\<exists>lg'' pf. last_decision (lg_declog (lg'' :: (nat, nat) log)) (example_view (SeqNo 0)) = Inr (Some pf) \<and>
     vote_of (SeqNo 5) (SeqNo 0) (PrePrepare [Digest (replicate 32 0)]) (pf_pre_prepare pf)"
proof -
  let ?env = "example_env :: (nat, nat, nat) env" and ?c0 = "consensus_new (SeqNo 5) 1" and ?ds = "[Digest (replicate 32 0)]"
  obtain c lg nd c' lg' nd' where run: "(instance_step ?env (example_view (SeqNo 0)))\<^sup>*\<^sup>*
      (?c0, example_log, example_node) (c, lg, nd)"
    and dec: "consensus_process_message example_env (fst (example_commit 3)) (snd (example_commit 3))
       (example_view (SeqNo 0)) lg nd c = Inr (CS_Decided ?ds, c', lg', nd')"
    and fin: "\<exists>r lg''. finalize_batch ?env (SeqNo 5) ?ds lg' = Inr (r, lg'')"
    using example_run by blast
  have init: "co_phase ?c0 = Phase_Init" "co_seq ?c0 = SeqNo 5"
    by (simp_all add: consensus_new_def tbo_queue_new_def)
  from fin obtain r lg'' where "finalize_batch ?env (SeqNo 5) ?ds lg' = Inr (r, lg'')" by blast
  then have "finalize_batch ?env (co_seq ?c0) ?ds lg' = Inr (r, lg'')" unfolding init(2) .
  from decided_has_proof [OF run init(1) dec this example_view_wf] show ?thesis
    unfolding init(2) by auto
qed



text \<open>
  No decision without faults. With \<open>f = 0\<close>, which the parameters accept, no instance
  that starts idle ever decides: the proposal already counts as the one vote needed, but a
  count is only compared after another vote has been added to it.
\<close>

theorem no_decision_without_faults:
  assumes "(instance_step env view)\<^sup>*\<^sup>* (c0, lg0, nd0) (c, lg, nd)" and "co_phase c0 = Phase_Init"
    and "view_f view = 0"
  shows "consensus_process_message env h m view lg nd c \<noteq> Inr (CS_Decided ds, r)"
proof
  assume dec: "consensus_process_message env h m view lg nd c = Inr (CS_Decided ds, r)"
  obtain c' lg' nd' where r: "r = (c', lg', nd')" by (cases r)
  have "instance_inv (co_seq c0) view (lg_declog lg0) (c, lg, nd)"
    by (rule deciding.reachable_kept [OF assms(1) instance_inv_init [OF assms(2)]])
  from decided_votes [OF this dec [unfolded r]] obtain ps :: "stored_consensus list"
    where "ps \<noteq> []" "length ps + 1 = view_quorum view" by blast
  then have "view_quorum view \<ge> 2" by (cases ps) auto
  moreover have "view_quorum view = 1" using assms(3) by (simp add: quorum_def)
  ultimately show False by simp
qed

theorem no_decision_without_faults_witness:
  "system_params_new 1 0 = Inr \<lparr>sp_n = 1, sp_f = 0\<rparr> \<and>
   consensus_process_message (example_env :: (nat, nat, nat) env) (fst (example_commit 3)) (snd (example_commit 3))
     \<lparr>vi_seq = SeqNo 0, vi_params = \<lparr>sp_n = 1, sp_f = 0\<rparr>\<rparr> example_log example_node (consensus_new (SeqNo 5) 1)
     \<noteq> Inr (CS_Decided [], undefined)"
  using no_decision_without_faults [of example_env "\<lparr>vi_seq = SeqNo 0, vi_params = \<lparr>sp_n = 1, sp_f = 0\<rparr>\<rparr>"
      "consensus_new (SeqNo 5) 1" example_log example_node "consensus_new (SeqNo 5) 1" example_log example_node]
  by (simp add: consensus_new_def system_params_new_def)

text \<open>
  C39. Votes are counted, voters are not. In the committing phase, any message that passes
  the checks once passes them again: as many copies of one commit as the quorum needs,
  all from one sender, decide the instance. The status for a double vote is never returned.
\<close>

theorem one_voter_decides:
  assumes "co_phase c = Phase_Committing 0" and "co_batch_size c \<le> length (co_current c)"
    and "cm_kind m = Commit (co_current_digest c)" and "cm_view m = vi_seq view" and "cm_seq m = co_seq c"
    and "params_wf (vi_params view)"
  shows "(\<exists>c' lg'. process_votes env view (replicate (view_quorum view) (h, m)) (c, lg, nd) =
      Inr (CS_Decided (take (co_batch_size c) (co_current c)), c', lg', nd)) \<and>
    (\<forall>h m lg nd c i r. consensus_process_message env h m view lg nd c \<noteq> Inr (CS_VotedTwice i, r))"
proof
  show "\<exists>c' lg'. process_votes env view (replicate (view_quorum view) (h, m)) (c, lg, nd) =
      Inr (CS_Decided (take (co_batch_size c) (co_current c)), c', lg', nd)"
    by (rule repeated_commit [OF assms(1-5)]) (simp_all add: quorum_wf [OF assms(6)])
  have "consensus_process_message env h m view lg nd c \<noteq> Inr (CS_VotedTwice i, r)" for h m lg nd c i r
    by (cases "co_phase c") (auto simp: consensus_process_message_def process_pre_preparing_def
        process_preparing_def process_committing_def Let_def res_simps
        split: consensus_message_kind.splits if_splits)
  then show "\<forall>h m lg nd c i r. consensus_process_message env h m view lg nd c \<noteq> Inr (CS_VotedTwice i, r)"
    by blast
qed

theorem one_voter_decides_witness:
  "\<exists>c' lg'. process_votes (example_env :: (nat, nat, nat) env) (example_view (SeqNo 0))
      (replicate 3 (example_commit 2))
      ((consensus_new (SeqNo 5) 1)\<lparr>co_phase := Phase_Committing 0, co_current_digest := Digest (replicate 32 7)\<rparr>,
       example_log, example_node) = Inr (CS_Decided [], c', lg', example_node)"
  using one_voter_decides [of
      "(consensus_new (SeqNo 5) 1)\<lparr>co_phase := Phase_Committing 0, co_current_digest := Digest (replicate 32 7)\<rparr>"
      "snd (example_commit 2)" "example_view (SeqNo 0)" "example_env :: (nat, nat, nat) env" "fst (example_commit 2)" example_log example_node]
  by (simp add: example_view_wf example_commit_def consensus_new_def tbo_queue_new_def)

text \<open>
  Waiting for requests. Polling while client requests are missing never forgets a
  digest whose request has not arrived: it only takes out digests of requests the log
  holds. When all \<open>n\<close> of them have arrived, one poll still leaves \<open>n div 2\<close> digests
  behind, because the indices to remove are taken in increasing order from a deque that
  shrinks from the back; \<open>k\<close> polls leave \<open>n div 2 ^ k\<close>.
\<close>

theorem poll_missing_requests:
  assumes "co_missing_swapbuf c = []"
  shows "(\<exists>removed. mset (co_missing_requests c) = mset removed + mset (co_missing_requests (poll_missing env lg c)) \<and>
       (\<forall>d \<in> set removed. has_request env lg d)) \<and>
    ((\<forall>d \<in> set (co_missing_requests c). has_request env lg d) \<longrightarrow>
       length (co_missing_requests ((poll_missing env lg ^^ k) c)) = length (co_missing_requests c) div 2 ^ k)"
proof
  have missing: "co_missing_requests (poll_missing env lg c) =
      swap_remove_back_each (received_indices env lg (co_missing_requests c)) (co_missing_requests c)"
    if "co_missing_swapbuf c = []" for c
    using that by (simp add: poll_missing_def Let_def)
  have only: "\<exists>removed. mset (co_missing_requests c) = mset removed + mset (co_missing_requests (poll_missing env lg c)) \<and>
       (\<forall>d \<in> set removed. has_request env lg d)" if "co_missing_swapbuf c = []" for c
    unfolding missing [OF that]
    by (rule swap_remove_back_each_only) (auto dest: received_indices_props(3) simp: received_indices_props)
  then show "\<exists>removed. mset (co_missing_requests c) = mset removed + mset (co_missing_requests (poll_missing env lg c)) \<and>
       (\<forall>d \<in> set removed. has_request env lg d)" using assms by blast
  have empty: "co_missing_swapbuf (poll_missing env lg c) = []" for c by (simp add: poll_missing_def Let_def)
  show "(\<forall>d \<in> set (co_missing_requests c). has_request env lg d) \<longrightarrow>
       length (co_missing_requests ((poll_missing env lg ^^ k) c)) = length (co_missing_requests c) div 2 ^ k"
    using assms
  proof (induction k arbitrary: c)
    case (Suc k)
    show ?case
    proof
      let ?c = "poll_missing env lg c"
      assume all: "\<forall>d \<in> set (co_missing_requests c). has_request env lg d"
      have "length (co_missing_requests ?c) = length (co_missing_requests c) div 2"
        using missing [OF Suc.prems] received_indices_all [OF all]
          swap_remove_back_each_upt [of 0 "length (co_missing_requests c)" "co_missing_requests c"] by simp
      moreover have "\<forall>d \<in> set (co_missing_requests ?c). has_request env lg d"
        using only [OF Suc.prems] all by (metis in_multiset_in_set union_iff)
      ultimately show "length (co_missing_requests ((poll_missing env lg ^^ Suc k) c)) =
          length (co_missing_requests c) div 2 ^ Suc k"
        using Suc.IH [of ?c] empty by (simp add: funpow_swap1 div_mult2_eq)
    qed
  qed simp
qed

theorem poll_missing_requests_witness:
  "length (co_missing_requests ((poll_missing (example_env :: (nat, nat, nat) env) example_log ^^ 1)
     ((consensus_new (SeqNo 5) 1)\<lparr>co_missing_requests := replicate 4 (Digest (replicate 32 0))\<rparr>))) = 2"
  using poll_missing_requests [of "(consensus_new (SeqNo 5) 1)\<lparr>co_missing_requests := replicate 4 (Digest (replicate 32 0))\<rparr>"
      "example_env :: (nat, nat, nat) env" example_log 1]
  by (simp add: consensus_new_def example_has_request)

text \<open>
  C40. A replica can be kept spinning. While pre-preparing, a queued pre-prepare of the
  current view whose sequence number differs from the current one by \<open>2 ^ 31\<close> is taken
  from the queue, put back at the same place, and the signal that follows every processed
  message brings the consensus state back to exactly where it was: the replica polls this
  message forever and never receives another one.
\<close>

theorem aliased_proposal_livelock:
  assumes "co_phase c = Phase_PrePreparing" and "tbo_at (tq_pre_prepares (co_tbo c)) 0 = []"
    and "cm_kind m = PrePrepare ds" and "cm_view m = vi_seq view"
    and "seq_index (cm_seq m) (co_seq c) = Inr 0" and "cm_seq m \<noteq> co_seq c"
  shows "\<exists>c1 c2. consensus_poll env lg (consensus_signal (consensus_queue h m c)) = (CPS_NextMessage h m, c1) \<and>
    consensus_process_message env h m view lg nd c1 = Inr (CS_Deciding, c2, lg, nd) \<and>
    consensus_signal c2 = consensus_signal (consensus_queue h m c)"
proof -
  define stuck where "stuck = consensus_signal (consensus_queue h m c)"
  obtain q where q: "tbo_pop_message (tbo_queue_message consensus_sn (co_seq c) (tq_pre_prepares (co_tbo c))
      (StoredMessage h m)) = (Some (StoredMessage h m), q)"
    "tbo_queue_message consensus_sn (co_seq c) q (StoredMessage h m) =
      tbo_queue_message consensus_sn (co_seq c) (tq_pre_prepares (co_tbo c)) (StoredMessage h m)"
    using queue_then_pop [OF assms(2), of consensus_sn "StoredMessage h m" "co_seq c"] assms(5) by auto
  let ?c1 = "stuck\<lparr>co_tbo := (co_tbo stuck)\<lparr>tq_pre_prepares := q\<rparr>\<rparr>"
  have "consensus_poll env lg stuck = (CPS_NextMessage h m, ?c1)"
    using assms(1,3) q by (simp add: consensus_poll_def extract_pre_prepare_def stuck_def consensus_signal_def
        tbo_signal_def consensus_queue_def queue_consensus_def queue_pre_prepare_def)
  moreover have "consensus_process_message env h m view lg nd ?c1 =
      Inr (CS_Deciding, ?c1\<lparr>co_tbo := queue_pre_prepare h m (co_tbo ?c1)\<rparr>, lg, nd)"
    using assms by (simp add: consensus_process_message_def process_pre_preparing_def stuck_def
        consensus_signal_def tbo_signal_def consensus_queue_def queue_consensus_def queue_pre_prepare_def)
  moreover have "consensus_signal (?c1\<lparr>co_tbo := queue_pre_prepare h m (co_tbo ?c1)\<rparr>) = stuck"
    using assms(3) q by (simp add: stuck_def consensus_signal_def tbo_signal_def consensus_queue_def
        queue_consensus_def queue_pre_prepare_def)
  ultimately show ?thesis unfolding stuck_def by blast
qed

theorem aliased_proposal_livelock_witness:
  "\<exists>m c1 c2. cm_seq m = SeqNo 0x80000005 \<and>
     consensus_poll (example_env :: (nat, nat, nat) env) example_log
       (consensus_signal (consensus_queue (example_header 3) m ((consensus_new (SeqNo 5) 1)\<lparr>co_phase := Phase_PrePreparing\<rparr>)))
       = (CPS_NextMessage (example_header 3) m, c1) \<and>
     consensus_signal c2 =
       consensus_signal (consensus_queue (example_header 3) m ((consensus_new (SeqNo 5) 1)\<lparr>co_phase := Phase_PrePreparing\<rparr>))"
proof -
  let ?c = "(consensus_new (SeqNo 5) 1)\<lparr>co_phase := Phase_PrePreparing\<rparr>"
  let ?m = "\<lparr>cm_seq = SeqNo 0x80000005, cm_view = SeqNo 0, cm_kind = PrePrepare []\<rparr>"
  have c: "co_phase ?c = Phase_PrePreparing" "tbo_at (tq_pre_prepares (co_tbo ?c)) 0 = []" "co_seq ?c = SeqNo 5"
    by (simp_all add: consensus_new_def tbo_queue_new_def tbo_at_def)
  have m: "cm_kind ?m = PrePrepare []" "cm_view ?m = vi_seq (example_view (SeqNo 0))" by simp_all
  have "seq_index (SeqNo 0x80000005) (SeqNo 5) = Inr 0" by (simp add: seq_index_Inr)
  then have seq: "seq_index (cm_seq ?m) (co_seq ?c) = Inr 0" "cm_seq ?m \<noteq> co_seq ?c"
    unfolding c(3) by simp_all
  from aliased_proposal_livelock [OF c(1,2) m seq, of "example_env :: (nat, nat, nat) env" example_log
      "example_header 3" example_node]
  show ?thesis by (intro exI [of _ ?m]) auto
qed



text \<open>
  A short batch waits for requests nobody proposed. When the accepted proposal has
  fewer digests than the buffer of the current batch and the log does not hold the request
  of a digest left behind it, the instance waits for that request: the scan for missing
  requests runs over the whole buffer and not over the batch.
\<close>

theorem short_batch_waits:
  assumes "co_phase c = Phase_PrePreparing" and "cm_kind m = PrePrepare ds" and "cm_view m = vi_seq view"
    and "cm_seq m = co_seq c" and "length ds < length (co_current c)"
    and "d \<in> set (drop (length ds) (co_current c))" and "\<not> has_request env lg d"
    and "consensus_process_message env h m view lg nd c = Inr (st, c', lg', nd')"
  shows "co_phase c' = Phase_PreparingRequests \<and> d \<in> set (co_missing_requests c') \<and>
    (\<forall>h m. \<exists>c''. consensus_process_message env h m view lg' nd' c' = Inr (CS_Deciding, c'', lg', nd') \<and>
       co_phase c'' = Phase_PreparingRequests)"
proof -
  have c': "co_missing_requests c' = co_missing_requests c @ filter (\<lambda>d. \<not> has_request env lg d) (co_current c')"
    "co_current c' = ds @ drop (length ds) (co_current c)"
    "co_phase c' = (if co_missing_requests c' = [] then Phase_Preparing 1 else Phase_PreparingRequests)"
    using assms by (auto simp: consensus_process_message_def process_pre_preparing_def copy_current_def Let_def
        res_simps split: if_splits)
  then have d: "d \<in> set (co_missing_requests c')" using assms(6,7) by auto
  then have "co_phase c' = Phase_PreparingRequests" using c'(3) by (auto split: if_splits)
  with d show ?thesis by (simp add: consensus_process_message_def consensus_queue_def)
qed

theorem short_batch_waits_witness:
  "\<exists>c' lg'. consensus_process_message (example_env :: (nat, nat, nat) env) (fst example_proposal) (snd example_proposal)
       (example_view (SeqNo 0)) (example_log\<lparr>lg_requests := []\<rparr>) example_node
       ((consensus_new (SeqNo 5) 2)\<lparr>co_phase := Phase_PrePreparing\<rparr>) = Inr (CS_Deciding, c', lg', example_node) \<and>
     co_phase c' = Phase_PreparingRequests"
proof -
  let ?env = "example_env :: (nat, nat, nat) env" and ?lg = "example_log\<lparr>lg_requests := []\<rparr>"
  let ?c = "(consensus_new (SeqNo 5) 2)\<lparr>co_phase := Phase_PrePreparing\<rparr>"
  have lead: "leader (example_view (SeqNo 0)) = nd_id (example_node :: (nat, nat, nat) node)"
    by (simp add: leader_def seq_to_usize_def i32_as_usize_def node_of_usize_def example_node_def)
  have no: "\<not> has_request ?env ?lg d" for d
    by (simp add: has_request_def hmap_contains_def omap_laws [OF list_omap_ok])
  obtain c' lg' where run: "consensus_process_message ?env (fst example_proposal) (snd example_proposal)
       (example_view (SeqNo 0)) ?lg example_node ?c = Inr (CS_Deciding, c', lg', example_node)"
    by (simp add: consensus_process_message_def process_pre_preparing_def copy_current_def example_proposal_def
        consensus_new_def tbo_queue_new_def lead Let_def)
  have "co_phase c' = Phase_PreparingRequests"
    using short_batch_waits [OF _ _ _ _ _ _ no run, of "[Digest (replicate 32 0)]" zero_digest]
    by (simp add: example_proposal_def consensus_new_def tbo_queue_new_def)
  with run show ?thesis by blast
qed

end
