(* ===== verification/Stopping.thy ===== *)
theory Stopping
  imports Sync Certificates
begin

text \<open>
  The first phase of a view change (\<open>src/bft/sync/mod.rs\<close>): timers of client requests,
  how \<open>STOP\<close> messages are counted, what a quorum of them does, and what happens to
  \<open>STOP-DATA\<close> messages that arrive before it.
\<close>

section \<open>Sequences of messages\<close>

fun process_view_changes ::
  "('s, 'o, 'p, 'z) env_scheme \<Rightarrow> instant \<Rightarrow> seed \<Rightarrow> (header \<times> 'o view_change_message) list
     \<Rightarrow> sync_status \<times> ('s, 'o, 'p) sync_world \<Rightarrow> ('s, 'o, 'p) sync_result" where
  "process_view_changes env now seed [] r = Inr r"
| "process_view_changes env now seed (x # xs) (_, w) =
     bind_res (sync_process_message env now seed (fst x) (snd x) w) (process_view_changes env now seed xs)"

lemma process_view_changes_append:
  "process_view_changes env now seed (xs @ ys) r =
     bind_res (process_view_changes env now seed xs r) (process_view_changes env now seed ys)"
proof (induction xs arbitrary: r)
  case (Cons x xs)
  obtain st w where r: "r = (st, w)" by (cases r)
  show ?case
    by (cases "sync_process_message env now seed (fst x) (snd x) w") (simp_all add: r Cons.IH)
qed simp

definition is_stop :: "view_info \<Rightarrow> header \<times> 'o view_change_message \<Rightarrow> bool" where
  "is_stop view x \<longleftrightarrow> vc_view (snd x) = seq_next (vi_seq view) \<and> (\<exists>rs. vc_kind (snd x) = Stop rs)"

definition stop_sender :: "header \<times> 'o view_change_message \<Rightarrow> node_id" where
  "stop_sender x = header_from (fst x)"

section \<open>Counting\<close>

definition stop_counted ::
  "(usize \<Rightarrow> sync_phase) \<Rightarrow> usize \<Rightarrow> node_id \<Rightarrow> 'o stored_request list \<Rightarrow> 'o synchronizer \<Rightarrow> 'o synchronizer" where
  "stop_counted ph i sender rs sy =
     sy\<lparr>sy_stopped := hmap_insert sender rs (sy_stopped sy), sy_phase := ph (i + 1)\<rparr>"

lemma stop_counted_simps [simp]:
  "sy_phase (stop_counted ph i k rs sy) = ph (i + 1)"
  "sy_tbo (stop_counted ph i k rs sy) = sy_tbo sy"
  "hmap_contains (sy_stopped (stop_counted ph i k rs sy)) k' \<longleftrightarrow> k' = k \<or> hmap_contains (sy_stopped sy) k'"
  by (simp_all add: stop_counted_def hmap_contains_insert)

lemma stop_joins:
  assumes "sy_phase sy = SP_Stopping i" and "is_stop (sync_view sy) x"
    and "\<not> hmap_contains (sy_stopped sy) (stop_sender x)" and "i + 1 \<le> view_f (sync_view sy)"
  shows "\<exists>st rs. sync_process_message env now seed (fst x) (snd x) (sy, rest) =
    Inr (st, stop_counted SP_Stopping i (stop_sender x) rs sy, rest)"
proof -
  obtain rs where "vc_kind (snd x) = Stop rs" "vc_view (snd x) = seq_next (vi_seq (sync_view sy))"
    using assms(2) by (auto simp: is_stop_def)
  with assms(1,3,4) show ?thesis
    by (intro exI [of _ SS_Nil] exI [of _ rs], cases rest)
      (simp add: sync_process_message_def process_stopping_def stop_sender_def stop_counted_def)
qed

lemma stop_counts:
  assumes "sy_phase sy = SP_Stopping2 i" and "is_stop (sync_view sy) x"
    and "\<not> hmap_contains (sy_stopped sy) (stop_sender x)" and "i + 1 \<noteq> view_quorum (sync_view sy)"
  shows "\<exists>st rs. sync_process_message env now seed (fst x) (snd x) (sy, rest) =
    Inr (st, stop_counted SP_Stopping2 i (stop_sender x) rs sy, rest)"
proof -
  obtain rs where "vc_kind (snd x) = Stop rs" "vc_view (snd x) = seq_next (vi_seq (sync_view sy))"
    using assms(2) by (auto simp: is_stop_def)
  with assms(1,3,4) show ?thesis
    by (intro exI [of _ SS_Running] exI [of _ rs], cases rest)
      (simp add: sync_process_message_def process_stopping_def stop_sender_def stop_counted_def)
qed

lemma stops_counted:
  assumes step: "\<And>sy i x. sy_phase sy = ph i \<Longrightarrow> is_stop (sync_view sy) x \<Longrightarrow>
      \<not> hmap_contains (sy_stopped sy) (stop_sender x) \<Longrightarrow> sync_view sy = view \<Longrightarrow> i + 1 \<le> bound \<Longrightarrow>
      \<exists>st rs. sync_process_message env now seed (fst x) (snd x) (sy, rest) =
        Inr (st, stop_counted ph i (stop_sender x) rs sy, rest)"
    and "sy_phase sy = ph i" and "\<forall>x \<in> set xs. is_stop view x" and "sync_view sy = view"
    and "distinct (map stop_sender xs)" and "\<forall>x \<in> set xs. \<not> hmap_contains (sy_stopped sy) (stop_sender x)"
    and "i + length xs \<le> bound"
  shows "\<exists>st' sy'. process_view_changes env now seed xs (st, sy, rest) = Inr (st', sy', rest) \<and>
    sy_phase sy' = ph (i + length xs) \<and> sync_view sy' = view \<and>
    (\<forall>k. hmap_contains (sy_stopped sy') k \<longleftrightarrow> hmap_contains (sy_stopped sy) k \<or> k \<in> stop_sender ` set xs)"
  using assms(2-)
proof (induction xs arbitrary: sy st i)
  case (Cons x xs)
  have "is_stop (sync_view sy) x" "\<not> hmap_contains (sy_stopped sy) (stop_sender x)" "i + 1 \<le> bound"
    using Cons.prems by simp_all
  from step [OF Cons.prems(1) this(1,2) Cons.prems(3) this(3)] obtain st1 rs
    where 1: "sync_process_message env now seed (fst x) (snd x) (sy, rest) =
      Inr (st1, stop_counted ph i (stop_sender x) rs sy, rest)" by blast
  let ?sy = "stop_counted ph i (stop_sender x) rs sy"
  have "stop_sender y \<noteq> stop_sender x" if "y \<in> set xs" for y
    using Cons.prems(4) imageI [OF that, of stop_sender] by auto
  then have "\<forall>y \<in> set xs. \<not> hmap_contains (sy_stopped ?sy) (stop_sender y)"
    using Cons.prems(5) by simp
  then obtain st' sy' where "process_view_changes env now seed xs (st1, ?sy, rest) = Inr (st', sy', rest)"
    "sy_phase sy' = ph (i + 1 + length xs)" "sync_view sy' = view"
    "\<forall>k. hmap_contains (sy_stopped sy') k \<longleftrightarrow> hmap_contains (sy_stopped ?sy) k \<or> k \<in> stop_sender ` set xs"
    using Cons.IH [of ?sy "i + 1" st1] Cons.prems(2-4,6) by auto
  with 1 show ?case by (simp add: disj_left_commute)
qed simp

lemma stops_join:
  assumes "sy_phase sy = SP_Stopping i" and "\<forall>x \<in> set xs. is_stop view x" and "sync_view sy = view"
    and "distinct (map stop_sender xs)" and "\<forall>x \<in> set xs. \<not> hmap_contains (sy_stopped sy) (stop_sender x)"
    and "i + length xs \<le> view_f view"
  shows "\<exists>st' sy'. process_view_changes env now seed xs (st, sy, rest) = Inr (st', sy', rest) \<and>
    sy_phase sy' = SP_Stopping (i + length xs) \<and> sync_view sy' = view \<and>
    (\<forall>k. hmap_contains (sy_stopped sy') k \<longleftrightarrow> hmap_contains (sy_stopped sy) k \<or> k \<in> stop_sender ` set xs)"
  by (rule stops_counted [where ph = SP_Stopping and bound = "view_f view", OF _ assms(1-6)]) (rule stop_joins; simp)

lemma stops_vote:
  assumes "sy_phase sy = SP_Stopping2 i" and "\<forall>x \<in> set xs. is_stop view x" and "sync_view sy = view"
    and "distinct (map stop_sender xs)" and "\<forall>x \<in> set xs. \<not> hmap_contains (sy_stopped sy) (stop_sender x)"
    and "i + length xs \<le> view_quorum view - 1" and "0 < view_quorum view"
  shows "\<exists>st' sy'. process_view_changes env now seed xs (st, sy, rest) = Inr (st', sy', rest) \<and>
    sy_phase sy' = SP_Stopping2 (i + length xs) \<and> sync_view sy' = view \<and>
    (\<forall>k. hmap_contains (sy_stopped sy') k \<longleftrightarrow> hmap_contains (sy_stopped sy) k \<or> k \<in> stop_sender ` set xs)"
  by (rule stops_counted [where ph = SP_Stopping2 and bound = "view_quorum view - 1", OF _ assms(1-6)])
    (rule stop_counts; use assms(7) in simp)

section \<open>Our own \<open>STOP\<close>, and a quorum of them\<close>

lemma stopped_requests_frame:
  "stopped_requests env None sy = (rs, sy') \<Longrightarrow> sy' = sy\<lparr>sy_stopped := []\<rparr>"
  by (simp add: stopped_requests_def Let_def)

lemma begin_view_change_joins:
  assumes "serializes env" and "connected nd (view_targets (sync_view sy))" and "sy_phase sy = SP_Stopping i"
  shows "\<exists>sy' rng ts. begin_view_change env None nd sy =
      Inr (sy', nd\<lparr>nd_rng := rng, nd_tasks := nd_tasks nd @ ts\<rparr>) \<and>
    sy_phase sy' = SP_Stopping2 (i + 1) \<and> sy_stopped sy' = [] \<and> sync_view sy' = sync_view sy"
proof -
  let ?sy = "unwatch_all_requests (sy\<lparr>sy_phase := SP_Stopping2 (Suc i)\<rparr>)"
  obtain rs where rs: "stopped_requests env None ?sy = (rs, ?sy\<lparr>sy_stopped := []\<rparr>)"
    using stopped_requests_frame by (metis surj_pair)
  have view: "sync_view ?sy = sync_view sy" by (simp add: unwatch_all_requests_def next_timeout_def)
  obtain d rng ts where b: "node_broadcast env
      (SM_ViewChange (ViewChangeMessage (seq_next (vi_seq (sync_view sy))) (Stop rs)))
      (view_targets (sync_view sy)) nd = Inr (d, nd\<lparr>nd_rng := rng, nd_tasks := nd_tasks nd @ ts\<rparr>)"
    using broadcast_ok [OF assms(1,2)] by blast
  have "begin_view_change env None nd sy =
      Inr (?sy\<lparr>sy_stopped := []\<rparr>, nd\<lparr>nd_rng := rng, nd_tasks := nd_tasks nd @ ts\<rparr>)"
    by (simp add: begin_view_change_def assms(3) rs view b)
  then show ?thesis
    by (intro exI [of _ "?sy\<lparr>sy_stopped := []\<rparr>"] exI [of _ rng] exI [of _ ts])
      (simp add: unwatch_all_requests_def next_timeout_def)
qed

lemma add_stopped_loop_frame:
  "add_stopped_loop env rs (sy, lg) = (sy', lg') \<Longrightarrow>
     lg_declog lg' = lg_declog lg \<and> sy_tbo sy' = sy_tbo sy \<and> sy_phase sy' = sy_phase sy"
  by (induction rs arbitrary: sy lg) auto

lemma add_stopped_requests_frame:
  "add_stopped_requests env lg sy = (sy', lg') \<Longrightarrow> lg_declog lg' = lg_declog lg \<and> sy_tbo sy' = sy_tbo sy"
  using add_stopped_loop_frame [of env _ "sy\<lparr>sy_stopped := []\<rparr>" lg sy' lg']
  by (auto simp: add_stopped_requests_def stopped_requests_def Let_def)

lemma watch_all_requests_frame:
  "watch_all_requests now th sy = (sy', th') \<Longrightarrow> sy_tbo sy' = sy_tbo sy"
  by (auto simp: watch_all_requests_def start_timer_def next_timeout_def Let_def split: if_splits)

lemma stop_quorum_ok:
  assumes "serializes env" and "connected nd (view_targets (sync_view sy))" and "0 < view_n (sync_view sy)"
    and "collect_data_of (lg_declog lg) (next_view (sync_view sy)) = Inr cd"
  shows "\<exists>sy' th' lg' nd'. stop_quorum env now (sy, th, lg, c, nd) = Inr (sy', th', lg', c, nd') \<and>
    sync_view sy' = next_view (sync_view sy) \<and> sy_phase sy' =
      (if nd_id nd \<noteq> leader (next_view (sync_view sy)) then SP_Syncing else SP_StoppingData 0)"
proof -
  obtain sy1 lg1 where 1: "add_stopped_requests env lg sy = (sy1, lg1)" by fastforce
  obtain sy2 th2 where 2: "watch_all_requests now th sy1 = (sy2, th2)" by fastforce
  note f = add_stopped_requests_frame [OF 1] watch_all_requests_frame [OF 2]
  have "leader (next_view (sync_view sy)) \<in> set (view_targets (sync_view sy))"
    using leader_member [of "next_view (sync_view sy)"] assms(3) by simp
  then have "connected nd [leader (next_view (sync_view sy))]"
    using connected_mono [OF assms(2)] by simp
  from send_ok [OF assms(1) this] obtain d rng ts where
    3: "node_send env (SM_ViewChange (ViewChangeMessage (vi_seq (next_view (sync_view sy))) (StopData cd)))
      (leader (next_view (sync_view sy))) nd = Inr (d, nd\<lparr>nd_rng := rng, nd_tasks := nd_tasks nd @ ts\<rparr>)"
    by blast
  show ?thesis
    using assms(4) 3 by (simp add: stop_quorum_def 1 2 f install_view_def)
qed

lemma stop_reaches_quorum:
  assumes "sy_phase sy = SP_Stopping2 i" and "is_stop (sync_view sy) x"
    and "\<not> hmap_contains (sy_stopped sy) (stop_sender x)" and "i + 1 = view_quorum (sync_view sy)"
  shows "\<exists>rs. sync_process_message env now seed (fst x) (snd x) (sy, th, lg, c, nd) =
    bind_res (stop_quorum env now (sy\<lparr>sy_stopped := hmap_insert (stop_sender x) rs (sy_stopped sy)\<rparr>, th, lg, c, nd))
      (\<lambda>w. Inr (SS_Running, w))"
proof -
  obtain rs where "vc_kind (snd x) = Stop rs" "vc_view (snd x) = seq_next (vi_seq (sync_view sy))"
    using assms(2) by (auto simp: is_stop_def)
  with assms(1,3,4) show ?thesis
    by (intro exI [of _ rs]) (simp add: sync_process_message_def process_stopping_def stop_sender_def)
qed

lemma stop_starts_ours:
  assumes "sy_phase sy = SP_Stopping i" and "is_stop (sync_view sy) x"
    and "\<not> hmap_contains (sy_stopped sy) (stop_sender x)" and "i = view_f (sync_view sy)"
    and "serializes env" and "connected nd (view_targets (sync_view sy))"
  shows "\<exists>sy' rng ts. sync_process_message env now seed (fst x) (snd x) (sy, th, lg, c, nd) =
      Inr (SS_Running, sy', th, lg, c, nd\<lparr>nd_rng := rng, nd_tasks := nd_tasks nd @ ts\<rparr>) \<and>
    sy_phase sy' = SP_Stopping2 (i + 1) \<and> sy_stopped sy' = [] \<and> sync_view sy' = sync_view sy"
proof -
  obtain rs where x: "vc_kind (snd x) = Stop rs" "vc_view (snd x) = seq_next (vi_seq (sync_view sy))"
    using assms(2) by (auto simp: is_stop_def)
  let ?sy = "sy\<lparr>sy_stopped := hmap_insert (stop_sender x) rs (sy_stopped sy)\<rparr>"
  have "connected nd (view_targets (sync_view ?sy))" "sy_phase ?sy = SP_Stopping i" using assms by simp_all
  from begin_view_change_joins [OF assms(5) this] obtain sy' rng ts where
    "begin_view_change env None nd ?sy = Inr (sy', nd\<lparr>nd_rng := rng, nd_tasks := nd_tasks nd @ ts\<rparr>)"
    "sy_phase sy' = SP_Stopping2 (i + 1)" "sy_stopped sy' = []" "sync_view sy' = sync_view sy" by auto
  with x assms(1,3,4) show ?thesis
    by (intro exI [of _ sy'] exI [of _ rng] exI [of _ ts])
      (simp add: sync_process_message_def process_stopping_def stop_sender_def)
qed

section \<open>Requests carried by \<open>STOP\<close> messages\<close>

definition digest_map :: "('z) crypto_scheme \<Rightarrow> (digest, 'o stored_request) hmap \<Rightarrow> bool" where
  "digest_map env m \<longleftrightarrow> hmap_wf m \<and> (\<forall>p \<in> set m. unique_digest env (sm_header (snd p)) = fst p)"

lemma entry_or_insert_digest_map:
  assumes "digest_map env m"
  shows "digest_map env (entry_or_insert (unique_digest env (sm_header r)) r m)"
    and "fst ` set (entry_or_insert (unique_digest env (sm_header r)) r m) =
      insert (unique_digest env (sm_header r)) (fst ` set m)"
proof -
  have wf: "hmap_wf m" using assms by (simp add: digest_map_def)
  show "digest_map env (entry_or_insert (unique_digest env (sm_header r)) r m)"
    using assms set_hmap_insert [OF wf] by (auto simp: digest_map_def entry_or_insert_def)
  show "fst ` set (entry_or_insert (unique_digest env (sm_header r)) r m) =
      insert (unique_digest env (sm_header r)) (fst ` set m)"
    using set_hmap_insert [OF wf, of "unique_digest env (sm_header r)" r]
    by (auto simp: entry_or_insert_def hmap_contains_iff)
qed

lemma merge_requests:
  assumes "digest_map env m"
  shows "digest_map env (fold (\<lambda>r. entry_or_insert (unique_digest env (sm_header r)) r) rs m) \<and>
    fst ` set (fold (\<lambda>r. entry_or_insert (unique_digest env (sm_header r)) r) rs m) =
      fst ` set m \<union> (\<lambda>r. unique_digest env (sm_header r)) ` set rs"
  using assms
proof (induction rs arbitrary: m)
  case (Cons r rs)
  from Cons.IH [OF entry_or_insert_digest_map(1) [OF Cons.prems]]
  show ?case by (simp add: entry_or_insert_digest_map(2) [OF Cons.prems])
qed simp

lemma merge_stopped:
  assumes "digest_map env m"
  shows "digest_map env (fold (\<lambda>(_, rs). fold (\<lambda>r. entry_or_insert (unique_digest env (sm_header r)) r) rs) stopped m) \<and>
    fst ` set (fold (\<lambda>(_, rs). fold (\<lambda>r. entry_or_insert (unique_digest env (sm_header r)) r) rs) stopped m) =
      fst ` set m \<union> (\<Union>rs \<in> snd ` set stopped. (\<lambda>r. unique_digest env (sm_header r)) ` set rs)"
  using assms
proof (induction stopped arbitrary: m)
  case (Cons s stopped)
  obtain k rs where s: "s = (k, rs)" by fastforce
  from merge_requests [OF Cons.prems, of rs] Cons.IH [of "fold (\<lambda>r. entry_or_insert (unique_digest env (sm_header r)) r) rs m"]
  show ?case by (simp add: s Un_assoc)
qed simp

text \<open>The digests of the requests of all \<open>STOP\<close> messages stored.\<close>

definition stopped_digests :: "('z) crypto_scheme \<Rightarrow> 'o synchronizer \<Rightarrow> digest set" where
  "stopped_digests env sy = (\<Union>rs \<in> snd ` set (sy_stopped sy). (\<lambda>r. unique_digest env (sm_header r)) ` set rs)"

lemma stopped_requests_digests:
  assumes "hash_order (env_ord_node env)" and "hash_order (env_ord_digest env)" and "hmap_wf (sy_stopped sy)"
    and "stopped_requests env None sy = (rs, sy')"
  shows "(\<lambda>r. unique_digest env (sm_header r)) ` set rs = stopped_digests env sy"
proof -
  define merged where "merged = fold (\<lambda>(_, rs). fold (\<lambda>r. entry_or_insert (unique_digest env (sm_header r)) r) rs)
      (hmap_iter (env_ord_node env) (sy_stopped sy)) []"
  have m: "digest_map env merged" "fst ` set merged = stopped_digests env sy"
    using merge_stopped [of env "[]" "hmap_iter (env_ord_node env) (sy_stopped sy)"]
    by (simp_all add: merged_def digest_map_def stopped_digests_def hmap_iter_set [OF assms(1,3)])
  have "rs = hmap_values (env_ord_digest env) merged" using assms(4) by (simp add: merged_def stopped_requests_def Let_def)
  then have "set rs = snd ` set merged" using m(1) by (simp add: digest_map_def hmap_values_set [OF assms(2)])
  then have "(\<lambda>r. unique_digest env (sm_header r)) ` set rs = (\<lambda>p. unique_digest env (sm_header (snd p))) ` set merged"
    by (simp add: image_image)
  also have "\<dots> = fst ` set merged" using m(1) by (intro image_cong) (auto simp: digest_map_def)
  finally show ?thesis using m(2) by simp
qed

lemma add_stopped_loop_spec:
  assumes "omap_ok (env_omap env)" and "log_wf env lg" and "add_stopped_loop env rs (sy, lg) = (sy', lg')"
  shows "log_wf env lg' \<and> known lg' = known lg \<union> (\<lambda>r. unique_digest env (sm_header r)) ` set rs \<and>
    fst ` set (sy_watching sy') = fst ` set (sy_watching sy) \<union> (\<lambda>r. unique_digest env (sm_header r)) ` set rs \<and>
    sy_timeout_seq sy' = sy_timeout_seq sy \<and> sy_timeout_dur sy' = sy_timeout_dur sy \<and> sy_stopped sy' = sy_stopped sy"
  using assms(2,3)
proof (induction rs arbitrary: sy lg)
  case (Cons r rs)
  note ins = log_insert_request [OF assms(1) Cons.prems(1), where h = "sm_header r" and m = "sm_message r"]
  from Cons.IH [OF ins(1) Cons.prems(2) [unfolded add_stopped_loop.simps]] show ?case
    by (simp add: ins(2) hmap_insert_keys)
qed simp

lemma watch_all_requests_spec:
  assumes "watch_all_requests now th sy = (sy', th')"
  shows "fst ` set (sy_watching sy') = fst ` set (sy_watching sy) \<and>
    (\<forall>d \<in> fst ` set (sy_watching sy). hmap_get (sy_watching sy') d = Some (TP_Init now)) \<and>
    sy_stopped sy' = sy_stopped sy \<and>
    (if sy_watching sy = [] then th' = th \<and> \<not> sy_watching_timeouts sy'
     else sy_watching_timeouts sy' \<and> (\<exists>s. th' = timeout (sy_timeout_dur sy) (Timeout_ClientRequests s) th \<and>
       seq_next s = sy_timeout_seq sy'))"
proof -
  define w where "w = map (\<lambda>(d, _). (d, TP_Init now)) (sy_watching sy)"
  have keys: "fst ` set w = fst ` set (sy_watching sy)" unfolding w_def by force
  have get: "hmap_get w d = Some (TP_Init now)" if "d \<in> fst ` set (sy_watching sy)" for d
    unfolding w_def by (rule map_of_same [OF that])
  have ne: "w = [] \<longleftrightarrow> sy_watching sy = []" by (simp add: w_def)
  show ?thesis
  proof (cases "w = []")
    case True
    then have "sy' = sy\<lparr>sy_watching := w, sy_watching_timeouts := False\<rparr>" "th' = th"
      using assms unfolding watch_all_requests_def w_def [symmetric] Let_def by simp_all
    with True keys ne show ?thesis by simp
  next
    case False
    then have "sy' = sy\<lparr>sy_watching := w, sy_watching_timeouts := True, sy_timeout_seq := seq_next (sy_timeout_seq sy)\<rparr>"
      "th' = timeout (sy_timeout_dur sy) (Timeout_ClientRequests (sy_timeout_seq sy)) th"
      using assms unfolding watch_all_requests_def w_def [symmetric] Let_def
      by (auto simp: start_timer_def next_timeout_def)
    with False keys get ne show ?thesis by (simp, blast)
  qed
qed

section \<open>The queue of \<open>STOP-DATA\<close> messages\<close>

lemma begin_view_change_queue:
  "begin_view_change env timed_out nd sy = Inr (sy', nd') \<Longrightarrow> sy_tbo sy' = sy_tbo sy"
  by (auto simp: begin_view_change_def Let_def res_simps unwatch_all_requests_def next_timeout_def
      stopped_requests_def split: sync_phase.splits option.splits prod.splits)

lemma stop_quorum_queue:
  assumes "stop_quorum env now (sy, th, lg, c, nd) = Inr (sy', th', lg', c', nd')"
  shows "sq_stop_data (sy_tbo sy') = sq_stop_data (sy_tbo sy)"
proof -
  obtain sy1 lg1 where 1: "add_stopped_requests env lg sy = (sy1, lg1)" by fastforce
  obtain sy2 th2 where 2: "watch_all_requests now th sy1 = (sy2, th2)" by fastforce
  from assms add_stopped_requests_frame [OF 1] watch_all_requests_frame [OF 2] show ?thesis
    by (auto simp: stop_quorum_def 1 2 Let_def res_simps install_view_def)
qed

lemma stop_keeps_stop_data:
  assumes "vc_kind m = Stop rs" and "sync_process_message env now seed h m (sy, rest) = Inr (st, sy', rest')"
  shows "sq_stop_data (sy_tbo sy') = sq_stop_data (sy_tbo sy)"
proof -
  obtain th lg c nd where rest: "rest = (th, lg, c, nd)" by (cases rest)
  obtain th' lg' c' nd' where rest': "rest' = (th', lg', c', nd')" by (cases rest')
  have queue: "sq_stop_data (queue_stop h m q) = sq_stop_data q" for q by (simp add: queue_stop_def Let_def)
  show ?thesis
  proof (cases "sy_phase sy")
    case (SP_Stopping i)
    with assms show ?thesis unfolding rest rest'
      by (auto simp: sync_process_message_def process_stopping_def Let_def res_simps queue
          dest!: begin_view_change_queue split: if_splits)
  next
    case (SP_Stopping2 i)
    with assms show ?thesis unfolding rest rest'
      by (auto simp: sync_process_message_def process_stopping_def Let_def res_simps queue
          dest!: stop_quorum_queue split: if_splits)
  qed (use assms in \<open>auto simp: rest sync_process_message_def sync_queue_message_def queue_view_change_def
        process_stopping_data_def process_syncing_def queue\<close>)
qed

lemma stops_keep_stop_data:
  "\<forall>x \<in> set xs. \<exists>rs. vc_kind (snd x) = Stop rs \<Longrightarrow>
    process_view_changes env now seed xs (st, sy, rest) = Inr (st', sy', rest') \<Longrightarrow>
    sq_stop_data (sy_tbo sy') = sq_stop_data (sy_tbo sy)"
proof (induction xs arbitrary: st sy rest)
  case (Cons x xs)
  from Cons.prems(2) obtain st1 sy1 rest1
    where 1: "sync_process_message env now seed (fst x) (snd x) (sy, rest) = Inr (st1, sy1, rest1)"
      and 2: "process_view_changes env now seed xs (st1, sy1, rest1) = Inr (st', sy', rest')"
    by (auto simp: res_simps)
  obtain rs where "vc_kind (snd x) = Stop rs" using Cons.prems(1) by auto
  from stop_keeps_stop_data [OF this 1] Cons.IH [OF _ 2] Cons.prems(1) show ?case by simp
qed simp

section \<open>Timers\<close>

text \<open>The operations that touch the timers of client requests.\<close>

inductive timer_step ::
  "('s, 'o, 'p, 'z) env_scheme \<Rightarrow> 'o synchronizer \<times> timeouts_handle \<Rightarrow> 'o synchronizer \<times> timeouts_handle \<Rightarrow> bool"
  for env where
  tm_watch: "timer_step env (sy, th) (watch_request_impl phase d th sy)"
| tm_unwatch: "timer_step env (sy, th) (unwatch_request d sy, th)"
| tm_unwatch_all: "timer_step env (sy, th) (unwatch_all_requests sy, th)"
| tm_watch_all: "timer_step env (sy, th) (watch_all_requests now th sy)"
| tm_timed_out: "client_requests_timed_out env now s th sy = (st, sy', th') \<Longrightarrow>
    timer_step env (sy, th) (sy', th')"
| tm_cst: "timer_step env (sy, th) (sy, timeout dur (Timeout_Cst s) th)"

definition client_timers :: "timeouts_handle \<Rightarrow> seq_no list" where
  "client_timers th =
     List.map_filter (\<lambda>t. case tt_kind t of Timeout_ClientRequests s \<Rightarrow> Some s | Timeout_Cst _ \<Rightarrow> None) (th_spawned th)"

text \<open>The numbers of the timers started are different, and all before the next number.\<close>

definition timer_inv :: "'o synchronizer \<times> timeouts_handle \<Rightarrow> bool" where
  "timer_inv st \<longleftrightarrow>
     (case st of (sy, th) \<Rightarrow>
        0 \<le> sint (seq_raw (sy_timeout_seq sy)) \<and> distinct (client_timers th) \<and>
        (\<forall>s \<in> set (client_timers th). s < sy_timeout_seq sy))"

lemma client_timers_timeout [simp]:
  "client_timers (timeout d (Timeout_ClientRequests s) th) = client_timers th @ [s]"
  "client_timers (timeout d (Timeout_Cst s) th) = client_timers th"
  by (simp_all add: client_timers_def timeout_def map_filter_def)

lemma seq_next_above:
  assumes "sy_timeout_seq sy \<noteq> SeqNo i32_max" and "0 \<le> sint (seq_raw (sy_timeout_seq sy))"
  shows "sy_timeout_seq sy < seq_next (sy_timeout_seq sy)" and "0 \<le> sint (seq_raw (seq_next (sy_timeout_seq sy)))"
proof -
  have "seq_raw (sy_timeout_seq sy) \<noteq> i32_max" using assms(1) by (metis seq_no.collapse)
  then show "sy_timeout_seq sy < seq_next (sy_timeout_seq sy)" "0 \<le> sint (seq_raw (seq_next (sy_timeout_seq sy)))"
    using assms(2) seq_next_lt by (simp_all add: less_seq_no_def)
qed

lemma timer_inv_start:
  assumes "timer_inv (sy, th)" and "sy_timeout_seq sy \<noteq> SeqNo i32_max"
  shows "timer_inv (start_timer th sy)"
  using assms seq_next_above [OF assms(2)]
  by (auto simp: timer_inv_def start_timer_def next_timeout_def intro: less_trans)

lemma timer_inv_skip:
  assumes "timer_inv (sy, th)" and "sy_timeout_seq sy \<noteq> SeqNo i32_max"
  shows "timer_inv (unwatch_all_requests sy, th)"
  using assms seq_next_above [OF assms(2)]
  by (auto simp: timer_inv_def unwatch_all_requests_def next_timeout_def intro: less_trans)

lemma timer_inv_step:
  assumes "timer_inv a" and "timer_step env a b \<and> sy_timeout_seq (fst a) \<noteq> SeqNo i32_max"
  shows "timer_inv b"
proof -
  have max: "sy_timeout_seq (fst a) \<noteq> SeqNo i32_max" using assms(2) by simp
  from assms(2) have "timer_step env a b" by simp
  then show ?thesis
  proof cases
    case (tm_watch sy th phase d)
    obtain sy' th' where s: "start_timer th sy = (sy', th')" by fastforce
    have "timer_inv (sy', th')" using timer_inv_start [of sy th] assms(1) max tm_watch(1) s by simp
    then show ?thesis using assms(1) tm_watch by (auto simp: watch_request_impl_def s timer_inv_def)
  next
    case (tm_watch_all sy th now)
    have "timer_inv (start_timer th (sy\<lparr>sy_watching := w, sy_watching_timeouts := b\<rparr>))" for w b
      by (rule timer_inv_start) (use assms(1) max tm_watch_all(1) in \<open>simp_all add: timer_inv_def\<close>)
    then show ?thesis using assms(1) tm_watch_all by (auto simp: watch_all_requests_def Let_def timer_inv_def)
  next
    case (tm_timed_out now s th sy st sy' th')
    have start: "timer_inv (start_timer th (sy\<lparr>sy_watching := w\<rparr>))" for w
      by (rule timer_inv_start) (use assms(1) max tm_timed_out(1) in \<open>simp_all add: timer_inv_def\<close>)
    have "(sy', th') = (sy, th) \<or> (\<exists>w. start_timer th (sy\<lparr>sy_watching := w\<rparr>) = (sy', th'))"
      using tm_timed_out(3) by (auto simp: client_requests_timed_out_def Let_def split: if_splits prod.splits)
    then show ?thesis using tm_timed_out(1,2) assms(1) start by (metis prod.inject)
  next
    case (tm_unwatch_all sy th)
    then show ?thesis using timer_inv_skip assms(1) max by simp
  qed (use assms(1) in \<open>simp_all add: timer_inv_def unwatch_request_def Let_def\<close>)
qed

interpretation timers: kept_invariant
  "\<lambda>a b. timer_step env a b \<and> sy_timeout_seq (fst a) \<noteq> SeqNo i32_max" timer_inv
  for env :: "('s, 'o, 'p, 'z) env_scheme"
  by unfold_locales (rule timer_inv_step)

section \<open>A replica to evaluate the model with\<close>

definition example_sync :: "seq_no \<Rightarrow> sync_phase \<Rightarrow> nat synchronizer" where
  "example_sync s ph = (synchronizer_new 10 (example_view s))\<lparr>sy_phase := ph\<rparr>"

definition example_stop :: "u32 \<Rightarrow> seq_no \<Rightarrow> header \<times> nat view_change_message" where
  "example_stop i s = (example_header i,
     ViewChangeMessage s (Stop [StoredMessage (example_header 1000) (RequestMessage 5)]))"

lemma example_sync_simps [simp]:
  "sync_view (example_sync s ph) = example_view s" "sy_phase (example_sync s ph) = ph"
  "sy_stopped (example_sync s ph) = []" "sy_watching (example_sync s ph) = []" "sq_stop_data (sy_tbo (example_sync s ph)) = []"
  by (simp_all add: example_sync_def synchronizer_new_def sync_queue_new_def)

lemma example_stop_is_stop: "seq_next s' = s \<Longrightarrow> is_stop (example_view s') (example_stop i s)"
  by (simp add: is_stop_def example_stop_def)

lemma example_stop_sender [simp]: "stop_sender (example_stop i s) = NodeId i"
  by (simp add: stop_sender_def example_stop_def header_from_def example_header_def node_of_u32_def)

lemma example_collects: "\<exists>cd. collect_data_of decision_log_new view = Inr cd"
  by (simp add: collect_data_of_def to_be_decided_def last_decision_def decision_log_new_def Let_def)

lemma example_next: "seq_next (SeqNo 0) = SeqNo 1" "seq_next (SeqNo 3) = SeqNo 4"
  by (simp_all add: seq_next_def i32_overflowing_add_def)

definition example_collect :: collect_data where
  "example_collect = \<lparr>cd_incomplete_proof = \<lparr>ip_in_exec = SeqNo 5,
     ip_write_set = [ViewDecisionPair (SeqNo 1) (Digest [7])],
     ip_quorum_writes = Some (ViewDecisionPair (SeqNo 1) (Digest [7]))\<rparr>, cd_last_proof = None\<rparr>"

lemma example_collect_simps [simp]:
  "quorum_writes example_collect = Some (ViewDecisionPair (SeqNo 1) (Digest [7]))"
  "write_set example_collect = [ViewDecisionPair (SeqNo 1) (Digest [7])]"
  by (simp_all add: example_collect_def)

text \<open>The third \<open>STOP\<close> at a replica that has counted two.\<close>

lemma example_stop_quorum:
  assumes "seq_next s = s'"
  shows "\<exists>sy' th' lg' nd'. sync_process_message (example_env :: (nat, nat, nat) env) now seed
      (fst (example_stop 3 s')) (snd (example_stop 3 s'))
      (sy\<lparr>sy_phase := SP_Stopping2 2, sy_stopped := [], sy_tbo := (sy_tbo sy)\<lparr>sq_view := example_view s\<rparr>\<rparr>, th, log_new 1, c, example_node) =
        Inr (SS_Running, sy', th', lg', c, nd') \<and>
      sy_phase sy' = (if NodeId 0 \<noteq> leader (next_view (example_view s)) then SP_Syncing else SP_StoppingData 0)"
proof -
  let ?sy = "sy\<lparr>sy_phase := SP_Stopping2 2, sy_stopped := [], sy_tbo := (sy_tbo sy)\<lparr>sq_view := example_view s\<rparr>\<rparr>"
  have "sy_phase ?sy = SP_Stopping2 2" "is_stop (sync_view ?sy) (example_stop 3 s')"
    "\<not> hmap_contains (sy_stopped ?sy) (stop_sender (example_stop 3 s'))" "2 + 1 = view_quorum (sync_view ?sy)"
    using assms by (simp_all add: example_stop_is_stop hmap_contains_def)
  from stop_reaches_quorum [OF this, of "example_env :: (nat, nat, nat) env" now seed th "log_new 1" c example_node]
  obtain rs where 1: "sync_process_message (example_env :: (nat, nat, nat) env) now seed (fst (example_stop 3 s')) (snd (example_stop 3 s'))
      (?sy, th, log_new 1, c, example_node) =
    bind_res (stop_quorum example_env now (?sy\<lparr>sy_stopped := hmap_insert (stop_sender (example_stop 3 s')) rs (sy_stopped ?sy)\<rparr>,
      th, log_new 1, c, example_node)) (\<lambda>w. Inr (SS_Running, w))" by blast
  let ?sy1 = "?sy\<lparr>sy_stopped := hmap_insert (stop_sender (example_stop 3 s')) rs (sy_stopped ?sy)\<rparr>"
  have "connected (example_node :: (nat, nat, nat) node) (view_targets (sync_view ?sy1))" "0 < view_n (sync_view ?sy1)"
    by (simp_all add: example_connected)
  moreover obtain cd where "collect_data_of (lg_declog (log_new 1 :: (nat, nat) log)) (next_view (sync_view ?sy1)) = Inr cd"
    using example_collects by (auto simp: log_new_def)
  ultimately obtain sy' th' lg' nd' where
    "stop_quorum (example_env :: (nat, nat, nat) env) now (?sy1, th, log_new 1, c, example_node) = Inr (sy', th', lg', c, nd')"
    "sy_phase sy' = (if nd_id (example_node :: (nat, nat, nat) node) \<noteq> leader (next_view (sync_view ?sy1)) then SP_Syncing else SP_StoppingData 0)"
    using stop_quorum_ok [OF example_serializes] by blast
  moreover have "nd_id (example_node :: (nat, nat, nat) node) = NodeId 0" by (simp add: example_node_def)
  ultimately show ?thesis
    by (intro exI [of _ sy'] exI [of _ th'] exI [of _ lg'] exI [of _ nd']) (simp only: 1 bind_res_Inr, simp)
qed

section \<open>Properties\<close>



text \<open>
  C15. Timed out requests. The timer that counts selects exactly the requests watched for longer
  than the timeout: those that never timed out are forwarded, those that did once are
  stopped and marked, all others stay as they are, and the next timer is started. The same
  timer never acts a second time.
\<close>

theorem request_timeouts:
  assumes "hash_order (env_ord_digest env)" and "hmap_wf (sy_watching sy)" and "sy_watching_timeouts sy"
    and "seq_next s = sy_timeout_seq sy"
  shows "\<exists>forwarded stopped sy'. client_requests_timed_out env now s th sy =
      (SS_RequestsTimedOut forwarded stopped, sy',
       timeout (sy_timeout_dur sy) (Timeout_ClientRequests (sy_timeout_seq sy)) th) \<and>
    set forwarded = {d. \<exists>i. hmap_get (sy_watching sy) d = Some (TP_Init i) \<and> i + sy_timeout_dur sy < now} \<and>
    set stopped = {d. \<exists>i. hmap_get (sy_watching sy) d = Some (TP_TimedOutOnce i) \<and> i + sy_timeout_dur sy < now} \<and>
    (\<forall>d. hmap_get (sy_watching sy') d =
       (if d \<in> set stopped then Some TP_TimedOut else hmap_get (sy_watching sy) d)) \<and>
    client_requests_timed_out env now' s th' sy' = (SS_Nil, sy', th')"
proof -
  let ?w = "sy_watching sy" and ?dur = "sy_timeout_dur sy"
  define fw where "fw = map fst (filter (\<lambda>(_, p). to_forward now ?dur p) (hmap_iter (env_ord_digest env) ?w))"
  define sp where "sp = map fst (filter (\<lambda>(_, p). to_stop now ?dur p) (hmap_iter (env_ord_digest env) ?w))"
  define w' where "w' = map (\<lambda>(d, p). (d, if to_stop now ?dur p then TP_TimedOut else p)) ?w"
  define sy' where "sy' = sy\<lparr>sy_watching := w', sy_timeout_seq := seq_next (sy_timeout_seq sy)\<rparr>"
  have get: "hmap_get ?w d = Some p \<longleftrightarrow> (d, p) \<in> set ?w" for d p
    using assms(2) by (simp add: hmap_wf_def)
  have fwd: "to_forward now ?dur p \<longleftrightarrow> (\<exists>i. p = TP_Init i \<and> i + ?dur < now)"
    and stp: "to_stop now ?dur p \<longleftrightarrow> (\<exists>i. p = TP_TimedOutOnce i \<and> i + ?dur < now)" for p
    by (cases p; auto simp: expired_def)+
  have fw: "set fw = {d. \<exists>i. hmap_get ?w d = Some (TP_Init i) \<and> i + ?dur < now}"
  proof -
    have "set fw = {d. \<exists>p. (d, p) \<in> set ?w \<and> to_forward now ?dur p}"
      by (force simp: fw_def hmap_iter_set [OF assms(1,2)])
    then show ?thesis unfolding get fwd by blast
  qed
  have sp: "set sp = {d. \<exists>i. hmap_get ?w d = Some (TP_TimedOutOnce i) \<and> i + ?dur < now}"
  proof -
    have "set sp = {d. \<exists>p. (d, p) \<in> set ?w \<and> to_stop now ?dur p}"
      by (force simp: sp_def hmap_iter_set [OF assms(1,2)])
    then show ?thesis unfolding get stp by blast
  qed
  have w': "hmap_get w' d = map_option (\<lambda>p. if to_stop now ?dur p then TP_TimedOut else p) (hmap_get ?w d)" for d
    unfolding w'_def by (simp add: map_of_map)
  have upd: "hmap_get (sy_watching sy') d = (if d \<in> set sp then Some TP_TimedOut else hmap_get ?w d)" for d
    by (cases "hmap_get ?w d") (auto simp: sy'_def w' sp stp)
  have eq: "client_requests_timed_out env now s th sy =
      (SS_RequestsTimedOut fw sp, sy', timeout ?dur (Timeout_ClientRequests (sy_timeout_seq sy)) th)"
    using assms(3,4) by (simp add: client_requests_timed_out_def start_timer_def next_timeout_def
        fw_def sp_def w'_def sy'_def Let_def)
  have "seq_next s \<noteq> seq_next (seq_next s)" using seq_index_next [of "seq_next s"] by auto
  then have "client_requests_timed_out env now' s th' sy' = (SS_Nil, sy', th')"
    using assms(4) by (simp add: client_requests_timed_out_def sy'_def)
  with eq fw sp upd show ?thesis by blast
qed

theorem request_timeouts_witness:
  "\<exists>forwarded stopped sy'. client_requests_timed_out (example_env :: (nat, nat, nat) env) 20 (SeqNo 0) timeouts_new
      ((example_sync (SeqNo 0) SP_Init)\<lparr>sy_watching := [(Digest [1], TP_Init 5), (Digest [2], TP_TimedOutOnce 3)],
         sy_watching_timeouts := True, sy_timeout_seq := SeqNo 1\<rparr>) =
      (SS_RequestsTimedOut forwarded stopped, sy',
       timeout 10 (Timeout_ClientRequests (SeqNo 1)) timeouts_new) \<and>
     set forwarded = {Digest [1]} \<and> set stopped = {Digest [2]} \<and>
     hmap_get (sy_watching sy') (Digest [2]) = Some TP_TimedOut"
proof -
  let ?env = "example_env :: (nat, nat, nat) env"
  let ?sy = "(example_sync (SeqNo 0) SP_Init)\<lparr>sy_watching := [(Digest [1], TP_Init 5), (Digest [2], TP_TimedOutOnce 3)],
         sy_watching_timeouts := True, sy_timeout_seq := SeqNo 1\<rparr>"
  have o: "hash_order (env_ord_digest ?env)" by (simp add: example_env_def)
  have s: "seq_next (SeqNo 0) = sy_timeout_seq ?sy" "sy_timeout_dur ?sy = 10" "sy_timeout_seq ?sy = SeqNo 1"
    "hmap_wf (sy_watching ?sy)" "sy_watching_timeouts ?sy"
    by (simp_all add: example_next example_sync_def synchronizer_new_def hmap_wf_def)
  have "{d. \<exists>i. hmap_get (sy_watching ?sy) d = Some (TP_Init i) \<and> i + sy_timeout_dur ?sy < 20} = {Digest [1]}"
    "{d. \<exists>i. hmap_get (sy_watching ?sy) d = Some (TP_TimedOutOnce i) \<and> i + sy_timeout_dur ?sy < 20} = {Digest [2]}"
    by (auto simp: s(2) split: if_splits)
  with request_timeouts [OF o s(4,5,1), of 20 timeouts_new] show ?thesis
    unfolding s(2,3) by fastforce
qed

text \<open>
  C16. One live timer. However requests are watched, unwatched, stopped and restarted, of all the
  timers ever started at most one can still act (as long as fewer than \<open>2 ^ 31\<close> have been
  started); when any other one fires, nothing changes.
\<close>

theorem one_live_timer:
  fixes env :: "('s, 'o, 'p, 'z) env_scheme"
  assumes "(\<lambda>a b. timer_step env a b \<and> sy_timeout_seq (fst a) \<noteq> SeqNo i32_max)\<^sup>*\<^sup>*
      (synchronizer_new dur view, timeouts_new) (sy, th)"
  shows "length (filter (\<lambda>s. seq_next s = sy_timeout_seq sy) (client_timers th)) \<le> 1 \<and>
    (\<forall>s \<in> set (client_timers th). seq_next s \<noteq> sy_timeout_seq sy \<longrightarrow>
       client_requests_timed_out env now s th' sy = (SS_Nil, sy, th'))"
proof -
  have "timer_inv (synchronizer_new dur view :: 'o synchronizer, timeouts_new)"
    by (simp add: timer_inv_def synchronizer_new_def seq_zero_def client_timers_def timeouts_new_def map_filter_def)
  from timers.reachable_kept [OF assms this] have inv: "timer_inv (sy, th)" .
  let ?l = "filter (\<lambda>s. seq_next s = sy_timeout_seq sy) (client_timers th)"
  have same: "s = s'" if "s \<in> set ?l" "s' \<in> set ?l" for s s'
  proof -
    have "sint (seq_raw x) + 1 = sint (seq_raw (sy_timeout_seq sy))" if "x \<in> set ?l" for x
    proof -
      have "x < sy_timeout_seq sy" "seq_next x = sy_timeout_seq sy" using inv that by (auto simp: timer_inv_def)
      then have "seq_raw x \<noteq> i32_max"
        using sint_i32_range(2) [of "seq_raw (sy_timeout_seq sy)"] by (auto simp: less_seq_no_def i32_max_def)
      with seq_next_lt show ?thesis using \<open>seq_next x = _\<close> by metis
    qed
    from this [OF that(1)] this [OF that(2)] have "sint (seq_raw s) = sint (seq_raw s')" by simp
    then show ?thesis by (metis seq_no.expand signed_word_eqI)
  qed
  have "distinct ?l" using inv by (auto simp: timer_inv_def)
  then have "length ?l = card (set ?l)" by (simp only: distinct_card)
  also have "\<dots> \<le> 1" using same by (intro card_le_Suc0_iff_eq [THEN iffD2, unfolded One_nat_def [symmetric]]) auto
  finally show ?thesis by (simp add: client_requests_timed_out_def)
qed

theorem one_live_timer_witness:
  "\<exists>sy th. (\<lambda>a b. timer_step (example_env :: (nat, nat, nat) env) a b \<and> sy_timeout_seq (fst a) \<noteq> SeqNo i32_max)\<^sup>*\<^sup>*
      (synchronizer_new 10 (example_view (SeqNo 0)), timeouts_new) (sy, th) \<and>
     client_timers th = [SeqNo 0, SeqNo 1] \<and>
     length (filter (\<lambda>s. seq_next s = sy_timeout_seq sy) (client_timers th)) \<le> 1"
proof -
  let ?step = "\<lambda>a b. timer_step (example_env :: (nat, nat, nat) env) a b \<and> sy_timeout_seq (fst a) \<noteq> SeqNo i32_max"
  define sy0 where "sy0 = (synchronizer_new 10 (example_view (SeqNo 0)) :: nat synchronizer)"
  obtain sy1 th1 where 1: "watch_request_impl (TP_Init 0) (Digest [7]) timeouts_new sy0 = (sy1, th1)" by fastforce
  obtain sy2 where 2: "unwatch_request (Digest [7]) sy1 = sy2" by simp
  obtain sy3 th3 where 3: "watch_request_impl (TP_Init 1) (Digest [7]) th1 sy2 = (sy3, th3)" by fastforce
  have seqs: "sy_timeout_seq sy0 = SeqNo 0" "sy_timeout_seq sy1 = SeqNo 1" "sy_timeout_seq sy2 = SeqNo 1"
    "client_timers th3 = [SeqNo 0, SeqNo 1]"
    using 1 2 3
    by (auto simp: sy0_def synchronizer_new_def watch_request_impl_def start_timer_def next_timeout_def
        unwatch_request_def seq_zero_def example_next client_timers_def timeouts_new_def timeout_def map_filter_def)
  have s1: "?step (sy0, timeouts_new) (sy1, th1)"
    using tm_watch [of example_env sy0 timeouts_new "TP_Init 0" "Digest [7]"] seqs(1) by (simp add: 1 i32_max_def)
  have s2: "?step (sy1, th1) (sy2, th1)"
    using tm_unwatch [of example_env sy1 th1 "Digest [7]"] seqs(2) by (simp add: 2 i32_max_def)
  have s3: "?step (sy2, th1) (sy3, th3)"
    using tm_watch [of example_env sy2 th1 "TP_Init 1" "Digest [7]"] seqs(3) 3 by (simp add: i32_max_def)
  have run: "?step\<^sup>*\<^sup>* (synchronizer_new 10 (example_view (SeqNo 0)), timeouts_new) (sy3, th3)"
    unfolding sy0_def [symmetric]
    by (rule converse_rtranclp_into_rtranclp [of ?step, OF s1 converse_rtranclp_into_rtranclp [of ?step, OF s2 r_into_rtranclp [of ?step, OF s3]]])
  from one_live_timer [OF this] seqs(4) run show ?thesis by blast
qed

text \<open>
  C36. \<open>STOP\<close> messages are counted twice. Joining a view change drains the map of the \<open>STOP\<close>
  messages received, which is also what a second vote is recognised by. Therefore \<open>f + 1\<close>
  replicas are enough to install a new view where the protocol asks for \<open>2f + 1\<close>: after
  their \<open>f + 1\<close> messages, repeating \<open>f\<close> of them completes the quorum.
\<close>

theorem stop_votes_counted_twice:
  assumes "serializes env" and "connected nd (view_targets (sync_view sy))" and "params_wf (vi_params (sync_view sy))"
    and "collect_data_of (lg_declog lg) (next_view (sync_view sy)) = Inr cd"
    and "sy_phase sy = SP_Stopping 0" and "sy_stopped sy = []" and "0 < view_f (sync_view sy)"
    and "length stops = view_f (sync_view sy) + 1" and "distinct (map stop_sender stops)"
    and "\<forall>x \<in> set stops. is_stop (sync_view sy) x"
  shows "\<exists>sy' th' lg' nd'.
    process_view_changes env now seed (stops @ take (view_f (sync_view sy)) stops) (SS_Nil, sy, th, lg, c, nd) =
      Inr (SS_Running, sy', th', lg', c, nd') \<and>
    sync_view sy' = next_view (sync_view sy)"
proof -
  let ?view = "sync_view sy" and ?f = "view_f (sync_view sy)"
  obtain xs x where stops: "stops = xs @ [x]" "length xs = ?f"
    using assms(8) by (cases stops rule: rev_cases) auto
  obtain ys y where ys: "xs = ys @ [y]" "length ys + 1 = ?f"
    using assms(7) stops(2) by (cases xs rule: rev_cases) auto
  have q: "view_quorum ?view = 2 * ?f + 1" by (rule quorum_wf [OF assms(3)])
  have d: "distinct (map stop_sender xs)" "distinct (map stop_sender ys)" "stop_sender x \<notin> stop_sender ` set xs"
    "stop_sender y \<notin> stop_sender ` set ys"
    using assms(9) by (auto simp: stops(1) ys(1))
  have s: "\<forall>z \<in> set xs. is_stop ?view z" "\<forall>z \<in> set ys. is_stop ?view z" "is_stop ?view x" "is_stop ?view y"
    using assms(10) by (auto simp: stops(1) ys(1))
  obtain st1 sy1 where 1: "process_view_changes env now seed xs (SS_Nil, sy, th, lg, c, nd) = Inr (st1, sy1, th, lg, c, nd)"
    "sy_phase sy1 = SP_Stopping ?f" "sync_view sy1 = ?view"
    "\<forall>k. hmap_contains (sy_stopped sy1) k \<longleftrightarrow> k \<in> stop_sender ` set xs"
    using stops_join [OF assms(5) s(1) _ d(1), of env now seed SS_Nil "(th, lg, c, nd)"] assms(6) stops(2)
    by (auto simp: hmap_contains_iff)
  have x: "is_stop (sync_view sy1) x" "\<not> hmap_contains (sy_stopped sy1) (stop_sender x)"
    "?f = view_f (sync_view sy1)" "connected nd (view_targets (sync_view sy1))"
    using 1(3,4) s(3) d(3) assms(2) by simp_all
  obtain sy2 rng ts where 2: "sync_process_message env now seed (fst x) (snd x) (sy1, th, lg, c, nd) =
      Inr (SS_Running, sy2, th, lg, c, nd\<lparr>nd_rng := rng, nd_tasks := nd_tasks nd @ ts\<rparr>)"
    "sy_phase sy2 = SP_Stopping2 (?f + 1)" "sy_stopped sy2 = []" "sync_view sy2 = ?view"
    using stop_starts_ours [OF 1(2) x(1-3) assms(1) x(4)] unfolding 1(3) by blast
  let ?nd = "nd\<lparr>nd_rng := rng, nd_tasks := nd_tasks nd @ ts\<rparr>"
  obtain st3 sy3 where 3: "process_view_changes env now seed ys (SS_Running, sy2, th, lg, c, ?nd) =
      Inr (st3, sy3, th, lg, c, ?nd)"
    "sy_phase sy3 = SP_Stopping2 (?f + 1 + length ys)" "sync_view sy3 = ?view"
    "\<forall>k. hmap_contains (sy_stopped sy3) k \<longleftrightarrow> k \<in> stop_sender ` set ys"
    using stops_vote [OF 2(2) s(2) 2(4) d(2), of env now seed SS_Running "(th, lg, c, ?nd)"] 2(3) ys(2) q
    by (auto simp: hmap_contains_iff)
  obtain rs where 4: "sync_process_message env now seed (fst y) (snd y) (sy3, th, lg, c, ?nd) =
    bind_res (stop_quorum env now (sy3\<lparr>sy_stopped := hmap_insert (stop_sender y) rs (sy_stopped sy3)\<rparr>, th, lg, c, ?nd))
      (\<lambda>w. Inr (SS_Running, w))"
    using stop_reaches_quorum [of sy3 _ y env now seed th lg c ?nd] 3(2-) s(4) d(4) q ys(2) by auto
  let ?sy = "sy3\<lparr>sy_stopped := hmap_insert (stop_sender y) rs (sy_stopped sy3)\<rparr>"
  obtain sy' th' lg' nd' where 5: "stop_quorum env now (?sy, th, lg, c, ?nd) = Inr (sy', th', lg', c, nd')"
    "sync_view sy' = next_view ?view"
    using stop_quorum_ok [OF assms(1), of ?nd ?sy lg cd now th c] assms(2-4) 3(3)
    by (auto simp: params_wf_def)
  have "take ?f stops = xs" by (simp add: stops(1) stops(2) [symmetric])
  then have "stops @ take ?f stops = xs @ x # ys @ [y]" by (simp add: stops(1) ys(1))
  then show ?thesis using 1(1) 2(1) 3(1) 4 5 by (simp add: process_view_changes_append)
qed

theorem stop_votes_counted_twice_witness:
  "\<exists>sy' th' lg' nd'. process_view_changes (example_env :: (nat, nat, nat) env) 0 (1, 2, 3, 4)
     [example_stop 1 (SeqNo 1), example_stop 2 (SeqNo 1), example_stop 1 (SeqNo 1)]
     (SS_Nil, example_sync (SeqNo 0) (SP_Stopping 0), timeouts_new, log_new 1, consensus_new (SeqNo 0) 1, example_node) =
       Inr (SS_Running, sy', th', lg', consensus_new (SeqNo 0) 1, nd') \<and>
     sync_view sy' = example_view (SeqNo 1)"
proof -
  let ?stops = "[example_stop 1 (SeqNo 1), example_stop 2 (SeqNo 1)]" and ?sy = "example_sync (SeqNo 0) (SP_Stopping 0)"
  have next_v: "next_view (example_view (SeqNo 0)) = example_view (SeqNo 1)"
    by (simp add: next_view_def view_peek_def example_view_def example_next)
  obtain cd where "collect_data_of (lg_declog (log_new 1 :: (nat, nat) log)) (next_view (sync_view ?sy)) = Inr cd"
    using example_collects by (auto simp: log_new_def)
  from stop_votes_counted_twice [OF example_serializes _ _ this, of example_node ?stops 0 "(1, 2, 3, 4)" timeouts_new "consensus_new (SeqNo 0) 1"]
  show ?thesis
    by (simp add: example_connected example_view_wf example_stop_is_stop example_next next_v)
qed



end
