(* ===== verification/ViewChange.thy ===== *)
theory ViewChange
  imports Stopping
begin

text \<open>
  The second half of a view change (\<open>src/bft/sync/mod.rs\<close>): the predicates on the collected
  data, the checks of signatures, and the instance that continues in the new view.
\<close>

section \<open>Sound values\<close>

lemma certified_value_member:
  assumes "certified_value view ts v ncs"
  shows "v \<in> set (concat (map collect_values ncs))"
proof (rule ccontr)
  assume "\<not> ?thesis"
  then have no: "v \<notin> set (collect_values mc)" if "mc \<in> set ncs" for mc
    using that by (auto simp del: collect_values.simps)
  have "filter (\<lambda>p. seq_ge (pair_ts p) ts \<and> pair_value p = v) (write_set c) = []"
    if "c \<in> set (some_collects ncs)" for c
  proof -
    have "Some c \<in> set ncs" using that by (auto simp: some_collects_def map_filter_def)
    from no [OF this] show ?thesis by (auto simp: filter_empty_conv)
  qed
  then have "map (\<lambda>c. length (filter (\<lambda>p. seq_ge (pair_ts p) ts \<and> pair_value p = v) (write_set c))) (some_collects ncs)
      = map (\<lambda>_. 0) (some_collects ncs)"
    by simp
  with assms show False by (simp only: certified_value_def Let_def) (simp add: sum_list_0)
qed

lemma quorum_highest_member:
  assumes "quorum_highest view ts v ncs"
  shows "ts \<in> set (concat (map collect_timestamps ncs))"
proof -
  obtain c where c: "c \<in> set (some_collects ncs)"
    and "case quorum_writes c of None \<Rightarrow> False | Some p \<Rightarrow> pair_ts p = ts \<and> pair_value p = v"
    using assms by (auto simp: quorum_highest_def Let_def list_ex_iff)
  then have "ts \<in> set (collect_timestamps (Some c))" by (auto split: option.splits)
  moreover have "Some c \<in> set ncs" using c by (auto simp: some_collects_def map_filter_def)
  ultimately show ?thesis unfolding set_concat set_map by blast
qed

lemma binds_member:
  "binds view ts v ncs \<Longrightarrow>
     ts \<in> set (concat (map collect_timestamps ncs)) \<and> v \<in> set (concat (map collect_values ncs))"
  using certified_value_member [of view ts v ncs] quorum_highest_member [of view ts v ncs]
  by (simp only: binds_def split: if_splits)

lemma sound_of_find:
  assumes "hash_order (env_ord_seq env)" and "hash_order (env_ord_digest env)"
  shows "case sound_of env view ncs of
      Bound v \<Rightarrow> \<exists>ts. binds view ts v ncs
    | Unbound b \<Rightarrow> (\<forall>ts v. \<not> binds view ts v ncs) \<and> b = unbound view ncs"
proof -
  let ?l = "List.product (env_ord_seq env (remdups (concat (map collect_timestamps ncs))))
      (env_ord_digest env (remdups (concat (map collect_values ncs))))"
  have l: "(ts, v) \<in> set ?l" if "binds view ts v ncs" for ts v
    using binds_member [OF that] assms by (simp add: hash_order_set)
  show ?thesis
  proof (cases "find (\<lambda>(ts, v). binds view ts v ncs) ?l")
    case None
    then have "\<not> binds view ts v ncs" for ts v using l [of ts v] unfolding find_None_iff by blast
    with None show ?thesis by (simp add: sound_of_def Let_def)
  next
    case (Some p)
    then have "binds view (fst p) (snd p) ncs" by (auto simp: find_Some_iff case_prod_beta)
    with Some show ?thesis by (auto simp: sound_of_def Let_def split: prod.splits)
  qed
qed

lemma some_collects_length: "length (some_collects ncs) \<le> length ncs"
  by (simp add: some_collects_def map_filter_def)

lemma quorum_highest_all:
  assumes "quorum_highest view ts v ncs" and "length ncs \<le> view_quorum view" and "c \<in> set (some_collects ncs)"
  shows "\<exists>p. quorum_writes c = Some p \<and> (pair_ts p < ts \<or> pair_ts p = ts \<and> pair_value p = v)"
proof -
  let ?P = "\<lambda>c. case quorum_writes c of None \<Rightarrow> False
    | Some p \<Rightarrow> (case seq_cmp (pair_ts p) ts of Less \<Rightarrow> True | Equal \<Rightarrow> pair_value p = v | Greater \<Rightarrow> False)"
  have "length (filter ?P (some_collects ncs)) \<ge> length (some_collects ncs)"
    using assms(1,2) some_collects_length [of ncs] by (simp add: quorum_highest_def Let_def)
  then have "?P c" using length_filter_less [of c "some_collects ncs" ?P] assms(3) by linarith
  then show ?thesis by (auto simp: seq_cmp_def split: option.splits if_splits)
qed

lemma binds_unique:
  assumes "binds view ts v ncs" and "binds view ts' v' ncs" and "length ncs \<le> view_quorum view"
  shows "v = v' \<and> ts = ts'"
proof -
  have q: "quorum_highest view ts v ncs" "quorum_highest view ts' v' ncs"
    using assms by (auto simp: binds_def split: if_splits)
  obtain c p where c: "c \<in> set (some_collects ncs)" "quorum_writes c = Some p" "pair_ts p = ts" "pair_value p = v"
    using q(1) by (auto simp: quorum_highest_def Let_def list_ex_iff split: option.splits)
  obtain c' p' where c': "c' \<in> set (some_collects ncs)" "quorum_writes c' = Some p'" "pair_ts p' = ts'" "pair_value p' = v'"
    using q(2) by (auto simp: quorum_highest_def Let_def list_ex_iff split: option.splits)
  from quorum_highest_all [OF q(2) assms(3) c(1)] quorum_highest_all [OF q(1) assms(3) c'(1)] c c'
  show ?thesis by auto
qed

lemma sound_of_bound:
  assumes "hash_order (env_ord_seq env)" and "hash_order (env_ord_digest env)"
    and "length ncs \<le> view_quorum view" and "binds view ts v ncs"
  shows "sound_of env view ncs = Bound v"
proof (cases "sound_of env view ncs")
  case (Unbound b)
  with sound_of_find [OF assms(1,2), of view ncs] assms(4) show ?thesis by simp
next
  case (Bound v')
  with sound_of_find [OF assms(1,2), of view ncs] obtain ts' where "binds view ts' v' ncs" by auto
  from binds_unique [OF this assms(4,3)] Bound show ?thesis by simp
qed

lemma sound_of_unbound:
  assumes "hash_order (env_ord_seq env)" and "hash_order (env_ord_digest env)"
    and "\<And>ts v. \<not> binds view ts v ncs"
  shows "sound_of env view ncs = Unbound (unbound view ncs)"
  using sound_of_find [OF assms(1,2), of view ncs] assms(3) by (cases "sound_of env view ncs") simp_all

lemma sound_of_few:
  assumes "length ncs < view_quorum view"
  shows "sound_of env view ncs = Unbound False"
proof -
  have "find (\<lambda>(ts, v). binds view ts v ncs) xs = None" for xs
    using assms by (auto simp: find_None_iff binds_def)
  then show ?thesis using assms by (simp add: sound_of_def Let_def unbound_def)
qed

section \<open>Signatures\<close>

definition sent_header :: "('z) crypto_scheme \<Rightarrow> header \<Rightarrow> bool" where
  "sent_header env h \<longleftrightarrow> (\<exists>from to buf nonce d sk.
     h = wm_header (wire_message_new env from to buf nonce d sk) \<and> buf \<noteq> [] \<and> length buf < 2 ^ 64)"

lemma sent_header_length: "sent_header env h \<Longrightarrow> h_length h \<noteq> 0"
proof -
  assume "sent_header env h"
  then obtain buf :: "u8 list" where "h_length h = of_nat (length buf)" "buf \<noteq> []" "length buf < 2 ^ 64"
    by (auto simp: sent_header_def wire_message_new_def Let_def)
  then show ?thesis by (auto simp: word_of_nat_eq_0_iff dest: nat_dvd_not_less [rotated])
qed

lemma validate_signature_rejects: "sent_header env' h \<Longrightarrow> \<not> validate_signature env nd h"
  using sent_header_length
  by (auto simp: validate_signature_def wire_message_from_parts_def wire_message_is_valid_def Let_def)

section \<open>The instance after a view change\<close>

definition chosen_batch :: "stored_consensus option \<Rightarrow> digest list \<Rightarrow> digest list" where
  "chosen_batch stored proposed =
     (case stored of
        Some st \<Rightarrow> (case cm_kind (sm_message st) of PrePrepare ds \<Rightarrow> ds | _ \<Rightarrow> proposed)
      | None \<Rightarrow> proposed)"

lemma finalize_instance:
  assumes "finalize env seed state lg c nd sy = Inr (st, sy', lg', c', nd')"
  shows "\<exists>stored dl pp.
    clear_last_occurrences (fs_curr_cid state) (sound_value (fs_sound state)) (lg_declog lg) = Inr (stored, dl) \<and>
    st = SS_NewView \<and> sy_phase sy' = SP_Init \<and> sync_view sy' = sync_view sy \<and>
    co_phase c' = Phase_Preparing 1 \<and> co_seq c' = co_seq c \<and>
    lg_declog lg' = declog_plus dl [pp] [] [] \<and>
    votes_ok (co_seq c) (vi_seq (sync_view sy)) c' [pp] [] [] \<and>
    take (co_batch_size c') (co_current c') = chosen_batch stored (fs_proposed state)"
proof -
  from assms obtain stored dl where clear:
    "clear_last_occurrences (fs_curr_cid state) (sound_value (fs_sound state)) (lg_declog lg) = Inr (stored, dl)"
    by (auto simp: finalize_def res_simps)
  define ds where "ds = chosen_batch stored (fs_proposed state)"
  have ds: "(case stored of None \<Rightarrow> fs_proposed state
      | Some st \<Rightarrow> (case fst (take_proposed_requests (sm_message st)) of Some requests \<Rightarrow> requests
          | None \<Rightarrow> fs_proposed state)) = ds"
    by (auto simp: ds_def chosen_batch_def take_proposed_requests_def split: option.splits consensus_message_kind.splits)
  define m where "m = \<lparr>cm_seq = co_seq c, cm_view = vi_seq (sync_view sy), cm_kind = PrePrepare ds\<rparr>"
  have forge: "forge_propose ds (sync_view sy) c = SM_Consensus m"
    by (simp add: forge_propose_def consensus_msg_def m_def)
  from assms obtain dig buf where ser: "serialize_digest env (SM_Consensus m) = Inr (dig, buf)"
    by (auto simp: finalize_def clear ds forge Let_def split: sum.splits)
  define h where "h = wm_header (wire_message_new env (leader (sync_view sy)) (nd_id nd) buf
      (fst (next_state (prng_new seed))) (Some dig) None)"
  define lg1 where "lg1 = log_push h m (lg\<lparr>lg_declog := dl\<rparr>)"
  have fvc: "finalize_view_change env dig (sync_view sy) lg1 nd c = Inr (c', nd')"
    and out: "st = SS_NewView" "lg' = lg1"
      "sy' = sy\<lparr>sy_tbo := sync_next_instance_queue (sy_tbo sy), sy_phase := SP_Init\<rparr>"
    using assms by (auto simp: finalize_def clear ds forge ser Let_def h_def lg1_def res_simps)
  have dl1: "lg_declog lg1 = declog_plus dl [StoredMessage h m] [] []"
    by (simp add: lg1_def log_push_def declog_plus_def m_def)
  have c': "co_phase c' = Phase_Preparing 1" "co_seq c' = co_seq c" "co_current_digest c' = dig"
    "co_batch_size c' = length ds" "take (length ds) (co_current c') = ds" "length ds \<le> length (co_current c')"
    using fvc by (auto simp: finalize_view_change_def dl1 declog_plus_def m_def copy_current_def res_simps Let_def
        split: if_splits)
  have "header_digest h = dig" by (simp add: h_def wire_message_new_def Let_def header_digest_def)
  then have "votes_ok (co_seq c) (vi_seq (sync_view sy)) c' [StoredMessage h m] [] []"
    using c' by (simp add: votes_ok_def proposal_of_def vote_of_def m_def)
  then show ?thesis
    using clear c' dl1 out by (auto simp: ds_def [symmetric] sync_next_instance_queue_def)
qed

lemma decided_proposal:
  "consensus_process_message env h m view lg nd c = Inr (CS_Decided ds, r) \<Longrightarrow>
     \<exists>d. proposal (abs_instance (c, lg, nd)) = Some (ds, d)"
  by (cases "co_phase c") (auto simp: consensus_process_message_def process_pre_preparing_def
      process_preparing_def process_committing_def abs_instance_def Let_def res_simps
      split: consensus_message_kind.splits if_splits)

section \<open>Properties\<close>

text \<open>
  C3. Decisions after a view change. When a view change finishes and the instance it continues
  then decides in the new view, the batch decided is the one a bound value recovered from
  the log, or else the one the new leader proposed; and from the log cleared of the old
  view's messages, the decision log has grown by exactly a certificate for it: the forged
  pre-prepare, \<open>quorum - 1\<close> prepares and \<open>quorum\<close> commits of that instance and view.
\<close>

theorem view_change_certificate:
  assumes "finalize env seed state lg c nd sy = Inr (st, sy1, lg1, c1, nd1)"
    and "(instance_step env (sync_view sy1))\<^sup>*\<^sup>* (c1, lg1, nd1) (c2, lg2, nd2)"
    and "consensus_process_message env h m (sync_view sy1) lg2 nd2 c2 = Inr (CS_Decided ds, c3, lg3, nd3)"
  shows "\<exists>stored dl pp ps cs.
    clear_last_occurrences (fs_curr_cid state) (sound_value (fs_sound state)) (lg_declog lg) = Inr (stored, dl) \<and>
    ds = chosen_batch stored (fs_proposed state) \<and>
    lg_declog lg3 = declog_plus dl [pp] ps cs \<and>
    length ps + 1 = view_quorum (sync_view sy) \<and> length cs = view_quorum (sync_view sy) \<and>
    vote_of (co_seq c) (vi_seq (sync_view sy)) (PrePrepare ds) pp \<and>
    (\<forall>m \<in> set ps. vote_of (co_seq c) (vi_seq (sync_view sy)) (Prepare (header_digest (sm_header pp))) m) \<and>
    (\<forall>m \<in> set cs. vote_of (co_seq c) (vi_seq (sync_view sy)) (Commit (header_digest (sm_header pp))) m)"
proof -
  from finalize_instance [OF assms(1)] obtain stored dl pp where f:
    "clear_last_occurrences (fs_curr_cid state) (sound_value (fs_sound state)) (lg_declog lg) = Inr (stored, dl)"
    "sync_view sy1 = sync_view sy" "co_phase c1 = Phase_Preparing 1" "co_seq c1 = co_seq c"
    "lg_declog lg1 = declog_plus dl [pp] [] []" "votes_ok (co_seq c) (vi_seq (sync_view sy)) c1 [pp] [] []"
    "take (co_batch_size c1) (co_current c1) = chosen_batch stored (fs_proposed state)" by blast
  have inv1: "instance_inv (co_seq c) (sync_view sy) dl (c1, lg1, nd1)"
    by (rule instance_invI [OF f(5,6) _ f(4)]) (simp add: f(3))
  then have inv: "instance_inv (co_seq c) (sync_view sy) dl (c2, lg2, nd2)"
    by (rule deciding.reachable_kept [OF assms(2) [unfolded f(2)]])
  from decided_votes [OF inv assms(3) [unfolded f(2)]] obtain pp' ps cs where v:
    "lg_declog lg3 = declog_plus dl [pp'] ps cs" "vote_of (co_seq c) (vi_seq (sync_view sy)) (PrePrepare ds) pp'"
    "length ps + 1 = view_quorum (sync_view sy)" "length cs = view_quorum (sync_view sy)"
    "\<forall>m \<in> set ps. vote_of (co_seq c) (vi_seq (sync_view sy)) (Prepare (header_digest (sm_header pp'))) m"
    "\<forall>m \<in> set cs. vote_of (co_seq c) (vi_seq (sync_view sy)) (Commit (header_digest (sm_header pp'))) m" by blast
  have "proposal (abs_instance (c1, lg1, nd1)) = Some (chosen_batch stored (fs_proposed state), co_current_digest c1)"
    by (simp add: abs_instance_def f(3,7))
  then have "proposal (abs_instance (c2, lg2, nd2)) = Some (chosen_batch stored (fs_proposed state), co_current_digest c1)"
    by (rule abstract_proposal_stable [OF refined.reachable_simulates [OF assms(2) [unfolded f(2)] inv1]])
  then have "ds = chosen_batch stored (fs_proposed state)"
    using decided_proposal [OF assms(3)] by auto
  with f(1) v show ?thesis by blast
qed

definition example_vote_4 :: "u32 \<Rightarrow> consensus_message_kind \<Rightarrow> header \<times> consensus_message" where
  "example_vote_4 i k = (example_header i, \<lparr>cm_seq = SeqNo 5, cm_view = SeqNo 4, cm_kind = k\<rparr>)"

text \<open>The leader of view 4 finishes a view change and then gathers votes.\<close>

theorem view_change_certificate_witness:
  "\<exists>sy1 lg1 c1 nd1 c2 lg2 nd2 c3 lg3 nd3.
     finalize (example_env :: (nat, nat, nat) env) (1, 2, 3, 4)
       \<lparr>fs_curr_cid = SeqNo 0, fs_proposed = [Digest (replicate 32 0)], fs_sound = Unbound True\<rparr>
       example_log (consensus_new (SeqNo 5) 1) example_node (example_sync (SeqNo 4) (SP_StoppingData 2)) =
       Inr (SS_NewView, sy1, lg1, c1, nd1) \<and>
     (instance_step (example_env :: (nat, nat, nat) env) (sync_view sy1))\<^sup>*\<^sup>* (c1, lg1, nd1) (c2, lg2, nd2) \<and>
     consensus_process_message (example_env :: (nat, nat, nat) env) (fst (example_vote_4 3 (Commit (Digest (replicate 32 0)))))
       (snd (example_vote_4 3 (Commit (Digest (replicate 32 0))))) (sync_view sy1) lg2 nd2 c2 =
       Inr (CS_Decided [Digest (replicate 32 0)], c3, lg3, nd3) \<and>
     length (dl_prepares (lg_declog lg3)) = 2 \<and> length (dl_commits (lg_declog lg3)) = 3"
proof -
  let ?env = "example_env :: (nat, nat, nat) env" and ?nd = "example_node :: (nat, nat, nat) node"
  let ?v = "example_view (SeqNo 4)" and ?d = "Digest (replicate 32 0)" and ?c0 = "consensus_new (SeqNo 5) 1"
  let ?state = "\<lparr>fs_curr_cid = SeqNo 0, fs_proposed = [?d], fs_sound = Unbound True\<rparr>"
  let ?sy = "example_sync (SeqNo 4) (SP_StoppingData 2)"
  have lead: "leader ?v = nd_id ?nd"
    by (simp add: leader_def seq_to_usize_def i32_as_usize_def node_of_usize_def example_node_def)
  obtain f where f: "\<And>c k. broadcast_vote ?env c ?v k ?nd = Inr (f c k)"
    using example_broadcast [of _ "SeqNo 4"] by metis
  have clear: "clear_last_occurrences (SeqNo 0) None decision_log_new = Inr (None, decision_log_new)"
    by (simp add: clear_last_occurrences_def decision_log_new_def clear_log_def)
  have ser: "serialize_digest ?env m = Inr (?d, [1, 2, 3])" for m
    by (simp add: serialize_digest_def context_finish_def)
  obtain sy1 lg1 c1 nd1 where fin: "finalize ?env (1, 2, 3, 4) ?state example_log ?c0 ?nd ?sy = Inr (SS_NewView, sy1, lg1, c1, nd1)"
    and c1: "co_phase c1 = Phase_Preparing 1" "co_seq c1 = SeqNo 5" "co_current_digest c1 = ?d" "co_batch_size c1 = 1"
      "co_current c1 = [?d]" "nd1 = ?nd" "sync_view sy1 = ?v"
    using clear ser lead
    by (simp add: finalize_def Let_def forge_propose_def consensus_msg_def log_push_def decision_log_new_def
        finalize_view_change_def copy_current_def consensus_new_def tbo_queue_new_def sync_next_instance_queue_def)
  obtain c2 lg2 nd2 where run: "process_votes ?env ?v [example_vote_4 1 (Prepare ?d), example_vote_4 2 (Prepare ?d),
      example_vote_4 1 (Commit ?d), example_vote_4 2 (Commit ?d)] (c1, lg1, ?nd) = Inr (CS_Deciding, c2, lg2, nd2)"
    and c2: "co_phase c2 = Phase_Committing 2" "co_seq c2 = SeqNo 5" "co_current_digest c2 = ?d" "co_batch_size c2 = 1"
      "co_current c2 = [?d]"
    using c1 by (simp add: example_vote_4_def consensus_process_message_def process_preparing_def process_committing_def Let_def f)
  have steps: "(instance_step ?env (sync_view sy1))\<^sup>*\<^sup>* (c1, lg1, nd1) (c2, lg2, nd2)"
    using process_votes_steps [OF run] c1 by simp
  obtain c3 lg3 where dec: "consensus_process_message ?env (fst (example_vote_4 3 (Commit ?d))) (snd (example_vote_4 3 (Commit ?d)))
      (sync_view sy1) lg2 nd2 c2 = Inr (CS_Decided [?d], c3, lg3, nd2)"
    using c2 c1(7) by (simp add: consensus_process_message_def process_committing_def example_vote_4_def Let_def)
  have "length (dl_prepares (lg_declog lg3)) = 2" "length (dl_commits (lg_declog lg3)) = 3"
    using view_change_certificate [OF fin steps dec] clear
    by (auto simp: declog_plus_def decision_log_new_def)
  with fin steps dec show ?thesis by blast
qed

text \<open>
  C17. The sound value. \<open>sound\<close> accepts exactly when some timestamp and value satisfy the
  predicate \<open>binds\<close> or the collects are \<open>unbound\<close>, and a value it binds satisfies \<open>binds\<close>. With
  at most a quorum of collects no two values do, so the result does not depend on the order
  in which the hash sets are iterated, and leader and followers choose the same value.
\<close>

theorem sound_spec:
  fixes env env' :: "('s, 'o, 'p, 'z) env_scheme"
  assumes "hash_order (env_ord_seq env)" and "hash_order (env_ord_digest env)"
    and "hash_order (env_ord_seq env')" and "hash_order (env_ord_digest env')"
  shows "(sound_test (sound_of env view ncs) \<longleftrightarrow> (\<exists>ts v. binds view ts v ncs) \<or> unbound view ncs) \<and>
    (\<forall>v. sound_of env view ncs = Bound v \<longrightarrow> (\<exists>ts. binds view ts v ncs)) \<and>
    (length ncs \<le> view_quorum view \<longrightarrow>
       (\<forall>ts v. binds view ts v ncs \<longrightarrow> sound_of env view ncs = Bound v) \<and>
       sound_of env' view ncs = sound_of env view ncs)"
proof (intro conjI impI allI)
  note f = sound_of_find [OF assms(1,2), of view ncs]
  show "sound_test (sound_of env view ncs) \<longleftrightarrow> (\<exists>ts v. binds view ts v ncs) \<or> unbound view ncs"
    using f by (cases "sound_of env view ncs") auto
  show "\<exists>ts. binds view ts v ncs" if "sound_of env view ncs = Bound v" for v
    using f that by simp
  assume len: "length ncs \<le> view_quorum view"
  show "sound_of env view ncs = Bound v" if "binds view ts v ncs" for ts v
    by (rule sound_of_bound [OF assms(1,2) len that])
  show "sound_of env' view ncs = sound_of env view ncs"
  proof (cases "\<exists>ts v. binds view ts v ncs")
    case True
    then obtain ts v where "binds view ts v ncs" by blast
    from sound_of_bound [OF assms(1,2) len this] sound_of_bound [OF assms(3,4) len this] show ?thesis by simp
  next
    case False
    then show ?thesis
      using sound_of_unbound [OF assms(1,2), of view ncs] sound_of_unbound [OF assms(3,4), of view ncs] by simp
  qed
qed

theorem sound_spec_witness:
  "sound_of (example_env :: (nat, nat, nat) env) (example_view (SeqNo 1)) (replicate 3 (Some example_collect))
     = Bound (Digest [7]) \<and>
   sound_of ((example_env :: (nat, nat, nat) env)\<lparr>env_ord_seq := rev, env_ord_digest := rev\<rparr>) (example_view (SeqNo 1))
     (replicate 3 (Some example_collect)) = Bound (Digest [7])"
proof -
  let ?env = "example_env :: (nat, nat, nat) env" and ?ncs = "replicate 3 (Some example_collect)"
  let ?env' = "?env\<lparr>env_ord_seq := rev, env_ord_digest := rev\<rparr>"
  have ncs: "some_collects ?ncs = [example_collect, example_collect, example_collect]"
    by (simp add: some_collects_def numeral_3_eq_3)
  have b: "binds (example_view (SeqNo 1)) (SeqNo 1) (Digest [7]) ?ncs"
    by (simp add: binds_def quorum_highest_def certified_value_def ncs seq_cmp_def)
  have o: "hash_order (env_ord_seq ?env)" "hash_order (env_ord_digest ?env)"
    "hash_order (env_ord_seq ?env')" "hash_order (env_ord_digest ?env')"
    by (simp_all add: example_env_def)
  show ?thesis
    using sound_spec [OF o, of "example_view (SeqNo 1)" ?ncs] b by simp
qed

text \<open>
  Certified values. If no collect lists a value twice, a certified value is listed by more
  than \<open>f\<close> collects, so by one of a correct replica. The predicate counts pairs and not
  collects, however: a single collect that repeats a pair \<open>f + 1\<close> times certifies its value.
\<close>

theorem certified_value_counts_pairs:
  "(certified_value view ts v ncs \<and>
      (\<forall>c \<in> set (some_collects ncs). length (filter (\<lambda>p. pair_value p = v) (write_set c)) \<le> 1) \<longrightarrow>
    view_f view < length (filter (\<lambda>c. \<exists>ts'. ViewDecisionPair ts' v \<in> set (write_set c)) (some_collects ncs))) \<and>
   (write_set c = replicate (view_f view + 1) (ViewDecisionPair ts v) \<and> Some c \<in> set ncs \<longrightarrow>
      certified_value view ts v ncs)"
proof (intro conjI impI)
  let ?cnt = "\<lambda>c. length (filter (\<lambda>p. seq_ge (pair_ts p) ts \<and> pair_value p = v) (write_set c))"
  let ?has = "\<lambda>c. \<exists>ts'. ViewDecisionPair ts' v \<in> set (write_set c)"
  assume a: "certified_value view ts v ncs \<and>
      (\<forall>c \<in> set (some_collects ncs). length (filter (\<lambda>p. pair_value p = v) (write_set c)) \<le> 1)"
  have one: "?cnt c \<le> (if ?has c then 1 else 0)" if "c \<in> set (some_collects ncs)" for c
  proof (cases "?has c")
    case True
    have "filter (\<lambda>p. seq_ge (pair_ts p) ts \<and> pair_value p = v) (write_set c) =
        filter (\<lambda>p. seq_ge (pair_ts p) ts) (filter (\<lambda>p. pair_value p = v) (write_set c))"
      by (simp add: conj_commute)
    then have "?cnt c \<le> length (filter (\<lambda>p. pair_value p = v) (write_set c))"
      using length_filter_le by metis
    also have "\<dots> \<le> 1" using a that by blast
    finally show ?thesis using True by simp
  next
    case False
    then have "filter (\<lambda>p. seq_ge (pair_ts p) ts \<and> pair_value p = v) (write_set c) = []"
      by (auto simp: filter_empty_conv) (metis pair_value.simps view_decision_pair.exhaust)
    then show ?thesis by simp
  qed
  have "sum_list (map ?cnt (some_collects ncs)) \<le> sum_list (map (\<lambda>c. if ?has c then 1 else 0) (some_collects ncs))"
    by (rule sum_list_mono) (rule one)
  also have "\<dots> = length (filter ?has (some_collects ncs))" by (rule sum_list_indicator)
  finally show "view_f view < length (filter ?has (some_collects ncs))"
    using a by (simp add: certified_value_def)
next
  let ?cnt = "\<lambda>c. length (filter (\<lambda>p. seq_ge (pair_ts p) ts \<and> pair_value p = v) (write_set c))"
  assume a: "write_set c = replicate (view_f view + 1) (ViewDecisionPair ts v) \<and> Some c \<in> set ncs"
  then have "c \<in> set (some_collects ncs)" by (force simp: some_collects_def map_filter_def)
  then have "?cnt c \<le> sum_list (map ?cnt (some_collects ncs))" by (intro member_le_sum_list) auto
  with a show "certified_value view ts v ncs" by (simp add: certified_value_def)
qed

theorem certified_value_counts_pairs_witness:
  "1 < length (filter (\<lambda>c. \<exists>ts'. ViewDecisionPair ts' (Digest [7]) \<in> set (write_set c))
     (some_collects (replicate 3 (Some example_collect)))) \<and>
   certified_value (example_view (SeqNo 1)) (SeqNo 1) (Digest [7])
     [None, None, Some (example_collect\<lparr>cd_incomplete_proof := \<lparr>ip_in_exec = SeqNo 5,
        ip_write_set = replicate 2 (ViewDecisionPair (SeqNo 1) (Digest [7])), ip_quorum_writes = None\<rparr>\<rparr>)]"
proof -
  let ?ncs = "replicate 3 (Some example_collect)" and ?v = "example_view (SeqNo 1)"
  let ?c = "example_collect\<lparr>cd_incomplete_proof := \<lparr>ip_in_exec = SeqNo 5,
        ip_write_set = replicate 2 (ViewDecisionPair (SeqNo 1) (Digest [7])), ip_quorum_writes = None\<rparr>\<rparr>"
  have ncs: "some_collects ?ncs = [example_collect, example_collect, example_collect]"
    by (simp add: some_collects_def numeral_3_eq_3)
  have "certified_value ?v (SeqNo 1) (Digest [7]) ?ncs" by (simp add: certified_value_def ncs)
  moreover have "\<forall>c \<in> set (some_collects ?ncs). length (filter (\<lambda>p. pair_value p = Digest [7]) (write_set c)) \<le> 1"
    by (simp add: ncs)
  ultimately have "view_f ?v < length (filter (\<lambda>c. \<exists>ts'. ViewDecisionPair ts' (Digest [7]) \<in> set (write_set c)) (some_collects ?ncs))"
    using certified_value_counts_pairs [of ?v "SeqNo 1" "Digest [7]" ?ncs] by blast
  moreover have "certified_value ?v (SeqNo 1) (Digest [7]) [None, None, Some ?c]"
    using certified_value_counts_pairs [of ?v "SeqNo 1" "Digest [7]" "[None, None, Some ?c]" ?c]
    by (simp add: numeral_2_eq_2)
  ultimately show ?thesis by simp
qed

text \<open>
  C35. Followers never accept a \<open>SYNC\<close>. The signature of a stored message is checked on a wire
  message rebuilt with an empty payload, which fails for the header of every message that
  had a payload. So no follower keeps any collect of the new leader, its state after a
  \<open>SYNC\<close> of the current view is the state before, and no proof of a decision is ever valid.
\<close>

theorem sync_never_accepted:
  assumes "sy_phase sy = SP_Syncing" and "vc_kind m = Sync lc" and "vc_view m = vi_seq (sync_view sy)"
    and "params_wf (vi_params (sync_view sy))"
    and "\<forall>st \<in> set (lc_collects lc). sent_header env (sm_header st)"
    and "\<forall>st \<in> set (pf_commits pf). sent_header env (sm_header st)"
  shows "sync_process_message env now seed h m (sy, rest) = Inr (SS_Running, sy, rest) \<and>
    \<not> proof_valid env (sync_view sy) nd pf"
proof -
  have "signed_collects env nd (lc_collects lc) = []" for nd
    using assms(5) by (auto simp: signed_collects_def filter_empty_conv validate_signature_rejects)
  then have "\<not> sound_test (sound_of env (sync_view sy) (normalized_collects cid
      (collect_data_msgs (signed_collects env nd (lc_collects lc)))))" for cid nd
    using quorum_pos [OF assms(4)]
    by (simp add: collect_data_msgs_def normalized_collects_def sound_of_few)
  then have "sync_process_message env now seed h m (sy, rest) = Inr (SS_Running, sy, rest)"
    using assms(1-3) by (cases rest) (simp add: sync_process_message_def process_syncing_def Let_def)
  moreover have "filter (\<lambda>st. validate_signature env nd (sm_header st)) (filter P (pf_commits pf)) = []" for P
    using assms(6) by (auto simp: filter_empty_conv validate_signature_rejects)
  ultimately show ?thesis using quorum_pos [OF assms(4)] by (simp add: proof_valid_def Let_def)
qed

theorem sync_never_accepted_witness:
  "sync_process_message (example_env :: (nat, nat, nat) env) 9 (1, 2, 3, 4) (example_header 1)
     (ViewChangeMessage (SeqNo 1) (Sync (LeaderCollects [Digest [7]]
        [StoredMessage (wm_header (wire_message_new (example_env :: (nat, nat, nat) env) (NodeId 2) (NodeId 1) [1, 2, 3] 5
           (Some (Digest [7])) None)) (ViewChangeMessage (SeqNo 1) (StopData example_collect))])))
     (example_sync (SeqNo 1) SP_Syncing, timeouts_new, log_new 1, consensus_new (SeqNo 0) 1, example_node) =
   Inr (SS_Running, example_sync (SeqNo 1) SP_Syncing, timeouts_new, log_new 1, consensus_new (SeqNo 0) 1, example_node)"
proof -
  let ?env = "example_env :: (nat, nat, nat) env"
  let ?h = "wm_header (wire_message_new ?env (NodeId 2) (NodeId 1) [1, 2, 3] 5 (Some (Digest [7])) None)"
  let ?lc = "LeaderCollects [Digest [7]] [StoredMessage ?h (ViewChangeMessage (SeqNo 1) (StopData example_collect))]"
  let ?pf = "\<lparr>pf_pre_prepare = example_vote 0 (SeqNo 1) (PrePrepare []), pf_prepares = [], pf_commits = []\<rparr>"
  have "sent_header ?env ?h"
    unfolding sent_header_def
    by (intro exI [of _ "NodeId 2"] exI [of _ "NodeId 1"] exI [of _ "[1, 2, 3]"] exI [of _ 5]
        exI [of _ "Some (Digest [7])"] exI [of _ None]) simp
  then have c: "\<forall>st \<in> set (lc_collects ?lc). sent_header ?env (sm_header st)" by simp
  have p: "\<forall>st \<in> set (pf_commits ?pf). sent_header ?env (sm_header st)" by simp
  show ?thesis
    using sync_never_accepted [of "example_sync (SeqNo 1) SP_Syncing" "ViewChangeMessage (SeqNo 1) (Sync ?lc)" ?lc, OF _ _ _ _ c p]
    by (simp add: example_view_wf)
qed

end
