(* ===== verification/Agreement.thy ===== *)
theory Agreement
  imports Certificates
begin

text \<open>
  What ties the consensus instances of several replicas together: a replica that has
  reached the commit phase of an instance stays there with one value, so it votes for one
  value only, and two quorums of such votes share a correct voter. The theory also runs the
  leader of a view through an instance with any three committers.
\<close>

section \<open>One commit vote per instance\<close>

fun committing :: "('s, 'o, 'p) instance_state \<Rightarrow> bool" where
  "committing (c, lg, nd) = (case co_phase c of Phase_Committing _ \<Rightarrow> True | _ \<Rightarrow> False)"

fun current_digest :: "('s, 'o, 'p) instance_state \<Rightarrow> digest" where
  "current_digest (c, lg, nd) = co_current_digest c"

text \<open>
  The states of one replica during an instance, in order. Its commit vote is sent on the
  step of \<open>process_preparing\<close> that enters the commit phase, with the digest it then has.
\<close>

definition votes_commit :: "('s, 'o, 'p) instance_state list \<Rightarrow> digest \<Rightarrow> bool" where
  "votes_commit tr d \<longleftrightarrow> (\<exists>st \<in> set tr. committing st \<and> current_digest st = d)"

lemma process_committing_stays:
  assumes "process_committing env i h m view lg nd c = Inr (CS_Deciding, c', lg', nd')"
    and "co_phase c = Phase_Committing i"
  shows "(\<exists>j. co_phase c' = Phase_Committing j) \<and> co_current_digest c' = co_current_digest c"
  using assms by (auto simp: process_committing_def Let_def split: consensus_message_kind.splits if_splits)

lemma committing_step:
  assumes "instance_step env view st st'" and "committing st"
  shows "committing st' \<and> current_digest st' = current_digest st"
  using assms
proof (cases rule: instance_step.cases)
  case (is_message h m lg nd c c' lg' nd')
  then obtain i where i: "co_phase c = Phase_Committing i" using assms(2) by (auto split: proto_phase.splits)
  then have "process_committing env i h m view lg nd c = Inr (CS_Deciding, c', lg', nd')"
    using is_message(3) by (simp add: consensus_process_message_def)
  from process_committing_stays [OF this i] show ?thesis using is_message by auto
next
  case (is_poll lg c st0 c' nd)
  with consensus_poll_frame [OF is_poll(3)] assms(2) show ?thesis by (auto split: proto_phase.splits)
next
  case (is_propose lg ds lg' nd c c' nd')
  with propose_frame [OF is_propose(4)] assms(2) show ?thesis by (auto split: proto_phase.splits)
qed (use assms(2) in \<open>auto simp: consensus_signal_def consensus_queue_def\<close>)

lemma committing_later:
  assumes "successively (instance_step env view) (st # tr)" and "committing st" and "st' \<in> set tr"
  shows "current_digest st' = current_digest st"
  using assms
proof (induction tr arbitrary: st)
  case (Cons st1 tr)
  then have st1: "committing st1" "current_digest st1 = current_digest st"
    using committing_step [of env view st st1] by auto
  have "st' = st1 \<or> st' \<in> set tr" using Cons.prems(3) by simp
  then show ?case
  proof
    assume "st' \<in> set tr"
    then have "current_digest st' = current_digest st1"
      using Cons.prems(1) by (intro Cons.IH [OF _ st1(1)]) simp_all
    then show ?thesis using st1(2) by simp
  qed (simp add: st1(2))
qed simp

text \<open>A replica that runs the model votes for one value.\<close>

lemma one_commit_vote:
  assumes "successively (instance_step env view) tr" and "votes_commit tr d" and "votes_commit tr d'"
  shows "d = d'"
proof -
  have "current_digest st = current_digest st'"
    if "st \<in> set tr" and "st' \<in> set tr" and "committing st" and "committing st'" for st st'
    using assms(1) that
  proof (induction tr)
    case (Cons s tr)
    show ?case
    proof (cases "st = s \<or> st' = s")
      case True
      have later: "current_digest x = current_digest s" if "committing s" and "x \<in> set (s # tr)" for x
        using that committing_later [OF Cons.prems(1), of x] by (cases "x = s") simp_all
      show ?thesis using True later Cons.prems(2-) by metis
    next
      case False
      then show ?thesis using Cons.prems by (intro Cons.IH) (auto simp: successively_Cons)
    qed
  qed simp
  then show ?thesis using assms(2,3) unfolding votes_commit_def by blast
qed

section \<open>The votes of a decision\<close>

definition new_proposals :: "('s, 'o) log \<Rightarrow> ('s, 'o) log \<Rightarrow> stored_consensus list" where
  "new_proposals lg lg' = drop (length (dl_pre_prepares (lg_declog lg))) (dl_pre_prepares (lg_declog lg'))"

definition new_commits :: "('s, 'o) log \<Rightarrow> ('s, 'o) log \<Rightarrow> stored_consensus list" where
  "new_commits lg lg' = drop (length (dl_commits (lg_declog lg))) (dl_commits (lg_declog lg'))"

definition voter :: "stored_consensus \<Rightarrow> node_id" where
  "voter m = header_from (sm_header m)"

lemma decision_votes:
  assumes "(instance_step env view)\<^sup>*\<^sup>* (c0, lg0, nd0) (c, lg, nd)" and "co_phase c0 = Phase_Init"
    and "consensus_process_message env h m view lg nd c = Inr (CS_Decided ds, c', lg', nd')"
  obtains pp where "new_proposals lg0 lg' = [pp]" and "cm_kind (sm_message pp) = PrePrepare ds"
    and "length (new_commits lg0 lg') = view_quorum view"
    and "\<forall>v \<in> set (new_commits lg0 lg'). cm_kind (sm_message v) = Commit (header_digest (sm_header pp))"
proof -
  have "instance_inv (co_seq c0) view (lg_declog lg0) (c, lg, nd)"
    by (rule deciding.reachable_kept [OF assms(1) instance_inv_init [OF assms(2)]])
  from decided_votes [OF this assms(3)] show thesis
    by (auto simp: declog_plus_def new_proposals_def new_commits_def vote_of_def intro!: that)
qed

text \<open>Two quorums of distinct members share a member outside any set of \<open>f\<close> faulty ones.\<close>

lemma common_voter:
  assumes "params_tight (vi_params view)" and "F \<subseteq> set (view_targets view)" and "card F \<le> view_f view"
    and "length ms = view_quorum view" and "distinct (map voter ms)" and "voter ` set ms \<subseteq> set (view_targets view)"
    and "length ms' = view_quorum view" and "distinct (map voter ms')" and "voter ` set ms' \<subseteq> set (view_targets view)"
  obtains x y where "x \<in> set ms" and "y \<in> set ms'" and "voter x = voter y" and "voter x \<notin> F"
proof -
  have wf: "params_wf (vi_params view)" using assms(1) by (simp add: params_tight_def)
  have "card (set (view_targets view)) = view_n view"
    using distinct_card [OF view_targets_distinct [OF wf]] by (simp add: view_targets_def node_targets_def)
  moreover have "card (voter ` set ms) = view_quorum view" "card (voter ` set ms') = view_quorum view"
    using distinct_card [OF assms(5)] distinct_card [OF assms(8)] assms(4,7) by simp_all
  ultimately have "\<exists>v \<in> voter ` set ms \<inter> voter ` set ms'. v \<notin> F"
    using bq.common_correct_member [OF assms(1) _ _ assms(6,9) _ _ assms(2)] assms(3) by simp
  then show thesis using that by force
qed

section \<open>A run to a decision\<close>

text \<open>The leader of view 0 decides its proposal with the commits of any three replicas.\<close>

definition example_decides :: "u32 list \<Rightarrow> (nat, nat, nat) instance_state \<Rightarrow> (nat, nat) log \<Rightarrow> bool" where
  "example_decides is st lg' \<longleftrightarrow>
     (instance_step (example_env :: (nat, nat, nat) env) (example_view (SeqNo 0)))\<^sup>*\<^sup>*
       (consensus_new (SeqNo 5) 1, example_log, example_node) st \<and>
     (case st of (c, lg, nd) \<Rightarrow> \<exists>c' nd'.
        consensus_process_message (example_env :: (nat, nat, nat) env) (fst (example_commit (last is)))
          (snd (example_commit (last is))) (example_view (SeqNo 0)) lg nd c =
        Inr (CS_Decided [Digest (replicate 32 0)], c', lg', nd')) \<and>
     new_proposals example_log lg' = [StoredMessage (fst example_proposal) (snd example_proposal)] \<and>
     new_commits example_log lg' = map (\<lambda>i. StoredMessage (fst (example_commit i)) (snd (example_commit i))) is"

lemma example_decides_ex: "\<exists>st lg'. example_decides [i, j, k] st lg' \<and> votes_commit [st] (Digest (replicate 32 7))"
proof -
  obtain c lg nd c' lg' nd' where run: "(instance_step (example_env :: (nat, nat, nat) env) (example_view (SeqNo 0)))\<^sup>*\<^sup>*
      (consensus_new (SeqNo 5) 1, example_log, example_node) (c, lg, nd)"
    "consensus_process_message example_env (fst (example_commit k)) (snd (example_commit k))
       (example_view (SeqNo 0)) lg nd c = Inr (CS_Decided [Digest (replicate 32 0)], c', lg', nd')"
    and lg': "lg' = fold (\<lambda>(h, m). log_push h m) [example_proposal, example_prepare 1, example_prepare 2,
       example_commit i, example_commit j, example_commit k] example_log"
    and c: "co_phase c = Phase_Committing 2" "co_current_digest c = Digest (replicate 32 7)"
    using example_run_of [of k i j] by blast
  have "new_proposals example_log lg' = [StoredMessage (fst example_proposal) (snd example_proposal)]"
    "new_commits example_log lg' = map (\<lambda>i. StoredMessage (fst (example_commit i)) (snd (example_commit i))) [i, j, k]"
    by (simp_all add: lg' log_push_def example_proposal_def example_prepare_def example_commit_def
        new_proposals_def new_commits_def decision_log_new_def)
  with run have "example_decides [i, j, k] (c, lg, nd) lg'" unfolding example_decides_def by auto
  moreover have "votes_commit [(c, lg, nd)] (Digest (replicate 32 7))" using c by (simp add: votes_commit_def)
  ultimately show ?thesis by blast
qed

lemma example_decides_votes:
  assumes "example_decides is st lg'"
  shows "map voter (new_commits example_log lg') = map NodeId is"
    and "v \<in> set (new_commits example_log lg') \<Longrightarrow> cm_kind (sm_message v) = Commit (Digest (replicate 32 7))"
    and "set (new_proposals example_log lg') = {StoredMessage (fst example_proposal) (snd example_proposal)}"
proof -
  have votes: "new_commits example_log lg' = map (\<lambda>i. StoredMessage (fst (example_commit i)) (snd (example_commit i))) is"
    "new_proposals example_log lg' = [StoredMessage (fst example_proposal) (snd example_proposal)]"
    using assms by (simp_all add: example_decides_def)
  show "map voter (new_commits example_log lg') = map NodeId is"
    by (simp add: votes voter_def header_from_def node_of_u32_def example_commit_def example_header_def)
  show "cm_kind (sm_message v) = Commit (Digest (replicate 32 7))" if "v \<in> set (new_commits example_log lg')"
    using that by (auto simp: votes example_commit_def)
  show "set (new_proposals example_log lg') = {StoredMessage (fst example_proposal) (snd example_proposal)}"
    by (simp add: votes)
qed

lemma example_targets: "set (view_targets (example_view s)) = NodeId ` {0, 1, 2, 3}"
proof -
  have "[0..<view_n (example_view s)] = [0, 1, 2, 3]" by (simp add: example_view_def upt_rec)
  then show ?thesis by (simp add: view_targets_def node_targets_def node_of_usize_def)
qed

end
