(* ===== verification/Connection.thy ===== *)
theory Connection
  imports Communication
begin

text \<open>
  The receiving side of a node and how it is connected (\<open>src/bft/communication/mod.rs\<close>):
  the tasks that connect to peers and accept their connections, the task that reads
  messages from an accepted connection, and the bootstrap of a node. What the sockets and
  the TLS layer do is an argument of each task.
\<close>

section \<open>Connecting\<close>

text \<open>The bytes \<open>write_to\<close> hands to the socket.\<close>

definition wire_message_write_to :: "wire_message \<Rightarrow> u8 list res" where
  "wire_message_write_to wm =
     (case header_serialize_into (wm_header wm) (replicate HEADER_LENGTH 0) of
        Inl _ \<Rightarrow> Inl (Panic ''called `Result::unwrap()` on an `Err` value'')
      | Inr buf \<Rightarrow> Inr (if length (wm_payload wm) > 0 then buf @ wm_payload wm else buf))"

definition targets_u32 :: "u32 list \<Rightarrow> node_id list" where
  "targets_u32 ids = map NodeId ids"

definition tx_side_connect_add ::
  "node_id \<Rightarrow> (node_id, peer_addr) hmap \<Rightarrow> node_id \<Rightarrow> prng_state \<times> connection_task list
     \<Rightarrow> (prng_state \<times> connection_task list) res" where
  "tx_side_connect_add my_id addrs peer_id st =
     (case st of (rng, spawned) \<Rightarrow>
        (case hmap_get addrs peer_id of
           None \<Rightarrow> Inl (Panic ''no entry found for key'')
         | Some addr \<Rightarrow>
             (case next_state rng of
                (nonce, rng) \<Rightarrow> Inr (rng, spawned @ [ConnectTask my_id peer_id nonce addr]))))"

fun tx_side_connect_loop ::
  "node_id \<Rightarrow> (node_id, peer_addr) hmap \<Rightarrow> node_id list \<Rightarrow> prng_state \<times> connection_task list
     \<Rightarrow> (prng_state \<times> connection_task list) res" where
  "tx_side_connect_loop my_id addrs [] st = Inr st"
| "tx_side_connect_loop my_id addrs (peer_id # peers) st =
     bind_res (tx_side_connect_add my_id addrs peer_id st) (tx_side_connect_loop my_id addrs peers)"

definition tx_side_connect ::
  "u32 \<Rightarrow> node_id \<Rightarrow> (node_id, peer_addr) hmap \<Rightarrow> prng_state \<Rightarrow> (prng_state \<times> connection_task list) res" where
  "tx_side_connect n my_id addrs rng =
     tx_side_connect_loop my_id addrs
       (filter (\<lambda>i. i \<noteq> my_id) (targets_u32 (map of_nat [0..<unat n]))) (rng, [])"

text \<open>The bytes that open a connection: a header with no payload, no digest and no signature.\<close>

definition connect_header :: "('z) crypto_scheme \<Rightarrow> node_id \<Rightarrow> node_id \<Rightarrow> u64 \<Rightarrow> u8 list res" where
  "connect_header c my_id peer_id nonce =
     (case header_serialize_into (wm_header (wire_message_new c my_id peer_id [] nonce None None))
             (replicate HEADER_LENGTH 0) of
        Inl _ \<Rightarrow> Inl (Panic ''called `Result::unwrap()` on an `Err` value'')
      | Inr buf \<Rightarrow> Inr buf)"

text \<open>
  What an attempt to connect comes to: no connection, a failed handshake, or a socket and
  whether writing to it succeeds.
\<close>

datatype connect_outcome =
    Refused
  | Handshake_Failed
  | Shaken socket bool

definition RETRY :: nat where
  "RETRY = 3 * 60"

fun connect_attempts ::
  "('z) crypto_scheme \<Rightarrow> node_id \<Rightarrow> node_id \<Rightarrow> u64 \<Rightarrow> nat \<Rightarrow> (nat \<Rightarrow> connect_outcome) \<Rightarrow> nat
     \<Rightarrow> (socket \<times> u8 list) option res" where
  "connect_attempts c my_id peer_id nonce 0 attempt i = Inr None"
| "connect_attempts c my_id peer_id nonce (Suc left) attempt i =
     (case attempt i of
        Refused \<Rightarrow> connect_attempts c my_id peer_id nonce left attempt (i + 1)
      | Handshake_Failed \<Rightarrow> Inr None
      | Shaken sock written \<Rightarrow>
          bind_res (connect_header c my_id peer_id nonce) (\<lambda>buf.
          Inr (if written then Some (sock, buf) else None)))"

text \<open>The message the task puts on the master channel, and the bytes it wrote to the new socket.\<close>

definition tx_side_connect_task ::
  "('z) crypto_scheme \<Rightarrow> node_id \<Rightarrow> node_id \<Rightarrow> u64 \<Rightarrow> (nat \<Rightarrow> connect_outcome)
     \<Rightarrow> (('s, 'o, 'p) message \<times> u8 list) res" where
  "tx_side_connect_task c my_id peer_id nonce attempt =
     bind_res (connect_attempts c my_id peer_id nonce RETRY attempt 0) (\<lambda>connected.
     Inr (case connected of
            Some (sock, buf) \<Rightarrow> (ConnectedTx peer_id sock, buf)
          | None \<Rightarrow> (DisconnectedTx peer_id, [])))"

definition read_exact :: "nat \<Rightarrow> u8 list \<Rightarrow> (u8 list \<times> u8 list) option" where
  "read_exact n stream = (if length stream < n then None else Some (take n stream, drop n stream))"

text \<open>
  Accepting: \<open>accepted\<close> is the result of the TLS handshake, a socket and all the bytes the
  peer ever writes to it. The result is the message the task puts on the master channel and
  what it left unread. The buffer handed to \<open>deserialize_from\<close> has the length of a header,
  so its \<open>unwrap\<close> cannot panic: the branch in which the task ends silently is never taken.
\<close>

definition rx_side_accept_task ::
  "('z) crypto_scheme \<Rightarrow> node_id \<Rightarrow> node_id \<Rightarrow> (socket \<times> u8 list) option
     \<Rightarrow> (('s, 'o, 'p) message \<times> u8 list) option" where
  "rx_side_accept_task c first_cli my_id accepted =
     (case accepted of
        None \<Rightarrow> Some (DisconnectedRx None, [])
      | Some (sock, stream) \<Rightarrow>
          (case read_exact HEADER_LENGTH stream of
             None \<Rightarrow> Some (DisconnectedRx None, [])
           | Some (buf_header, rest) \<Rightarrow>
               (case header_deserialize_from buf_header of
                  Inl _ \<Rightarrow> None
                | Inr h \<Rightarrow>
                    (case wire_message_from_parts c h [] of
                       Inr wm \<Rightarrow>
                         (if header_from (wm_header wm) \<ge> first_cli \<and> my_id \<ge> first_cli
                          then Some (DisconnectedRx None, rest)
                          else if header_to (wm_header wm) \<noteq> my_id then Some (DisconnectedRx None, rest)
                          else Some (ConnectedRx (header_from (wm_header wm)) sock, rest))
                     | Inl _ \<Rightarrow> Some (DisconnectedRx None, rest)))))"

section \<open>Receiving\<close>

definition handle_connected_rx :: "node_id \<Rightarrow> socket \<Rightarrow> ('s, 'o, 'p) node \<Rightarrow> ('s, 'o, 'p) node res" where
  "handle_connected_rx peer_id sock nd =
     bind_res
       (case nd_peer_tx nd of
          PeerTx_Server peer_tx \<Rightarrow>
            (if peer_id \<ge> nd_first_cli nd \<and> \<not> hmap_contains peer_tx peer_id
             then (case hmap_get (nd_peer_addrs nd) peer_id of
                     None \<Rightarrow> Inl (Panic ''no entry found for key'')
                   | Some addr \<Rightarrow>
                       (case next_state (nd_rng nd) of
                          (nonce, rng) \<Rightarrow>
                            Inr (nd\<lparr>nd_rng := rng, nd_connections :=
                              nd_connections nd @ [ConnectTask (nd_id nd) peer_id nonce addr]\<rparr>)))
             else Inr nd)
        | PeerTx_Client _ \<Rightarrow> Inr nd)
       (\<lambda>nd. Inr (nd\<lparr>nd_connections := nd_connections nd @ [ReceiveTask peer_id sock]\<rparr>))"

text \<open>
  The task that reads from a connection, on all the bytes the peer ever sends: the messages
  it puts on the master channel. As above, the \<open>unwrap\<close> of \<open>deserialize_from\<close> cannot panic.
  A codec that panics ends the task without a further message.
\<close>

function receive_loop ::
  "('s, 'o, 'p, 'z) env_scheme \<Rightarrow> node_id \<Rightarrow> u8 list \<Rightarrow> ('s, 'o, 'p) message list" where
  "receive_loop env peer_id stream =
     (case read_exact HEADER_LENGTH stream of
        None \<Rightarrow> [DisconnectedRx (Some peer_id)]
      | Some (buf, rest) \<Rightarrow>
          (case header_deserialize_from buf of
             Inl _ \<Rightarrow> []
           | Inr h \<Rightarrow>
               (case read_exact (payload_length h) rest of
                  None \<Rightarrow> [DisconnectedRx (Some peer_id)]
                | Some (payload, rest) \<Rightarrow>
                    (case env_deserialize env payload of
                       Inl (Panic _) \<Rightarrow> []
                     | Inl (Err _) \<Rightarrow> [DisconnectedRx (Some peer_id)]
                     | Inr m \<Rightarrow> System h m # receive_loop env peer_id rest))))"
  by pat_completeness auto
termination
  by (relation "measure (\<lambda>(_, _, stream). length stream)")
    (auto simp: read_exact_def HEADER_LENGTH_def split: if_splits)

declare receive_loop.simps [simp del]

section \<open>Bootstrap\<close>

record node_config =
  nc_n :: usize
  nc_f :: usize
  nc_id :: node_id
  nc_first_cli :: node_id
  nc_addrs :: "(node_id, peer_addr) hmap"
  nc_pk :: "(node_id, public_key) hmap"
  nc_sk :: key_pair

text \<open>Decimal digits, as \<open>format!\<close> prints a \<open>u32\<close>.\<close>

fun show_nat :: "nat \<Rightarrow> string" where
  "show_nat k = (if k < 10 then [char_of (48 + k)] else show_nat (k div 10) @ [char_of (48 + k mod 10)])"

declare show_nat.simps [simp del]

definition show_u32 :: "u32 \<Rightarrow> string" where
  "show_u32 w = show_nat (unat w)"

definition all_connected :: "node_id \<Rightarrow> i32 list \<Rightarrow> bool" where
  "all_connected my_id c = (\<not> list_ex (\<lambda>(i, cnt). i \<noteq> node_to_usize my_id \<and> cnt \<noteq> 2) (enumerate 0 c))"

definition count_connection :: "node_id \<Rightarrow> node_id \<Rightarrow> i32 list \<Rightarrow> i32 list res" where
  "count_connection first_cli i c =
     (if i < first_cli
      then (if node_to_usize i < length c
            then Inr (c[node_to_usize i := c ! node_to_usize i + 1])
            else Inl (Panic ''index out of bounds''))
      else Inr c)"

text \<open>
  The loop over the messages of the channel: \<open>Inr None\<close> when it still waits after the last
  of them, else the node, the rogue messages and what is left on the channel.
\<close>

fun bootstrap_loop ::
  "node_id \<Rightarrow> ('s, 'o, 'p) message list \<Rightarrow> ('s, 'o, 'p) node \<Rightarrow> i32 list \<Rightarrow> ('s, 'o, 'p) message list
     \<Rightarrow> (('s, 'o, 'p) node \<times> ('s, 'o, 'p) message list) option res" where
  "bootstrap_loop first_cli [] nd c rogue =
     Inr (if all_connected (nd_id nd) c then Some (nd\<lparr>nd_rx := []\<rparr>, rogue) else None)"
| "bootstrap_loop first_cli (m # rx) nd c rogue =
     (if all_connected (nd_id nd) c then Inr (Some (nd\<lparr>nd_rx := m # rx\<rparr>, rogue))
      else (case m of
              ConnectedTx i sock \<Rightarrow>
                bind_res (count_connection first_cli i c) (\<lambda>c.
                bootstrap_loop first_cli rx (handle_connected_tx i sock nd) c rogue)
            | ConnectedRx i sock \<Rightarrow>
                bind_res (handle_connected_rx i sock nd) (\<lambda>nd.
                bind_res (count_connection first_cli i c) (\<lambda>c.
                bootstrap_loop first_cli rx nd c rogue))
            | DisconnectedTx i \<Rightarrow>
                Inl (Err (Wrapped ErrorKind_Communication (''Node '' @ show_u32 (node_raw i) @ '' disconnected from send side'')))
            | DisconnectedRx (Some i) \<Rightarrow>
                Inl (Err (Wrapped ErrorKind_Communication (''Node '' @ show_u32 (node_raw i) @ '' disconnected from receive side'')))
            | DisconnectedRx None \<Rightarrow>
                Inl (Err (Wrapped ErrorKind_Communication ''Disconnected from receive side''))
            | _ \<Rightarrow> bootstrap_loop first_cli rx nd c (rogue @ [m])))"

text \<open>\<open>bound\<close> is the result of binding the listening socket.\<close>

definition node_bootstrap ::
  "node_config \<Rightarrow> unit res \<Rightarrow> u64 \<times> u64 \<times> u64 \<times> u64 \<Rightarrow> ('s, 'o, 'p) message list
     \<Rightarrow> (('s, 'o, 'p) node \<times> ('s, 'o, 'p) message list) option res" where
  "node_bootstrap cfg bound seed rx =
     (if nc_n cfg < usize_wrap (usize_wrap (3 * nc_f cfg) + 1)
      then Inl (Err (Wrapped ErrorKind_Communication ''Invalid number of replicas''))
      else if nc_id cfg \<ge> node_of_usize (nc_n cfg) \<and> nc_id cfg < nc_first_cli cfg
      then Inl (Err (Wrapped ErrorKind_Communication ''Invalid node ID''))
      else if \<not> hmap_contains (nc_addrs cfg) (nc_id cfg)
      then Inl (Panic ''no entry found for key'')
      else
        bind_res bound (\<lambda>_.
        bind_res (tx_side_connect (of_nat (nc_n cfg)) (nc_id cfg) (nc_addrs cfg) (prng_new seed))
          (\<lambda>(rng, spawned).
        bootstrap_loop (nc_first_cli cfg) rx
          \<lparr>nd_id = nc_id cfg, nd_first_cli = nc_first_cli cfg, nd_rx = [], nd_rng = rng,
           nd_my_key = nc_sk cfg, nd_peer_keys = nc_pk cfg,
           nd_peer_tx = (if nc_id cfg \<ge> nc_first_cli cfg then PeerTx_Client [] else PeerTx_Server []),
           nd_peer_addrs = nc_addrs cfg, nd_connections = spawned, nd_tasks = []\<rparr>
          (replicate (nc_n cfg) 0) [])))"

section \<open>Handles that only send\<close>

record ('s, 'o, 'p) send_node =
  sn_id :: node_id
  sn_my_key :: key_pair
  sn_peer_keys :: "(node_id, public_key) hmap"
  sn_rng :: prng_state
  sn_peer_tx :: peer_tx
  sn_tasks :: "('s, 'o, 'p) send_task list"

definition node_send_node :: "u64 \<times> u64 \<times> u64 \<times> u64 \<Rightarrow> ('s, 'o, 'p) node \<Rightarrow> ('s, 'o, 'p) send_node" where
  "node_send_node seed nd =
     \<lparr>sn_id = nd_id nd, sn_my_key = nd_my_key nd, sn_peer_keys = nd_peer_keys nd, sn_rng = prng_new seed,
      sn_peer_tx = nd_peer_tx nd, sn_tasks = []\<rparr>"

definition send_node_clone :: "u64 \<times> u64 \<times> u64 \<times> u64 \<Rightarrow> ('s, 'o, 'p) send_node \<Rightarrow> ('s, 'o, 'p) send_node" where
  "send_node_clone seed sn = sn\<lparr>sn_rng := prng_new seed, sn_tasks := []\<rparr>"

text \<open>
  The connections a handle sends on. The handles of a client share the map of its node
  (\<open>peers\<close>, what that map holds now) behind a lock; those of a replica have a copy.
\<close>

definition send_node_peers :: "peer_tx \<Rightarrow> ('s, 'o, 'p) send_node \<Rightarrow> peer_tx" where
  "send_node_peers peers sn =
     (case sn_peer_tx sn of PeerTx_Client _ \<Rightarrow> peers | PeerTx_Server m \<Rightarrow> PeerTx_Server m)"

definition send_node_send ::
  "('s, 'o, 'p, 'z) env_scheme \<Rightarrow> ('s, 'o, 'p) system_message \<Rightarrow> node_id \<Rightarrow> peer_tx \<Rightarrow> ('s, 'o, 'p) send_node
     \<Rightarrow> (digest \<times> ('s, 'o, 'p) send_node) res" where
  "send_node_send env m target peers sn =
     bind_res (node_send_to (sn_id sn) target (send_node_peers peers sn)) (\<lambda>to.
     let (nonce, rng) = next_state (sn_rng sn) in
     bind_res (send_impl env m to (sn_id sn) target nonce) (\<lambda>(dig, tasks).
     Inr (dig, sn\<lparr>sn_rng := rng, sn_tasks := sn_tasks sn @ tasks\<rparr>)))"

definition send_node_broadcast ::
  "('s, 'o, 'p, 'z) env_scheme \<Rightarrow> ('s, 'o, 'p) system_message \<Rightarrow> node_id list \<Rightarrow> peer_tx \<Rightarrow> ('s, 'o, 'p) send_node
     \<Rightarrow> (digest \<times> ('s, 'o, 'p) send_node) res" where
  "send_node_broadcast env m targets peers sn =
     bind_res (send_tos (sn_id sn) (send_node_peers peers sn) targets) (\<lambda>(mine, others).
     let (nonce, rng) = next_state (sn_rng sn) in
     bind_res (broadcast_impl env m mine others nonce) (\<lambda>(dig, tasks).
     Inr (dig, sn\<lparr>sn_rng := rng, sn_tasks := sn_tasks sn @ tasks\<rparr>)))"

section \<open>Streams\<close>

lemma read_exact_append [simp]: "length xs = n \<Longrightarrow> read_exact n (xs @ ys) = Some (xs, ys)"
  by (auto simp: read_exact_def)

lemma write_to_bytes:
  "header_wf (wm_header wm) \<Longrightarrow> wire_message_write_to wm = Inr (header_bytes (wm_header wm) @ wm_payload wm)"
  by (simp add: wire_message_write_to_def header_serialize_into_def)

lemma deserialize_header_bytes:
  "header_wf h \<Longrightarrow> header_deserialize_from (header_bytes h) = Inr h"
  by (simp add: header_deserialize_from_def length_header_bytes header_of_header_bytes)

lemma receive_loop_message:
  assumes "header_wf (wm_header wm)" and "payload_length (wm_header wm) = length (wm_payload wm)"
    and "env_deserialize env (wm_payload wm) = Inr m"
  shows "receive_loop env peer_id (header_bytes (wm_header wm) @ wm_payload wm @ rest) =
    System (wm_header wm) m # receive_loop env peer_id rest"
  using assms by (subst receive_loop.simps) (simp add: length_header_bytes deserialize_header_bytes)

lemma receive_loop_short:
  "length rest < HEADER_LENGTH \<Longrightarrow> receive_loop env peer_id rest = [DisconnectedRx (Some peer_id)]"
  by (subst receive_loop.simps) (simp add: read_exact_def)

lemma payload_length_new:
  "length buf < 2 ^ 64 \<Longrightarrow>
   payload_length (wm_header (wire_message_new c from to buf nonce d sk)) = length buf"
  by (simp add: payload_length_def wire_message_new_def Let_def unsigned_of_nat take_bit_nat_eq_self)

lemma wire_message_new_payload [simp]: "wm_payload (wire_message_new c from to buf nonce d sk) = buf"
  by (simp add: wire_message_new_def Let_def)

lemma rx_side_accept_ok:
  assumes "\<not> (peer_id \<ge> first_cli \<and> my_id \<ge> first_cli)" and "connect_header c peer_id my_id nonce = Inr hello"
  shows "rx_side_accept_task c first_cli my_id (Some (sock, hello @ stream)) =
    Some (ConnectedRx peer_id sock, stream)"
proof -
  let ?h = "wm_header (wire_message_new c peer_id my_id [] nonce None None)"
  have wf: "header_wf ?h"
    by (simp add: header_wf_def wire_message_new_def Let_def DIGEST_LENGTH_def SIGNATURE_LENGTH_def)
  have hello: "hello = header_bytes ?h"
    using assms(2) by (simp add: connect_header_def header_serialize_into_def)
  have "wire_message_from_parts c ?h [] = Inr \<lparr>wm_header = ?h, wm_payload = []\<rparr>"
    by (simp add: wire_message_from_parts_def wire_message_is_valid_def wire_message_new_def Let_def)
  moreover have "header_from ?h = peer_id" "header_to ?h = my_id"
    by (simp_all add: header_from_def header_to_def node_of_u32_def wire_message_new_def Let_def)
  ultimately show ?thesis
    using assms(1) wf
    by (auto simp: rx_side_accept_task_def hello length_header_bytes deserialize_header_bytes)
qed

lemma connect_header_ok: "\<exists>hello. connect_header c my_id peer_id nonce = Inr hello"
  by (simp add: connect_header_def header_serialize_into_def)

lemma connect_attempts_ok:
  assumes "connect_header c my_id peer_id nonce = Inr hello"
    and "\<forall>j < k. attempt (i + j) = Refused" and "attempt (i + k) = Shaken sock True" and "k < left"
  shows "connect_attempts c my_id peer_id nonce left attempt i = Inr (Some (sock, hello))"
  using assms(2-)
proof (induction left arbitrary: i k)
  case (Suc left)
  show ?case
  proof (cases k)
    case 0
    then show ?thesis using Suc.prems(2) assms(1) by simp
  next
    case (Suc k')
    then have "attempt i = Refused" using Suc.prems(1) by (metis add_0_right zero_less_Suc)
    moreover have "connect_attempts c my_id peer_id nonce left attempt (i + 1) = Inr (Some (sock, hello))"
      using Suc Suc.prems by (intro Suc.IH [of k']) auto
    ultimately show ?thesis by simp
  qed
qed simp

lemma tx_side_connect_task_ok:
  assumes "connect_header c my_id peer_id nonce = Inr hello"
    and "\<forall>j < k. attempt j = Refused" and "attempt k = Shaken sock True" and "k < RETRY"
  shows "tx_side_connect_task c my_id peer_id nonce attempt = Inr (ConnectedTx peer_id sock, hello)"
  using connect_attempts_ok [OF assms(1), where i = 0 and left = RETRY] assms(2-)
  by (simp add: tx_side_connect_task_def)

fun write_all :: "wire_message list \<Rightarrow> u8 list res" where
  "write_all [] = Inr []"
| "write_all (wm # wms) =
     bind_res (wire_message_write_to wm) (\<lambda>out. bind_res (write_all wms) (\<lambda>outs. Inr (out @ outs)))"

lemma receive_loop_write_all:
  assumes "\<forall>(wm, m) \<in> set sent. header_wf (wm_header wm) \<and>
      payload_length (wm_header wm) = length (wm_payload wm) \<and> env_deserialize env (wm_payload wm) = Inr m"
  shows "\<exists>out. write_all (map fst sent) = Inr out \<and>
    (\<forall>rest. receive_loop env peer_id (out @ rest) =
       map (\<lambda>(wm, m). System (wm_header wm) m) sent @ receive_loop env peer_id rest)"
  using assms
proof (induction sent)
  case (Cons x sent)
  obtain wm m where x: "x = (wm, m)" by fastforce
  obtain out where "write_all (map fst sent) = Inr out"
    and "\<forall>rest. receive_loop env peer_id (out @ rest) =
       map (\<lambda>(wm, m). System (wm_header wm) m) sent @ receive_loop env peer_id rest"
    using Cons by auto
  with Cons.prems show ?case by (simp add: x write_to_bytes receive_loop_message)
qed simp

section \<open>Completing the bootstrap\<close>

text \<open>The connection messages of a peer, and the messages a bootstrap without failures receives.\<close>

fun is_connection :: "('s, 'o, 'p) message \<Rightarrow> bool" where
  "is_connection (ConnectedTx _ _) = True"
| "is_connection (ConnectedRx _ _) = True"
| "is_connection _ = False"

fun connection_of :: "node_id \<Rightarrow> ('s, 'o, 'p) message \<Rightarrow> bool" where
  "connection_of i (ConnectedTx j _) = (j = i)"
| "connection_of i (ConnectedRx j _) = (j = i)"
| "connection_of i _ = False"

definition peer_of :: "usize \<Rightarrow> node_id \<Rightarrow> node_id \<Rightarrow> bool" where
  "peer_of n my_id i \<longleftrightarrow> node_to_usize i < n \<and> i \<noteq> my_id"

fun bootstrap_message :: "usize \<Rightarrow> node_id \<Rightarrow> ('s, 'o, 'p) message \<Rightarrow> bool" where
  "bootstrap_message n my_id (ConnectedTx i _) = peer_of n my_id i"
| "bootstrap_message n my_id (ConnectedRx i _) = peer_of n my_id i"
| "bootstrap_message n my_id (DisconnectedTx _) = False"
| "bootstrap_message n my_id (DisconnectedRx _) = False"
| "bootstrap_message n my_id _ = True"

definition sends_to :: "('s, 'o, 'p) node \<Rightarrow> ('s, 'o, 'p) message list \<Rightarrow> node_id \<Rightarrow> bool" where
  "sends_to nd rx i \<longleftrightarrow>
     hmap_contains (peer_tx_map (nd_peer_tx nd)) i \<or> (\<exists>sock. ConnectedTx i sock \<in> set rx)"

definition receives_from :: "('s, 'o, 'p) node \<Rightarrow> ('s, 'o, 'p) message list \<Rightarrow> node_id \<Rightarrow> bool" where
  "receives_from nd rx i \<longleftrightarrow>
     (\<exists>sock. ReceiveTask i sock \<in> set (nd_connections nd)) \<or> (\<exists>sock. ConnectedRx i sock \<in> set rx)"

lemma node_to_usize_inject [simp]: "node_to_usize i = node_to_usize j \<longleftrightarrow> i = j"
  by (cases i; cases j) (simp add: node_to_usize_def word_unat_eq_iff)

lemma all_connected_iff:
  assumes "n \<le> 2 ^ 32" and "length c = n"
  shows "all_connected my_id c \<longleftrightarrow> (\<forall>i. peer_of n my_id i \<longrightarrow> c ! node_to_usize i = 2)"
proof
  assume all: "all_connected my_id c"
  show "\<forall>i. peer_of n my_id i \<longrightarrow> c ! node_to_usize i = 2"
  proof (intro allI impI)
    fix i assume "peer_of n my_id i"
    then have "node_to_usize i < length c" "node_to_usize i \<noteq> node_to_usize my_id"
      using assms(2) by (auto simp: peer_of_def)
    then show "c ! node_to_usize i = 2"
      using all by (auto simp: all_connected_def list_ex_length nth_enumerate_eq)
  qed
next
  assume peers: "\<forall>i. peer_of n my_id i \<longrightarrow> c ! node_to_usize i = 2"
  have "c ! k = 2" if "k < length c" "k \<noteq> node_to_usize my_id" for k
  proof -
    have "node_to_usize (node_of_usize k) = k" using that(1) assms by (simp add: node_to_of_usize)
    moreover from this have "node_of_usize k \<noteq> my_id" using that(2) by metis
    ultimately show ?thesis
      using that assms peers [rule_format, of "node_of_usize k"] by (auto simp: peer_of_def)
  qed
  then show "all_connected my_id c" by (auto simp: all_connected_def list_ex_length nth_enumerate_eq)
qed

lemma handle_connected_rx_peer:
  assumes "i < nd_first_cli nd"
  shows "handle_connected_rx i sock nd =
    Inr (nd\<lparr>nd_connections := nd_connections nd @ [ReceiveTask i sock]\<rparr>)"
  using assms by (auto simp: handle_connected_rx_def split: peer_tx.splits)

lemma handle_connected_tx_frame [simp]:
  "nd_id (handle_connected_tx i sock nd) = nd_id nd"
  "nd_first_cli (handle_connected_tx i sock nd) = nd_first_cli nd"
  "nd_connections (handle_connected_tx i sock nd) = nd_connections nd"
  "hmap_contains (peer_tx_map (nd_peer_tx (handle_connected_tx i sock nd))) j \<longleftrightarrow>
     j = i \<or> hmap_contains (peer_tx_map (nd_peer_tx nd)) j"
  by (auto simp: handle_connected_tx_def hmap_contains_insert split: peer_tx.splits)

definition bootstrap_inv ::
  "usize \<Rightarrow> ('s, 'o, 'p) message list \<Rightarrow> ('s, 'o, 'p) node \<Rightarrow> i32 list \<Rightarrow> bool" where
  "bootstrap_inv n rx nd c \<longleftrightarrow>
     length c = n \<and> (\<forall>m \<in> set rx. bootstrap_message n (nd_id nd) m) \<and>
     (\<forall>i. peer_of n (nd_id nd) i \<longrightarrow>
        i < nd_first_cli nd \<and> sends_to nd rx i \<and> receives_from nd rx i \<and>
        unat (c ! node_to_usize i) + length (filter (connection_of i) rx) = 2)"

lemma bootstrap_inv_end:
  assumes "bootstrap_inv n rx nd c" and "n \<le> 2 ^ 32" and "all_connected (nd_id nd) c"
  shows "filter (\<lambda>m. \<not> is_connection m) rx = rx"
    and "peer_of n (nd_id nd) i \<Longrightarrow> sends_to nd [] i \<and> receives_from nd [] i"
proof -
  have none: "\<not> connection_of i m" if "peer_of n (nd_id nd) i" "m \<in> set rx" for i m
  proof -
    have "c ! node_to_usize i = 2"
      using assms that(1) all_connected_iff [of n c "nd_id nd"] by (simp add: bootstrap_inv_def)
    then have "length (filter (connection_of i) rx) = 0"
      using assms(1) that(1) by (auto simp: bootstrap_inv_def)
    with that(2) show ?thesis by (auto simp: filter_empty_conv)
  qed
  show "filter (\<lambda>m. \<not> is_connection m) rx = rx"
  proof (rule filter_True, rule ballI)
    fix m assume m: "m \<in> set rx"
    with assms(1) have "bootstrap_message n (nd_id nd) m" by (simp add: bootstrap_inv_def)
    with none m show "\<not> is_connection m" by (cases m) fastforce+
  qed
  show "sends_to nd [] i \<and> receives_from nd [] i" if i: "peer_of n (nd_id nd) i"
  proof -
    have "sends_to nd rx i" "receives_from nd rx i" using assms(1) i by (simp_all add: bootstrap_inv_def)
    moreover have "ConnectedTx i sock \<notin> set rx" "ConnectedRx i sock \<notin> set rx" for sock
      using none [OF i] by fastforce+
    ultimately show ?thesis by (simp add: sends_to_def receives_from_def)
  qed
qed

lemma bootstrap_inv_step:
  assumes "bootstrap_inv n (m # rx) nd c"
  shows "m = ConnectedTx i sock \<Longrightarrow>
      bootstrap_inv n rx (handle_connected_tx i sock nd) (c[node_to_usize i := c ! node_to_usize i + 1])"
    and "m = ConnectedRx i sock \<Longrightarrow>
      bootstrap_inv n rx (nd\<lparr>nd_connections := nd_connections nd @ [ReceiveTask i sock]\<rparr>)
        (c[node_to_usize i := c ! node_to_usize i + 1])"
    and "\<not> is_connection m \<Longrightarrow> bootstrap_inv n rx nd c"
proof -
  let ?c = "c[node_to_usize i := c ! node_to_usize i + 1]"
  have inv: "unat (c ! node_to_usize j) + length (filter (connection_of j) (m # rx)) = 2"
    "length c = n" if "peer_of n (nd_id nd) j" for j
    using assms that unfolding bootstrap_inv_def by blast+
  have counts: "unat (?c ! node_to_usize j) + length (filter (connection_of j) rx) = 2"
    if j: "peer_of n (nd_id nd) j" and i: "peer_of n (nd_id nd) i" and m: "\<forall>j. connection_of j m \<longleftrightarrow> j = i" for j
  proof (cases "j = i")
    case True
    have sum: "unat (c ! node_to_usize i) + Suc (length (filter (connection_of i) rx)) = 2"
      using inv(1) [OF i] m by simp
    then have "unat (c ! node_to_usize i + 1) = Suc (unat (c ! node_to_usize i))"
      by (simp add: unat_word_ariths)
    with sum i inv(2) [OF i] show ?thesis using True by (simp add: peer_of_def)
  next
    case False
    then show ?thesis using inv(1) [OF j] m by simp
  qed
  show "bootstrap_inv n rx (handle_connected_tx i sock nd) ?c" if m: "m = ConnectedTx i sock"
    using assms counts by (auto simp: m bootstrap_inv_def sends_to_def receives_from_def)
  show "bootstrap_inv n rx (nd\<lparr>nd_connections := nd_connections nd @ [ReceiveTask i sock]\<rparr>) ?c"
    if m: "m = ConnectedRx i sock"
    using assms counts by (auto simp: m bootstrap_inv_def sends_to_def receives_from_def)
  show "bootstrap_inv n rx nd c" if "\<not> is_connection m"
    using assms that by (cases m) (auto simp: bootstrap_inv_def sends_to_def receives_from_def)
qed

lemma bootstrap_loop_completes:
  assumes "bootstrap_inv n rx nd c" and "n \<le> 2 ^ 32"
  shows "\<exists>nd' rogue'. bootstrap_loop (nd_first_cli nd) rx nd c rogue = Inr (Some (nd', rogue')) \<and>
    rogue' @ nd_rx nd' = rogue @ filter (\<lambda>m. \<not> is_connection m) rx \<and> nd_id nd' = nd_id nd \<and>
    (\<forall>i. peer_of n (nd_id nd) i \<longrightarrow> sends_to nd' [] i \<and> receives_from nd' [] i)"
  using assms(1)
proof (induction rx arbitrary: nd c rogue)
  case Nil
  have "all_connected (nd_id nd) c"
    using Nil assms(2) all_connected_iff [of n c "nd_id nd"]
    by (auto simp: bootstrap_inv_def word_unat_eq_iff)
  with bootstrap_inv_end (2) [OF Nil assms(2)] show ?case
    by (auto simp: sends_to_def receives_from_def)
next
  case (Cons m rx)
  note step = bootstrap_inv_step [OF Cons.prems]
  show ?case
  proof (cases "all_connected (nd_id nd) c")
    case True
    note ended = bootstrap_inv_end [OF Cons.prems assms(2) True]
    let ?nd = "nd\<lparr>nd_rx := m # rx\<rparr>"
    have "bootstrap_loop (nd_first_cli nd) (m # rx) nd c rogue = Inr (Some (?nd, rogue))" using True by simp
    moreover have "rogue @ nd_rx ?nd = rogue @ filter (\<lambda>m. \<not> is_connection m) (m # rx)" "nd_id ?nd = nd_id nd"
      unfolding ended(1) by simp_all
    moreover have "\<forall>i. peer_of n (nd_id nd) i \<longrightarrow> sends_to ?nd [] i \<and> receives_from ?nd [] i"
      using ended(2) by (simp add: sends_to_def receives_from_def)
    ultimately show ?thesis by blast
  next
    case False
    have conn: "count_connection (nd_first_cli nd) i c = Inr (c[node_to_usize i := c ! node_to_usize i + 1])"
      "i < nd_first_cli nd" if "connection_of i m" for i
      using that Cons.prems by (cases m; auto simp: bootstrap_inv_def count_connection_def peer_of_def)+
    show ?thesis
    proof (cases m)
      case (ConnectedTx i sock)
      with False conn show ?thesis
        using Cons.IH [OF step(1) [OF ConnectedTx], of rogue] by simp
    next
      case (ConnectedRx i sock)
      with False conn show ?thesis
        using Cons.IH [OF step(2) [OF ConnectedRx], of rogue] by (simp add: handle_connected_rx_peer)
    qed (use False Cons.prems Cons.IH [OF step(3), of "rogue @ [m]"] in \<open>auto simp: bootstrap_inv_def\<close>)
  qed
qed

lemma tx_side_connect_loop_ok:
  assumes "\<forall>i \<in> set peers. hmap_contains addrs i"
  shows "\<exists>rng' ts. tx_side_connect_loop my_id addrs peers (rng, spawned) = Inr (rng', spawned @ ts)"
  using assms
proof (induction peers arbitrary: rng spawned)
  case (Cons i peers)
  obtain addr where "hmap_get addrs i = Some addr" using Cons.prems by (auto simp: hmap_contains_def)
  moreover obtain nonce rng1 where "next_state rng = (nonce, rng1)" by fastforce
  ultimately show ?case
    using Cons.IH [of rng1 "spawned @ [ConnectTask my_id i nonce addr]"] Cons.prems
    by (auto simp: tx_side_connect_add_def)
qed auto

lemma node_bootstrap_ok:
  fixes rx :: "('s, 'o, 'p) message list"
  assumes "3 * nc_f cfg + 1 \<le> nc_n cfg" and "nc_n cfg \<le> node_to_usize (nc_first_cli cfg)"
    and "node_to_usize (nc_id cfg) < nc_n cfg \<or> nc_first_cli cfg \<le> nc_id cfg"
    and "\<forall>i. node_to_usize i < nc_n cfg \<or> i = nc_id cfg \<longrightarrow> hmap_contains (nc_addrs cfg) i"
    and "\<forall>m \<in> set rx. bootstrap_message (nc_n cfg) (nc_id cfg) m"
    and "\<forall>i. peer_of (nc_n cfg) (nc_id cfg) i \<longrightarrow>
      length (filter (connection_of i) rx) = 2 \<and>
      (\<exists>sock. ConnectedTx i sock \<in> set rx) \<and> (\<exists>sock. ConnectedRx i sock \<in> set rx)"
  shows "\<exists>nd rogue. node_bootstrap cfg (Inr ()) seed rx = Inr (Some (nd, rogue)) \<and> nd_id nd = nc_id cfg \<and>
    rogue @ nd_rx nd = filter (\<lambda>m. \<not> is_connection m) rx \<and>
    (\<forall>i. peer_of (nc_n cfg) (nc_id cfg) i \<longrightarrow>
       hmap_contains (peer_tx_map (nd_peer_tx nd)) i \<and>
       (\<exists>sock. ReceiveTask i sock \<in> set (nd_connections nd)))"
proof -
  let ?n = "nc_n cfg" and ?me = "nc_id cfg" and ?cli = "nc_first_cli cfg"
  have n: "?n < 2 ^ 32"
    using assms(2) unsigned_less [of "node_raw ?cli", where ?'a = nat] by (simp add: node_to_usize_def)
  have lt: "node_to_usize i < node_to_usize j \<longleftrightarrow> i < j" for i j
    by (simp add: node_to_usize_def less_node_id_def word_less_nat_alt)
  have args: "\<not> (?me \<ge> node_of_usize ?n \<and> ?me < ?cli)"
    using assms(3) lt [of ?me "node_of_usize ?n"] n by (auto simp: node_to_of_usize)
  have size: "\<not> ?n < usize_wrap (usize_wrap (3 * nc_f cfg) + 1)"
    using assms(1) n by (simp add: usize_wrap_def)
  have "\<forall>i \<in> set (filter (\<lambda>i. i \<noteq> ?me) (targets_u32 (map of_nat [0..<unat (of_nat ?n :: u32)]))).
      hmap_contains (nc_addrs cfg) i"
    using assms(4) n by (auto simp: targets_u32_def node_to_usize_def unsigned_of_nat take_bit_nat_eq_self)
  from tx_side_connect_loop_ok [OF this, of ?me "prng_new seed" "[]"]
  obtain rng ts where tx: "tx_side_connect (of_nat ?n) ?me (nc_addrs cfg) (prng_new seed) = Inr (rng, ts)"
    by (auto simp: tx_side_connect_def)
  define nd :: "('s, 'o, 'p) node" where
    "nd = \<lparr>nd_id = ?me, nd_first_cli = ?cli, nd_rx = [], nd_rng = rng,
       nd_my_key = nc_sk cfg, nd_peer_keys = nc_pk cfg,
       nd_peer_tx = (if ?me \<ge> ?cli then PeerTx_Client [] else PeerTx_Server []),
       nd_peer_addrs = nc_addrs cfg, nd_connections = ts, nd_tasks = []\<rparr>"
  have "bootstrap_inv ?n rx nd (replicate ?n 0)"
    using assms(2,5,6)
    by (auto simp: bootstrap_inv_def nd_def sends_to_def receives_from_def peer_of_def simp flip: lt)
  from bootstrap_loop_completes [OF this, of "[]"] n
  obtain nd' rogue where "bootstrap_loop ?cli rx nd (replicate ?n 0) [] = Inr (Some (nd', rogue))"
    and "rogue @ nd_rx nd' = filter (\<lambda>m. \<not> is_connection m) rx" "nd_id nd' = ?me"
    and "\<forall>i. peer_of ?n ?me i \<longrightarrow> sends_to nd' [] i \<and> receives_from nd' [] i"
    by (auto simp: nd_def)
  moreover from this have "node_bootstrap cfg (Inr ()) seed rx = Inr (Some (nd', rogue))"
    using size args tx assms(4) by (simp add: node_bootstrap_def nd_def)
  ultimately show ?thesis by (auto simp: sends_to_def receives_from_def)
qed

section \<open>Properties\<close>

text \<open>
  C9. What a peer sends is what we receive. Take a peer whose \<open>tx_side_connect_task\<close> gets
  through to us in one of its attempts and that then runs the sending tasks of any sequence
  of messages on the socket it got. It is told it is connected to us. Unless both of us are clients, the accepting task announces the connection
  under the peer's id; the receiving task then puts exactly these messages on our channel,
  in order, each with the header the peer made for it; and when the connection breaks off,
  even in the middle of a header, it announces the peer's disconnection and nothing else.
  This uses that the application's codec decodes what it encoded.
\<close>

theorem stream_roundtrip:
  assumes "crypto_ok env"
    and "\<not> (peer_id \<ge> first_cli \<and> my_id \<ge> first_cli)"
    and "\<forall>(m, nonce, dig, buf) \<in> set sent.
      serialize_digest env m = Inr (dig, buf) \<and> env_deserialize env buf = Inr m \<and> length buf < 2 ^ 64"
    and "length rest < HEADER_LENGTH"
    and "k < RETRY" and "\<forall>j < k. attempt j = Refused" and "attempt k = Shaken sock True"
  shows "\<exists>wms hello out.
    map (\<lambda>(m, nonce, dig, buf).
        send_to_value env sk (SendTask (SendTo_Peers peer_id my_id sock) (Value_Left nonce dig buf))) sent =
      map (\<lambda>wm. Inr (Socket_Write my_id sock wm) :: ('s, 'o, 'p) send_effect res) wms \<and>
    tx_side_connect_task env peer_id my_id nonce attempt =
      Inr (ConnectedTx my_id sock :: ('s, 'o, 'p) message, hello) \<and>
    write_all wms = Inr out \<and>
    rx_side_accept_task env first_cli my_id (Some (sock', hello @ out @ rest)) =
      Some (ConnectedRx peer_id sock' :: ('s, 'o, 'p) message, out @ rest) \<and>
    receive_loop env peer_id (out @ rest) =
      map2 (\<lambda>wm (m, _). System (wm_header wm) m) wms sent @ [DisconnectedRx (Some peer_id)]"
proof -
  let ?wm = "\<lambda>(m, nonce, dig, buf). wire_message_new env peer_id my_id buf nonce (Some dig) (Some sk)"
  let ?sent = "map (\<lambda>s. (?wm s, fst s)) sent"
  have "\<forall>(wm, m) \<in> set ?sent. header_wf (wm_header wm) \<and>
      payload_length (wm_header wm) = length (wm_payload wm) \<and> env_deserialize env (wm_payload wm) = Inr m"
    using assms(1,3)
    by (fastforce simp: payload_length_new serialize_digest_def context_finish_def crypto_ok_def
        split: sum.splits intro!: wire_message_new_header_wf)
  from receive_loop_write_all [OF this, of peer_id]
  obtain out where out: "write_all (map fst ?sent) = Inr out"
    and rcv: "\<And>rest. receive_loop env peer_id (out @ rest) =
      map (\<lambda>(wm, m). System (wm_header wm) m) ?sent @ receive_loop env peer_id rest"
    by blast
  obtain hello where hello: "connect_header env peer_id my_id nonce = Inr hello"
    using connect_header_ok by blast
  define wms where "wms = map ?wm sent"
  have sent': "map2 (\<lambda>wm (m, _). System (wm_header wm) m) wms sent =
      map (\<lambda>(wm, m). System (wm_header wm) m) ?sent"
    unfolding wms_def by (induction sent) auto
  have "map (\<lambda>(m, nonce, dig, buf). send_to_value env sk
      (SendTask (SendTo_Peers peer_id my_id sock) (Value_Left nonce dig buf))) sent =
      map (\<lambda>wm. Inr (Socket_Write my_id sock wm) :: ('s, 'o, 'p) send_effect res) wms"
    by (auto simp: send_to_peers_def wms_def)
  moreover have "write_all wms = Inr out" using out by (simp add: wms_def o_def)
  moreover have "receive_loop env peer_id (out @ rest) =
      map2 (\<lambda>wm (m, _). System (wm_header wm) m) wms sent @ [DisconnectedRx (Some peer_id)]"
    unfolding sent' rcv receive_loop_short [OF assms(4)] by (rule refl)
  moreover have "rx_side_accept_task env first_cli my_id (Some (sock', hello @ out @ rest)) =
      Some (ConnectedRx peer_id sock' :: ('s, 'o, 'p) message, out @ rest)"
    by (rule rx_side_accept_ok [OF assms(2) hello])
  moreover have "tx_side_connect_task env peer_id my_id nonce attempt =
      Inr (ConnectedTx my_id sock :: ('s, 'o, 'p) message, hello)"
    by (rule tx_side_connect_task_ok [OF hello assms(6,7,5)])
  ultimately show ?thesis by (intro exI conjI)
qed

theorem stream_roundtrip_witness:
  "\<exists>wms hello out.
     tx_side_connect_task (example_env :: (nat, nat, nat) env) (NodeId 1) (NodeId 0) 5
       (\<lambda>i. if i < 2 then Refused else Shaken 9 True) =
       Inr (ConnectedTx (NodeId 0) 9 :: (nat, nat, nat) message, hello) \<and>
     write_all wms = Inr out \<and>
     rx_side_accept_task (example_env :: (nat, nat, nat) env) (NodeId 1000) (NodeId 0) (Some (9, hello @ out @ [1])) =
       Some (ConnectedRx (NodeId 1) 9 :: (nat, nat, nat) message, out @ [1]) \<and>
     receive_loop example_env (NodeId 1) (out @ [1]) =
       map2 (\<lambda>wm (m, _). System (wm_header wm) m) wms
         [(SM_ForwardedRequests [] :: (nat, nat, nat) system_message, 7 :: u64, Digest (replicate 32 0), [1 :: u8, 2, 3])] @
       [DisconnectedRx (Some (NodeId 1))]"
proof -
  let ?env = "example_env :: (nat, nat, nat) env"
  let ?sent = "[(SM_ForwardedRequests [] :: (nat, nat, nat) system_message, 7 :: u64, Digest (replicate 32 0),
    [1 :: u8, 2, 3])]"
  have "\<not> (NodeId 1 \<ge> NodeId 1000 \<and> NodeId 0 \<ge> NodeId 1000)"
    by (simp add: less_eq_node_id_def)
  moreover have "\<forall>(m, nonce, dig, buf) \<in> set ?sent.
      serialize_digest ?env m = Inr (dig, buf) \<and> env_deserialize ?env buf = Inr m \<and> length buf < 2 ^ 64"
    by (simp add: serialize_digest_def example_env_def context_finish_def)
  moreover have "length [1 :: u8] < HEADER_LENGTH" by (simp add: HEADER_LENGTH_def)
  ultimately show ?thesis
    using stream_roundtrip [OF example_crypto_ok, of "NodeId 1000" "NodeId 1" "NodeId 0" ?sent "[1]" 2
        "\<lambda>i. if i < 2 then Refused else Shaken 9 True" 9 _ 5 9]
    by (simp add: RETRY_def) blast
qed


definition example_config :: node_config where
  "example_config = \<lparr>nc_n = 4, nc_f = 1, nc_id = NodeId 0, nc_first_cli = NodeId 1000,
     nc_addrs = map (\<lambda>i. (NodeId i, ''localhost'')) [0, 1, 2, 3], nc_pk = [],
     nc_sk = \<lparr>kp_sk = [], kp_pk = PublicKey []\<rparr>\<rparr>"

definition example_connections :: "(nat, nat, nat) message list" where
  "example_connections =
     [ConnectedTx (NodeId 1) 1, ConnectedRx (NodeId 2) 2, ConnectedTx (NodeId 2) 3,
      Timeout (Timeout_Cst (SeqNo 0)), ConnectedRx (NodeId 1) 4, ConnectedRx (NodeId 3) 5,
      ConnectedTx (NodeId 3) 6, ExecutionFinished []]"

lemma four_nodes: "node_to_usize i < 4 \<longleftrightarrow> i \<in> {NodeId 0, NodeId 1, NodeId 2, NodeId 3}"
proof -
  have "node_to_usize i < 4 \<longleftrightarrow> node_to_usize i \<in> {0, 1, 2, 3}" by auto
  also have "\<dots> \<longleftrightarrow> node_to_usize i \<in> node_to_usize ` {NodeId 0, NodeId 1, NodeId 2, NodeId 3}"
    by (simp add: node_to_usize_def)
  finally show ?thesis by auto
qed


end
