(* ===== verification/Client.thy ===== *)
theory Client
  imports Connection Sync
begin

text \<open>
  A client (\<open>src/bft/core/client/mod.rs\<close>): sending requests, counting the replies of the
  replicas and handing a reply to the task that waits for it. The two maps a client shares
  with its receiving task are behind two locks; the code between taking and releasing a lock
  is one atomic section, and each section is a definition of its own.
\<close>

section \<open>Data\<close>

text \<open>A waker stands for the task it wakes; \<open>cd_woken\<close> lists the tasks woken so far.\<close>

type_synonym waker = nat

record 'p client_data =
  cd_wakers :: "(digest, waker) hmap"
  cd_ready :: "(digest, 'p) hmap"
  cd_woken :: "waker list"

record ('s, 'o, 'p) client =
  cl_params :: system_params
  cl_node :: "('s, 'o, 'p) send_node"

record replica_votes =
  rv_count :: usize
  rv_digest :: digest

text \<open>The receiving task: its parameters, its node and its local variables.\<close>

record ('s, 'o, 'p) recv_task =
  rt_params :: system_params
  rt_node :: "('s, 'o, 'p) node"
  rt_earlier :: instant
  rt_votes :: "(digest, replica_votes) hmap"

definition client_clone :: "seed \<Rightarrow> ('s, 'o, 'p) client \<Rightarrow> ('s, 'o, 'p) client" where
  "client_clone seed cl = cl\<lparr>cl_node := send_node_clone seed (cl_node cl)\<rparr>"

section \<open>Waiting for a reply\<close>

definition poll_ready :: "digest \<Rightarrow> 'p client_data \<Rightarrow> 'p option \<times> 'p client_data" where
  "poll_ready dig cd = (hmap_get (cd_ready cd) dig, cd\<lparr>cd_ready := hmap_remove dig (cd_ready cd)\<rparr>)"

definition poll_register :: "digest \<Rightarrow> waker \<Rightarrow> 'p client_data \<Rightarrow> 'p client_data" where
  "poll_register dig w cd = cd\<lparr>cd_wakers := hmap_insert dig w (cd_wakers cd)\<rparr>"

definition request_poll :: "digest \<Rightarrow> waker \<Rightarrow> 'p client_data \<Rightarrow> 'p option \<times> 'p client_data" where
  "request_poll dig w cd =
     (case poll_ready dig cd of
        (Some payload, cd) \<Rightarrow> (Some payload, cd)
      | (None, cd) \<Rightarrow> (None, poll_register dig w cd))"

text \<open>
  Broadcasting a request on the connections the receiving task's node has; the caller then
  waits for the reply to the digest returned, by polling.
\<close>

definition client_update ::
  "('s, 'o, 'p, 'z) env_scheme \<Rightarrow> 'o \<Rightarrow> ('s, 'o, 'p) recv_task \<Rightarrow> ('s, 'o, 'p) client
     \<Rightarrow> (digest \<times> ('s, 'o, 'p) client) res" where
  "client_update env operation rt cl =
     bind_res (send_node_broadcast env (SM_Request (RequestMessage operation))
         (node_targets [0..<sp_n (cl_params cl)]) (nd_peer_tx (rt_node rt)) (cl_node cl))
       (\<lambda>(dig, sn). Inr (dig, cl\<lparr>cl_node := sn\<rparr>))"

section \<open>Receiving replies\<close>

definition GC_DUR :: duration where
  "GC_DUR = from_secs 30"

definition deliver_ready :: "digest \<Rightarrow> 'p \<Rightarrow> 'p client_data \<Rightarrow> 'p client_data" where
  "deliver_ready dig payload cd = cd\<lparr>cd_ready := hmap_insert dig payload (cd_ready cd)\<rparr>"

definition deliver_wake :: "digest \<Rightarrow> 'p client_data \<Rightarrow> 'p client_data" where
  "deliver_wake dig cd =
     (case hmap_get (cd_wakers cd) dig of
        Some w \<Rightarrow> cd\<lparr>cd_wakers := hmap_remove dig (cd_wakers cd), cd_woken := cd_woken cd @ [w]\<rparr>
      | None \<Rightarrow> cd)"

definition collect_votes ::
  "digest order \<Rightarrow> usize \<Rightarrow> (digest, replica_votes) hmap \<Rightarrow> (digest, replica_votes) hmap" where
  "collect_votes ord f votes =
     (let to_remove = map fst (filter (\<lambda>(_, v). rv_count v > f) (hmap_iter ord votes)) in
      fold hmap_remove to_remove votes)"

text \<open>Count a reply; whether it completes the replies to its request.\<close>

definition count_reply ::
  "digest order \<Rightarrow> usize \<Rightarrow> instant \<Rightarrow> header \<Rightarrow> digest \<Rightarrow> ('s, 'o, 'p) recv_task
     \<Rightarrow> bool \<times> ('s, 'o, 'p) recv_task" where
  "count_reply ord f now h dig rt =
     (let votes = (if now - rt_earlier rt > GC_DUR then collect_votes ord f (rt_votes rt) else rt_votes rt);
          rt = rt\<lparr>rt_earlier := now\<rparr>;
          votes = entry_or_insert dig \<lparr>rv_count = 0, rv_digest = header_digest h\<rparr> votes;
          v = the (hmap_get votes dig) in
      if rv_count v > f then (False, rt\<lparr>rt_votes := votes\<rparr>)
      else
        (let v = (if rv_digest v = header_digest h then v\<lparr>rv_count := rv_count v + 1\<rparr> else v) in
         (rv_count v > f, rt\<lparr>rt_votes := hmap_insert dig v votes\<rparr>)))"

definition receive_reply ::
  "digest order \<Rightarrow> instant \<Rightarrow> header \<Rightarrow> 'p reply_message \<Rightarrow> ('s, 'o, 'p) recv_task \<times> 'p client_data
     \<Rightarrow> ('s, 'o, 'p) recv_task \<times> 'p client_data" where
  "receive_reply ord now h m st =
     (case st of (rt, cd) \<Rightarrow>
        (case count_reply ord (sp_f (rt_params rt)) now h (rp_digest m) rt of
           (True, rt) \<Rightarrow> (rt, deliver_wake (rp_digest m) (deliver_ready (rp_digest m) (rp_payload m) cd))
         | (False, rt) \<Rightarrow> (rt, cd)))"

definition client_receive ::
  "digest order \<Rightarrow> instant \<Rightarrow> ('s, 'o, 'p) message \<Rightarrow> ('s, 'o, 'p) recv_task \<times> 'p client_data
     \<Rightarrow> (('s, 'o, 'p) recv_task \<times> 'p client_data) res" where
  "client_receive ord now message st =
     (case message of
        System h m \<Rightarrow>
          (case m of
             SM_Reply m \<Rightarrow> Inr (receive_reply ord now h m st)
           | _ \<Rightarrow> Inl (Panic ''rogue message detected''))
      | ConnectedTx i sock \<Rightarrow>
          (case st of (rt, cd) \<Rightarrow> Inr (rt\<lparr>rt_node := handle_connected_tx i sock (rt_node rt)\<rparr>, cd))
      | ConnectedRx i sock \<Rightarrow>
          (case st of (rt, cd) \<Rightarrow>
             bind_res (handle_connected_rx i sock (rt_node rt)) (\<lambda>nd. Inr (rt\<lparr>rt_node := nd\<rparr>, cd)))
      | DisconnectedTx _ \<Rightarrow> Inl (Panic ''not yet implemented'')
      | DisconnectedRx _ \<Rightarrow> Inl (Panic ''not yet implemented'')
      | _ \<Rightarrow> Inr st)"

text \<open>The iteration of the receiving task; \<open>None\<close> when it waits for a message.\<close>

definition message_recv_task ::
  "digest order \<Rightarrow> instant \<Rightarrow> ('s, 'o, 'p) recv_task \<times> 'p client_data
     \<Rightarrow> (('s, 'o, 'p) recv_task \<times> 'p client_data) res option" where
  "message_recv_task ord now st =
     (case st of (rt, cd) \<Rightarrow>
        (case node_receive (rt_node rt) of
           None \<Rightarrow> None
         | Some (m, nd) \<Rightarrow> Some (client_receive ord now m (rt\<lparr>rt_node := nd\<rparr>, cd))))"

section \<open>Bootstrap\<close>

definition client_bootstrap ::
  "node_config \<Rightarrow> unit res \<Rightarrow> seed \<Rightarrow> seed \<Rightarrow> instant \<Rightarrow> ('s, 'o, 'p) message list
     \<Rightarrow> (('s, 'o, 'p) client \<times> ('s, 'o, 'p) recv_task \<times> 'p client_data) option res" where
  "client_bootstrap cfg bound seed send_seed now rx =
     bind_res (system_params_new (nc_n cfg) (nc_f cfg)) (\<lambda>params.
     bind_res (node_bootstrap cfg bound seed rx) (\<lambda>booted.
     case booted of
       None \<Rightarrow> Inr None
     | Some (nd, _) \<Rightarrow>
         Inr (Some (\<lparr>cl_params = params, cl_node = node_send_node send_seed nd\<rparr>,
                    \<lparr>rt_params = params, rt_node = nd, rt_earlier = now, rt_votes = []\<rparr>,
                    \<lparr>cd_wakers = [], cd_ready = [], cd_woken = []\<rparr>))))"

section \<open>Counting the replies to a request\<close>

fun receive_all ::
  "digest order \<Rightarrow> (instant \<times> header \<times> 'p reply_message) list \<Rightarrow> ('s, 'o, 'p) recv_task \<times> 'p client_data
     \<Rightarrow> ('s, 'o, 'p) recv_task \<times> 'p client_data" where
  "receive_all ord [] st = st"
| "receive_all ord ((now, h, m) # xs) st = receive_all ord xs (receive_reply ord now h m st)"

lemma receive_all_append: "receive_all ord (xs @ ys) st = receive_all ord ys (receive_all ord xs st)"
  by (induction ord xs st rule: receive_all.induct) simp_all

text \<open>The replies that have the digest \<open>d\<close> in their header.\<close>

definition replies_with ::
  "digest \<Rightarrow> (instant \<times> header \<times> 'p reply_message) list \<Rightarrow> (instant \<times> header \<times> 'p reply_message) list" where
  "replies_with d xs = filter (\<lambda>(_, h, _). header_digest h = d) xs"

lemma replies_with_simps [simp]:
  "replies_with d [] = []" "replies_with d (xs @ ys) = replies_with d xs @ replies_with d ys"
  "replies_with d [(now, h, m)] = (if header_digest h = d then [(now, h, m)] else [])"
  by (simp_all add: replies_with_def)

lemma count_reply_first:
  assumes "hmap_get (rt_votes rt) dig = None" and "now - rt_earlier rt \<le> GC_DUR"
  shows "count_reply ord f now h dig rt = (f = 0, rt\<lparr>rt_earlier := now,
    rt_votes := hmap_insert dig \<lparr>rv_count = 1, rv_digest = header_digest h\<rparr>
      (hmap_insert dig \<lparr>rv_count = 0, rv_digest = header_digest h\<rparr> (rt_votes rt))\<rparr>)"
  using assms
  by (auto simp: count_reply_def entry_or_insert_def hmap_contains_def hmap_get_insert Let_def)

lemma count_reply_again:
  assumes "hmap_get (rt_votes rt) dig = Some \<lparr>rv_count = k, rv_digest = d\<rparr>" and "now - rt_earlier rt \<le> GC_DUR"
    and "count_reply ord f now h dig rt = (b, rt')"
  shows "rt_earlier rt' = now" "rt_params rt' = rt_params rt"
    "hmap_get (rt_votes rt') dig = Some \<lparr>rv_count = (if header_digest h = d \<and> k \<le> f then k + 1 else k), rv_digest = d\<rparr>"
    "b \<longleftrightarrow> k = f \<and> header_digest h = d"
  using assms
  by (auto simp: count_reply_def entry_or_insert_def hmap_contains_def hmap_get_insert Let_def split: if_splits)

definition delivered_replies ::
  "usize \<Rightarrow> digest \<Rightarrow> (instant \<times> header \<times> 'p reply_message) list \<Rightarrow> 'p client_data \<Rightarrow> 'p client_data" where
  "delivered_replies f dig rs cd =
     (if f < length rs then deliver_wake dig (deliver_ready dig (rp_payload (snd (snd (rs ! f)))) cd) else cd)"

lemma receive_all_counts:
  assumes "\<forall>(now, h, m) \<in> set ((now0, h0, m0) # xs). rp_digest m = dig \<and> t \<le> now \<and> now \<le> t + GC_DUR"
    and "rt_earlier rt = t" and "hmap_get (rt_votes rt) dig = None"
  defines "d \<equiv> header_digest h0" and "f \<equiv> sp_f (rt_params rt)"
  shows "\<exists>rt'. receive_all ord ((now0, h0, m0) # xs) (rt, cd) =
      (rt', delivered_replies f dig (replies_with d ((now0, h0, m0) # xs)) cd) \<and>
    t \<le> rt_earlier rt' \<and> rt_params rt' = rt_params rt \<and>
    hmap_get (rt_votes rt') dig =
      Some \<lparr>rv_count = min (f + 1) (length (replies_with d ((now0, h0, m0) # xs))), rv_digest = d\<rparr>"
  using assms(1)
proof (induction xs rule: rev_induct)
  case Nil
  then have "rp_digest m0 = dig" "now0 - rt_earlier rt \<le> GC_DUR" "t \<le> now0" using assms(2) by auto
  then show ?case
    using count_reply_first [OF assms(3), of now0 ord f h0]
    by (auto simp: receive_reply_def f_def d_def delivered_replies_def replies_with_def hmap_get_insert)
next
  case (snoc x xs)
  obtain now h m where x: "x = (now, h, m)" by (cases x) auto
  let ?ys = "(now0, h0, m0) # xs"
  let ?rs = "replies_with d ?ys"
  obtain rt1 where all: "receive_all ord ?ys (rt, cd) = (rt1, delivered_replies f dig ?rs cd)"
    and rt1: "t \<le> rt_earlier rt1" "rt_params rt1 = rt_params rt"
      "hmap_get (rt_votes rt1) dig = Some \<lparr>rv_count = min (f + 1) (length ?rs), rv_digest = d\<rparr>"
    using snoc by auto
  obtain b rt2 where c: "count_reply ord f now h dig rt1 = (b, rt2)" by fastforce
  have m: "rp_digest m = dig" "now - rt_earlier rt1 \<le> GC_DUR" "t \<le> now" using snoc.prems rt1(1) by (auto simp: x)
  note c' = count_reply_again [OF rt1(3) m(2) c]
  have rs: "replies_with d ((now0, h0, m0) # xs @ [x]) = ?rs @ (if header_digest h = d then [x] else [])"
    by (simp add: x replies_with_def)
  have "receive_all ord (?ys @ [x]) (rt, cd) =
      (rt2, if b then deliver_wake dig (deliver_ready dig (rp_payload m) (delivered_replies f dig ?rs cd))
            else delivered_replies f dig ?rs cd)"
    unfolding receive_all_append all using c m(1) rt1(2) by (simp add: x receive_reply_def f_def)
  moreover have "(if b then deliver_wake dig (deliver_ready dig (rp_payload m) (delivered_replies f dig ?rs cd))
      else delivered_replies f dig ?rs cd) = delivered_replies f dig (replies_with d ((now0, h0, m0) # xs @ [x])) cd"
    unfolding rs using c'(4) by (auto simp: delivered_replies_def nth_append x)
  moreover have "hmap_get (rt_votes rt2) dig =
      Some \<lparr>rv_count = min (f + 1) (length (replies_with d ((now0, h0, m0) # xs @ [x]))), rv_digest = d\<rparr>"
    unfolding rs c'(3) by (auto simp: min_def)
  moreover have "t \<le> rt_earlier rt2" "rt_params rt2 = rt_params rt" using c'(1,2) m(3) rt1(2) by simp_all
  ultimately show ?case by (simp del: receive_all.simps)
qed

section \<open>Interleavings\<close>

text \<open>
  The atomic sections of a poll of the waiting task and of the delivery of its reply. The
  task polls once; when the first section finds no reply, the task is pending.
\<close>

datatype 'p atomic_section =
    Poll_Ready digest
  | Poll_Register digest waker
  | Deliver_Ready digest 'p
  | Deliver_Wake digest

fun run_section :: "'p atomic_section \<Rightarrow> 'p option \<times> 'p client_data \<Rightarrow> 'p option \<times> 'p client_data" where
  "run_section (Poll_Ready dig) (_, cd) = poll_ready dig cd"
| "run_section (Poll_Register dig w) (result, cd) =
     (result, case result of None \<Rightarrow> poll_register dig w cd | Some _ \<Rightarrow> cd)"
| "run_section (Deliver_Ready dig payload) (result, cd) = (result, deliver_ready dig payload cd)"
| "run_section (Deliver_Wake dig) (result, cd) = (result, deliver_wake dig cd)"

definition run_sections :: "'p atomic_section list \<Rightarrow> 'p client_data \<Rightarrow> 'p option \<times> 'p client_data" where
  "run_sections ss cd = fold run_section ss (None, cd)"

text \<open>The task waits, nothing has woken it, and its reply is there.\<close>

definition wakeup_lost :: "digest \<Rightarrow> waker \<Rightarrow> 'p option \<times> 'p client_data \<Rightarrow> bool" where
  "wakeup_lost dig w st \<longleftrightarrow>
     (case st of (result, cd) \<Rightarrow> result = None \<and> w \<notin> set (cd_woken cd) \<and> hmap_contains (cd_ready cd) dig)"

lemma request_poll_sections:
  "run_sections [Poll_Ready dig, Poll_Register dig w] cd = request_poll dig w cd"
  by (simp add: run_sections_def request_poll_def poll_ready_def split: option.splits)

section \<open>Properties\<close>

text \<open>
  C12. When a reply is delivered, and which. Let the replies to a request arrive, in any number
  and from whomever, within the garbage collection interval. Only those whose header has the
  digest of the first reply count. If there are at most \<open>f\<close> of these nothing is ever
  delivered, however many replies agree on another digest; with more, the payload of the
  \<open>f + 1\<close>st of them, whatever it is, becomes the result, and the waiting task is woken.
\<close>

theorem reply_delivery:
  assumes "\<forall>(now, h, m) \<in> set ((now0, h0, m0) # xs). rp_digest m = dig \<and> rt_earlier rt \<le> now \<and>
      now \<le> rt_earlier rt + GC_DUR"
    and "hmap_get (rt_votes rt) dig = None"
  defines "counted \<equiv> filter (\<lambda>(_, h, _). header_digest h = header_digest h0) ((now0, h0, m0) # xs)"
  shows "snd (receive_all ord ((now0, h0, m0) # xs) (rt, cd)) =
    (if length counted \<le> sp_f (rt_params rt) then cd
     else deliver_wake dig (deliver_ready dig (rp_payload (snd (snd (counted ! sp_f (rt_params rt))))) cd))"
proof -
  obtain rt' where "receive_all ord ((now0, h0, m0) # xs) (rt, cd) =
      (rt', delivered_replies (sp_f (rt_params rt)) dig (replies_with (header_digest h0) ((now0, h0, m0) # xs)) cd)"
    using receive_all_counts [OF assms(1) refl assms(2), of ord cd] by blast
  then show ?thesis
    unfolding counted_def replies_with_def [symmetric] by (simp add: delivered_replies_def del: receive_all.simps)
qed

definition example_recv :: "(nat, nat, nat) recv_task" where
  "example_recv = \<lparr>rt_params = \<lparr>sp_n = 4, sp_f = 1\<rparr>, rt_node = example_node, rt_earlier = 0, rt_votes = []\<rparr>"

theorem reply_delivery_witness:
  "snd (receive_all (\<lambda>ks. ks)
     [(1, example_header 1, ReplyMessage (Digest [5]) 7), (2, example_header 2, ReplyMessage (Digest [5]) 8)]
     (example_recv, \<lparr>cd_wakers = [(Digest [5], 3)], cd_ready = [], cd_woken = []\<rparr>)) =
   \<lparr>cd_wakers = [], cd_ready = [(Digest [5], 8)], cd_woken = [3]\<rparr>"
proof -
  let ?x = "(1, example_header 1, ReplyMessage (Digest [5]) (7 :: nat))"
    and ?y = "(2, example_header 2, ReplyMessage (Digest [5]) (8 :: nat))"
  have "\<forall>(now, h, m) \<in> set [?x, ?y]. rp_digest m = Digest [5] \<and> rt_earlier example_recv \<le> now \<and>
      now \<le> rt_earlier example_recv + GC_DUR"
    by (simp add: example_recv_def GC_DUR_def from_secs_def)
  moreover have "hmap_get (rt_votes example_recv) (Digest [5]) = None" by (simp add: example_recv_def)
  ultimately show ?thesis
    by (subst reply_delivery [where dig = "Digest [5]"])
      (simp_all add: header_digest_def example_header_def example_recv_def deliver_wake_def deliver_ready_def)
qed

text \<open>
  C34. A lost wake-up. A task polls for its reply in two atomic sections, and the receiving task
  delivers the reply in two. Of the six ways to interleave them exactly one loses the
  wake-up: when the whole delivery happens between the two sections of the poll, the task
  waits forever although its reply is there. In every other order the task gets the reply or
  is woken.
\<close>

theorem lost_wakeup:
  assumes "hmap_get (cd_ready cd) dig = None" and "hmap_get (cd_wakers cd) dig = None" and "w \<notin> set (cd_woken cd)"
  shows "{ss \<in> shuffles [Poll_Ready dig, Poll_Register dig w] [Deliver_Ready dig payload, Deliver_Wake dig].
      wakeup_lost dig w (run_sections ss cd)} =
    {[Poll_Ready dig, Deliver_Ready dig payload, Deliver_Wake dig, Poll_Register dig w]}"
proof -
  let ?p1 = "Poll_Ready dig" and ?p2 = "Poll_Register dig w" and ?d1 = "Deliver_Ready dig payload"
    and ?d2 = "Deliver_Wake dig"
  have sh: "shuffles [?p1, ?p2] [?d1, ?d2] =
    {[?p1, ?p2, ?d1, ?d2], [?p1, ?d1, ?p2, ?d2], [?p1, ?d1, ?d2, ?p2],
     [?d1, ?p1, ?p2, ?d2], [?d1, ?p1, ?d2, ?p2], [?d1, ?d2, ?p1, ?p2]}"
    by (simp add: image_Un Un_insert_left Un_insert_right insert_commute)
  note defs = run_sections_def wakeup_lost_def poll_ready_def poll_register_def deliver_ready_def deliver_wake_def
    hmap_get_insert hmap_get_remove hmap_contains_def assms
  have "\<not> wakeup_lost dig w (run_sections [?p1, ?p2, ?d1, ?d2] cd)"
    "\<not> wakeup_lost dig w (run_sections [?p1, ?d1, ?p2, ?d2] cd)"
    "wakeup_lost dig w (run_sections [?p1, ?d1, ?d2, ?p2] cd)"
    "\<not> wakeup_lost dig w (run_sections [?d1, ?p1, ?p2, ?d2] cd)"
    "\<not> wakeup_lost dig w (run_sections [?d1, ?p1, ?d2, ?p2] cd)"
    "\<not> wakeup_lost dig w (run_sections [?d1, ?d2, ?p1, ?p2] cd)"
    by (simp_all add: defs)
  then show ?thesis unfolding sh by blast
qed

theorem lost_wakeup_witness:
  "wakeup_lost (Digest [5]) 3 (run_sections
     [Poll_Ready (Digest [5]), Deliver_Ready (Digest [5]) 7, Deliver_Wake (Digest [5]), Poll_Register (Digest [5]) 3]
     \<lparr>cd_wakers = [], cd_ready = [], cd_woken = []\<rparr>)"
  using lost_wakeup [of "\<lparr>cd_wakers = [], cd_ready = [], cd_woken = []\<rparr>" "Digest [5]" 3 7] by auto

end
