(* ===== verification/Cst.thy ===== *)
theory Cst
  imports Sync
begin

text \<open>
  Collaborative state transfer (\<open>src/bft/cst/mod.rs\<close>): how a replica asks its peers for the
  latest consensus instance and for a recovery state, how peers answer, and how the state
  that enough of them agree on is installed.
\<close>

section \<open>Data\<close>

datatype ('s, 'o) cst_phase =
    Cst_Init
  | Cst_WaitingCheckpoint header "('s, 'o) cst_message"
  | Cst_ReceivingCid usize
  | Cst_ReceivingState usize

record ('s, 'o) received_state =
  rcv_count :: usize
  rcv_state :: "('s, 'o) recovery_state"

record ('s, 'o) cst =
  ct_latest_cid :: seq_no
  ct_cst_seq :: seq_no
  ct_latest_cid_count :: usize
  ct_base_timeout :: duration
  ct_curr_timeout :: duration
  ct_received_states :: "(digest, ('s, 'o) received_state) hmap"
  ct_phase :: "('s, 'o) cst_phase"

datatype ('s, 'o) cst_status =
    CT_Nil
  | CT_Running
  | CT_RequestLatestCid
  | CT_RequestState
  | CT_SeqNo seq_no
  | CT_State "('s, 'o) recovery_state"

datatype ('s, 'o) cst_progress =
    Progress_Nil
  | Progress_Message header "('s, 'o) cst_message"

definition cst_new :: "duration \<Rightarrow> ('s, 'o) cst" where
  "cst_new base_timeout =
     \<lparr>ct_latest_cid = seq_zero, ct_cst_seq = seq_zero, ct_latest_cid_count = 0,
      ct_base_timeout = base_timeout, ct_curr_timeout = base_timeout, ct_received_states = [],
      ct_phase = Cst_Init\<rparr>"

definition needs_checkpoint :: "('s, 'o) cst \<Rightarrow> bool" where
  "needs_checkpoint ct = (case ct_phase ct of Cst_WaitingCheckpoint _ _ \<Rightarrow> True | _ \<Rightarrow> False)"

section \<open>Answering and receiving\<close>

definition process_reply_state ::
  "('s, 'o, 'p, 'z) env_scheme \<Rightarrow> header \<Rightarrow> ('s, 'o) cst_message \<Rightarrow> view_info \<Rightarrow> ('s, 'o) log
     \<Rightarrow> ('s, 'o, 'p) node \<Rightarrow> ('s, 'o) cst \<Rightarrow> (('s, 'o) cst \<times> ('s, 'o, 'p) node) res" where
  "process_reply_state env h m view lg nd ct =
     (case snapshot view lg of
        Inl _ \<Rightarrow> Inr (ct\<lparr>ct_phase := Cst_WaitingCheckpoint h m\<rparr>, nd)
      | Inr snap \<Rightarrow>
          bind_res (node_send env (SM_Cst \<lparr>cst_m_seq = cst_m_seq m, cst_m_kind = ReplyState snap\<rparr>)
              (header_from h) nd)
            (\<lambda>(_, nd). Inr (ct, nd)))"

type_synonym ('s, 'o, 'p) cst_result = "(('s, 'o) cst_status \<times> ('s, 'o) cst \<times> ('s, 'o, 'p) node) res"

definition cst_process_init ::
  "('s, 'o, 'p, 'z) env_scheme \<Rightarrow> ('s, 'o) cst_progress \<Rightarrow> view_info \<Rightarrow> consensus \<Rightarrow> ('s, 'o) log
     \<Rightarrow> ('s, 'o, 'p) node \<Rightarrow> ('s, 'o) cst \<Rightarrow> ('s, 'o, 'p) cst_result" where
  "cst_process_init env progress view c lg nd ct =
     (case progress of
        Progress_Nil \<Rightarrow> Inr (CT_Nil, ct, nd)
      | Progress_Message h m \<Rightarrow>
          (case cst_m_kind m of
             RequestLatestConsensusSeq \<Rightarrow>
               bind_res (node_send env
                   (SM_Cst \<lparr>cst_m_seq = cst_m_seq m, cst_m_kind = ReplyLatestConsensusSeq (co_seq c)\<rparr>)
                   (header_from h) nd)
                 (\<lambda>(_, nd). Inr (CT_Nil, ct, nd))
           | RequestState \<Rightarrow>
               bind_res (process_reply_state env h m view lg nd ct) (\<lambda>(ct, nd). Inr (CT_Nil, ct, nd))
           | _ \<Rightarrow> Inr (CT_Nil, ct, nd)))"

definition receive_cid :: "seq_no \<Rightarrow> ('s, 'o) cst \<Rightarrow> ('s, 'o) cst" where
  "receive_cid s ct =
     (case seq_cmp s (ct_latest_cid ct) of
        Greater \<Rightarrow> ct\<lparr>ct_latest_cid := s, ct_latest_cid_count := 1\<rparr>
      | Equal \<Rightarrow> ct\<lparr>ct_latest_cid_count := ct_latest_cid_count ct + 1\<rparr>
      | Less \<Rightarrow> ct)"

definition cst_process_cid ::
  "usize \<Rightarrow> ('s, 'o) cst_progress \<Rightarrow> view_info \<Rightarrow> ('s, 'o) cst \<Rightarrow> ('s, 'o) cst_status \<times> ('s, 'o) cst" where
  "cst_process_cid i progress view ct =
     (case progress of
        Progress_Nil \<Rightarrow> (CT_RequestLatestCid, ct)
      | Progress_Message h m \<Rightarrow>
          (if cst_m_seq m \<noteq> ct_cst_seq ct then (CT_Running, ct)
           else (case cst_m_kind m of
                   ReplyLatestConsensusSeq s \<Rightarrow>
                     (let ct = receive_cid s ct; i = i + 1 in
                      if i = view_quorum view
                      then (let ct = ct\<lparr>ct_phase := Cst_Init\<rparr> in
                            if ct_latest_cid_count ct > view_f view
                            then (CT_SeqNo (ct_latest_cid ct), ct\<lparr>ct_curr_timeout := ct_base_timeout ct\<rparr>)
                            else (CT_RequestLatestCid, ct))
                      else (CT_Running, ct\<lparr>ct_phase := Cst_ReceivingCid i\<rparr>))
                 | _ \<Rightarrow> (CT_Running, ct))))"

definition count_state ::
  "digest \<Rightarrow> ('s, 'o) recovery_state \<Rightarrow> (digest, ('s, 'o) received_state) hmap
     \<Rightarrow> (digest, ('s, 'o) received_state) hmap" where
  "count_state d st received =
     (case hmap_get received d of
        Some rs \<Rightarrow> hmap_insert d (rs\<lparr>rcv_count := rcv_count rs + 1\<rparr>) received
      | None \<Rightarrow> hmap_insert d \<lparr>rcv_count = 0 + 1, rcv_state = st\<rparr> received)"

definition cst_process_state ::
  "digest order \<Rightarrow> usize \<Rightarrow> ('s, 'o) cst_progress \<Rightarrow> view_info \<Rightarrow> ('s, 'o) cst
     \<Rightarrow> ('s, 'o) cst_status \<times> ('s, 'o) cst" where
  "cst_process_state ord i progress view ct =
     (case progress of
        Progress_Nil \<Rightarrow> (CT_RequestState, ct)
      | Progress_Message h m \<Rightarrow>
          (if cst_m_seq m \<noteq> ct_cst_seq ct then (CT_Running, ct)
           else (case fst (take_state m) of
                   None \<Rightarrow> (CT_Running, ct)
                 | Some st \<Rightarrow>
                     (let received = count_state (header_digest h) st (ct_received_states ct); i = i + 1 in
                      if i \<noteq> view_quorum view
                      then (CT_Running, ct\<lparr>ct_received_states := received, ct_phase := Cst_ReceivingState i\<rparr>)
                      else (case max_by_key (\<lambda>(_, rs). rcv_count rs) (hmap_iter ord received) of
                              None \<Rightarrow> (CT_RequestState, ct\<lparr>ct_received_states := []\<rparr>)
                            | Some (d, _) \<Rightarrow>
                                (let ct = ct\<lparr>ct_received_states := [], ct_curr_timeout := ct_base_timeout ct\<rparr> in
                                 case hmap_get received d of
                                   Some rs \<Rightarrow> (if rcv_count rs > view_f view then (CT_State (rcv_state rs), ct)
                                               else (CT_RequestState, ct))
                                 | None \<Rightarrow> (CT_RequestState, ct)))))))"

definition cst_process_message ::
  "('s, 'o, 'p, 'z) env_scheme \<Rightarrow> ('s, 'o) cst_progress \<Rightarrow> view_info \<Rightarrow> consensus \<Rightarrow> ('s, 'o) log
     \<Rightarrow> ('s, 'o, 'p) node \<Rightarrow> ('s, 'o) cst \<Rightarrow> ('s, 'o, 'p) cst_result" where
  "cst_process_message env progress view c lg nd ct =
     (case ct_phase ct of
        Cst_WaitingCheckpoint h m \<Rightarrow>
          bind_res (process_reply_state env h m view lg nd (ct\<lparr>ct_phase := Cst_Init\<rparr>))
            (\<lambda>(ct, nd). Inr (CT_Nil, ct, nd))
      | Cst_Init \<Rightarrow> cst_process_init env progress view c lg nd ct
      | Cst_ReceivingCid i \<Rightarrow> (case cst_process_cid i progress view ct of (status, ct) \<Rightarrow> Inr (status, ct, nd))
      | Cst_ReceivingState i \<Rightarrow>
          (case cst_process_state (env_ord_digest env) i progress view ct of (status, ct) \<Rightarrow> Inr (status, ct, nd)))"

section \<open>Requesting\<close>

definition cst_next_seq :: "('s, 'o) cst \<Rightarrow> seq_no \<times> ('s, 'o) cst" where
  "cst_next_seq ct = (ct_cst_seq ct, ct\<lparr>ct_cst_seq := seq_next (ct_cst_seq ct)\<rparr>)"

definition cst_timed_out :: "seq_no \<Rightarrow> ('s, 'o) cst \<Rightarrow> ('s, 'o) cst_status \<times> ('s, 'o) cst" where
  "cst_timed_out s ct =
     (if seq_next s \<noteq> ct_cst_seq ct then (CT_Nil, ct)
      else (case ct_phase ct of
              Cst_ReceivingCid _ \<Rightarrow> (CT_RequestLatestCid, ct\<lparr>ct_curr_timeout := ct_curr_timeout ct * 2\<rparr>)
            | Cst_ReceivingState _ \<Rightarrow> (CT_RequestState, ct\<lparr>ct_curr_timeout := ct_curr_timeout ct * 2\<rparr>)
            | _ \<Rightarrow> (CT_Nil, ct)))"

type_synonym ('s, 'o, 'p) cst_requested = "(('s, 'o) cst \<times> timeouts_handle \<times> ('s, 'o, 'p) node) res"

definition request_latest_consensus_seq_no ::
  "('s, 'o, 'p, 'z) env_scheme \<Rightarrow> view_info \<Rightarrow> timeouts_handle \<Rightarrow> ('s, 'o, 'p) node \<Rightarrow> ('s, 'o) cst
     \<Rightarrow> ('s, 'o, 'p) cst_requested" where
  "request_latest_consensus_seq_no env view th nd ct =
     (let ct = ct\<lparr>ct_latest_cid := seq_zero, ct_latest_cid_count := 0\<rparr> in
      case cst_next_seq ct of
        (cst_seq, ct) \<Rightarrow>
          (let th = timeout (ct_curr_timeout ct) (Timeout_Cst cst_seq) th;
               ct = ct\<lparr>ct_phase := Cst_ReceivingCid 0\<rparr> in
           bind_res (node_broadcast env
               (SM_Cst \<lparr>cst_m_seq = cst_seq, cst_m_kind = RequestLatestConsensusSeq\<rparr>)
               (view_targets view) nd)
             (\<lambda>(_, nd). Inr (ct, th, nd))))"

definition request_latest_state ::
  "('s, 'o, 'p, 'z) env_scheme \<Rightarrow> view_info \<Rightarrow> timeouts_handle \<Rightarrow> ('s, 'o, 'p) node \<Rightarrow> ('s, 'o) cst
     \<Rightarrow> ('s, 'o, 'p) cst_requested" where
  "request_latest_state env view th nd ct =
     (let ct = ct\<lparr>ct_received_states := []\<rparr> in
      case cst_next_seq ct of
        (cst_seq, ct) \<Rightarrow>
          (let th = timeout (ct_curr_timeout ct) (Timeout_Cst cst_seq) th;
               ct = ct\<lparr>ct_phase := Cst_ReceivingState 0\<rparr> in
           bind_res (node_broadcast env
               (SM_Cst \<lparr>cst_m_seq = cst_seq, cst_m_kind = RequestState\<rparr>)
               (view_targets view) nd)
             (\<lambda>(_, nd). Inr (ct, th, nd))))"

section \<open>Installing\<close>

definition install_recovery_state ::
  "('s, 'o) recovery_state \<Rightarrow> 'o synchronizer \<Rightarrow> ('s, 'o) log \<Rightarrow> ('s, 'o) executor_handle \<Rightarrow> consensus
     \<Rightarrow> ('o synchronizer \<times> ('s, 'o) log \<times> ('s, 'o) executor_handle \<times> consensus) res" where
  "install_recovery_state rs sy lg eh c =
     (let sy = install_view (rs_view rs) sy in
      bind_res (install_new_phase rs c) (\<lambda>c.
      bind_res (executor_install_state (cp_appstate (rs_checkpoint rs)) (rs_requests rs) eh) (\<lambda>eh.
      Inr (sy, log_install_state (co_seq c) rs lg, eh, c))))"

section \<open>Runs of replies\<close>

text \<open>The statuses of a sequence of messages processed one after the other.\<close>

fun cst_run ::
  "('s, 'o, 'p, 'z) env_scheme \<Rightarrow> view_info \<Rightarrow> consensus \<Rightarrow> ('s, 'o) log \<Rightarrow> (header \<times> ('s, 'o) cst_message) list
     \<Rightarrow> ('s, 'o) cst \<times> ('s, 'o, 'p) node
     \<Rightarrow> (('s, 'o) cst_status list \<times> ('s, 'o) cst \<times> ('s, 'o, 'p) node) res" where
  "cst_run env view c lg [] (ct, nd) = Inr ([], ct, nd)"
| "cst_run env view c lg ((h, m) # ms) (ct, nd) =
     bind_res (cst_process_message env (Progress_Message h m) view c lg nd ct) (\<lambda>(status, ct, nd).
     bind_res (cst_run env view c lg ms (ct, nd)) (\<lambda>(statuses, ct, nd). Inr (status # statuses, ct, nd)))"

text \<open>The replies to request \<open>s\<close>: states with the digest of their message, or instance numbers.\<close>

definition state_reply :: "seq_no \<Rightarrow> header \<times> ('s, 'o) cst_message \<Rightarrow> (digest \<times> ('s, 'o) recovery_state) option" where
  "state_reply s hm =
     (case hm of (h, m) \<Rightarrow>
        if cst_m_seq m = s then map_option (Pair (header_digest h)) (fst (take_state m)) else None)"

fun cid_reply :: "seq_no \<Rightarrow> header \<times> ('s, 'o) cst_message \<Rightarrow> seq_no option" where
  "cid_reply s (h, m) =
     (if cst_m_seq m = s
      then (case cst_m_kind m of ReplyLatestConsensusSeq cid \<Rightarrow> Some cid | _ \<Rightarrow> None)
      else None)"

definition state_replies ::
  "seq_no \<Rightarrow> (header \<times> ('s, 'o) cst_message) list \<Rightarrow> (digest \<times> ('s, 'o) recovery_state) list" where
  "state_replies s ms = List.map_filter (state_reply s) ms"

definition votes_for :: "digest \<Rightarrow> (digest \<times> 'a) list \<Rightarrow> nat" where
  "votes_for d rs = length (filter (\<lambda>(d', _). d' = d) rs)"

definition tallied ::
  "(digest \<times> ('s, 'o) recovery_state) list \<Rightarrow> (digest, ('s, 'o) received_state) hmap \<Rightarrow> bool" where
  "tallied rs received \<longleftrightarrow> hmap_wf received \<and>
     (\<forall>d. hmap_get received d =
        map_option (\<lambda>st. \<lparr>rcv_count = votes_for d rs, rcv_state = st\<rparr>) (map_of rs d))"

text \<open>A state that more than \<open>f\<close> replies carry, and no other more often.\<close>

definition state_agreed ::
  "view_info \<Rightarrow> (digest \<times> ('s, 'o) recovery_state) list \<Rightarrow> ('s, 'o) recovery_state \<Rightarrow> bool" where
  "state_agreed view rs st \<longleftrightarrow>
     (\<exists>d. map_of rs d = Some st \<and> view_f view < votes_for d rs \<and> (\<forall>d'. votes_for d' rs \<le> votes_for d rs))"

lemma tallied_nil [simp]: "tallied [] []"
  by (simp add: tallied_def)

lemma votes_for_none: "map_of rs d = None \<Longrightarrow> votes_for d rs = 0"
  by (force simp: votes_for_def map_of_eq_None_iff filter_empty_conv)

lemma tallied_count:
  assumes "tallied rs received"
  shows "tallied (rs @ [(d, st)]) (count_state d st received)"
  using assms votes_for_none [of rs d]
  by (auto simp: tallied_def count_state_def hmap_get_insert map_add_def votes_for_def split: option.splits)

lemma max_by_key_none: "max_by_key k xs = None \<longleftrightarrow> xs = []"
  by (cases xs) (auto split: option.splits)

lemma max_by_key_in: "max_by_key k xs = Some x \<Longrightarrow> x \<in> set xs \<and> (\<forall>y \<in> set xs. k y \<le> k x)"
proof (induction xs arbitrary: x)
  case (Cons a xs)
  show ?case
  proof (cases "max_by_key k xs")
    case (Some y)
    with Cons.IH [OF Some] Cons.prems show ?thesis by (auto split: if_splits)
  qed (use Cons.prems in \<open>auto simp: max_by_key_none\<close>)
qed simp

text \<open>A step of a replica that waits for states, on a reply and on anything else.\<close>

lemma cst_state_other:
  assumes "ct_phase ct = Cst_ReceivingState i" and "state_reply (ct_cst_seq ct) (h, m) = None"
  shows "cst_process_message env (Progress_Message h m) view c lg nd ct = Inr (CT_Running, ct, nd)"
  using assms
  by (auto simp: cst_process_message_def cst_process_state_def state_reply_def split: if_splits option.splits)

lemma cst_state_step:
  assumes ord: "hash_order (env_ord_digest env)"
    and phase: "ct_phase ct = Cst_ReceivingState (length rs)" and tally: "tallied rs (ct_received_states ct)"
    and reply: "state_reply (ct_cst_seq ct) (h, m) = Some (d, st)"
    and step: "cst_process_message env (Progress_Message h m) view c lg nd ct = Inr (status, ct', nd')"
  shows "status = CT_Running \<Longrightarrow>
      ct_phase ct' = Cst_ReceivingState (length (rs @ [(d, st)])) \<and> ct_cst_seq ct' = ct_cst_seq ct \<and>
      tallied (rs @ [(d, st)]) (ct_received_states ct')"
    and "status = CT_State st' \<Longrightarrow>
      length (rs @ [(d, st)]) = view_quorum view \<and> state_agreed view (rs @ [(d, st)]) st'"
proof -
  define received where "received = count_state d st (ct_received_states ct)"
  have tally': "tallied (rs @ [(d, st)]) received"
    unfolding received_def by (rule tallied_count [OF tally])
  have eq: "cst_m_seq m = ct_cst_seq ct" "fst (take_state m) = Some st" "header_digest h = d"
    using reply by (auto simp: state_reply_def split: if_splits)
  have "cst_process_state (env_ord_digest env) (length rs) (Progress_Message h m) view ct = (status, ct')"
    using step phase by (auto simp: cst_process_message_def split: prod.splits)
  note step' = this [unfolded cst_process_state_def Let_def cst_progress.case eq option.case received_def [symmetric]]
  show "ct_phase ct' = Cst_ReceivingState (length (rs @ [(d, st)])) \<and> ct_cst_seq ct' = ct_cst_seq ct \<and>
      tallied (rs @ [(d, st)]) (ct_received_states ct')" if "status = CT_Running"
    using step' that tally' by (auto split: if_splits option.splits prod.splits)
  assume st: "status = CT_State st'"
  obtain d' rs' where q: "Suc (length rs) = view_quorum view"
    and m: "max_by_key (\<lambda>(_, rs). rcv_count rs) (hmap_iter (env_ord_digest env) received) = Some (d', rs')"
    using step' st by (auto split: if_splits option.splits prod.splits)
  have wf: "hmap_wf received" using tally' by (simp add: tallied_def)
  have in_r: "(d', rs') \<in> set received" "\<forall>(d'', rs'') \<in> set received. rcv_count rs'' \<le> rcv_count rs'"
    using max_by_key_in [OF m] by (auto simp: hmap_iter_set [OF ord wf])
  then have get: "hmap_get received d' = Some rs'" using wf by (simp add: hmap_wf_def)
  with step' st q m have st': "st' = rcv_state rs'" "view_f view < rcv_count rs'"
    by (auto split: if_splits)
  have cnt: "rcv_count rs' = votes_for d' (rs @ [(d, st)])" "map_of (rs @ [(d, st)]) d' = Some (rcv_state rs')"
    using get tally' unfolding tallied_def by (simp_all only: map_option_eq_Some) force+
  have "votes_for d'' (rs @ [(d, st)]) \<le> rcv_count rs'" for d''
  proof (cases "map_of (rs @ [(d, st)]) d''")
    case (Some st'')
    then have "hmap_get received d'' = Some \<lparr>rcv_count = votes_for d'' (rs @ [(d, st)]), rcv_state = st''\<rparr>"
      using tally' by (simp add: tallied_def)
    from map_of_SomeD [OF this] in_r(2) show ?thesis by fastforce
  qed (simp add: votes_for_none)
  then have "state_agreed view (rs @ [(d, st)]) st'"
    unfolding state_agreed_def using cnt(2) st' unfolding cnt(1) by (intro conjI exI [of _ d']) simp_all
  with q show "length (rs @ [(d, st)]) = view_quorum view \<and> state_agreed view (rs @ [(d, st)]) st'" by simp
qed

definition cid_replies :: "seq_no \<Rightarrow> (header \<times> ('s, 'o) cst_message) list \<Rightarrow> seq_no list" where
  "cid_replies s ms = List.map_filter (cid_reply s) ms"

text \<open>The highest instance number of the replies, which more than \<open>f\<close> of them report.\<close>

definition cid_agreed :: "view_info \<Rightarrow> seq_no list \<Rightarrow> seq_no \<Rightarrow> bool" where
  "cid_agreed view cids s \<longleftrightarrow> (\<forall>s' \<in> set cids. s' \<le> s) \<and> view_f view < count_list cids s"

definition cid_tallied :: "seq_no list \<Rightarrow> ('s, 'o) cst \<Rightarrow> bool" where
  "cid_tallied cids ct \<longleftrightarrow>
     (\<forall>s \<in> set cids. s \<le> ct_latest_cid ct) \<and> ct_latest_cid_count ct = count_list cids (ct_latest_cid ct)"

lemma cid_tallied_receive: "cid_tallied cids ct \<Longrightarrow> cid_tallied (cids @ [s]) (receive_cid s ct)"
proof (cases s "ct_latest_cid ct" rule: linorder_cases)
  case greater
  moreover assume "cid_tallied cids ct"
  moreover from this greater have "s \<notin> set cids" by (auto simp: cid_tallied_def)
  ultimately show ?thesis
    by (auto simp: cid_tallied_def receive_cid_def seq_cmp_def count_notin)
qed (auto simp: cid_tallied_def receive_cid_def seq_cmp_def)

lemma receive_cid_frame [simp]:
  "ct_cst_seq (receive_cid s ct) = ct_cst_seq ct" "ct_base_timeout (receive_cid s ct) = ct_base_timeout ct"
  by (auto simp: receive_cid_def split: ordering.splits)

lemma cst_cid_other:
  assumes "ct_phase ct = Cst_ReceivingCid i" and "cid_reply (ct_cst_seq ct) (h, m) = None"
  shows "cst_process_message env (Progress_Message h m) view c lg nd ct = Inr (CT_Running, ct, nd)"
  using assms
  by (auto simp: cst_process_message_def cst_process_cid_def split: if_splits cst_message_kind.splits)

lemma cst_cid_step:
  assumes "ct_phase ct = Cst_ReceivingCid (length cids)" and "cid_tallied cids ct"
    and "cid_reply (ct_cst_seq ct) (h, m) = Some s"
    and step: "cst_process_message env (Progress_Message h m) view c lg nd ct = Inr (status, ct', nd')"
  shows "status = CT_Running \<Longrightarrow>
      ct_phase ct' = Cst_ReceivingCid (length (cids @ [s])) \<and> ct_cst_seq ct' = ct_cst_seq ct \<and>
      cid_tallied (cids @ [s]) ct'"
    and "status = CT_SeqNo s' \<Longrightarrow>
      length (cids @ [s]) = view_quorum view \<and> cid_agreed view (cids @ [s]) s'"
proof -
  have "cst_process_cid (length cids) (Progress_Message h m) view ct = (status, ct')"
    using step assms(1) by (auto simp: cst_process_message_def split: prod.splits)
  then have step': "status = CT_Running \<and> ct' = (receive_cid s ct)\<lparr>ct_phase := Cst_ReceivingCid (Suc (length cids))\<rparr> \<or>
      status \<noteq> CT_Running \<and> Suc (length cids) = view_quorum view \<and>
      (status = CT_SeqNo s' \<longrightarrow> s' = ct_latest_cid (receive_cid s ct) \<and>
        view_f view < ct_latest_cid_count (receive_cid s ct))"
    using assms(3)
    by (auto simp: cst_process_cid_def Let_def split: if_splits cst_message_kind.splits)
  note tallied = cid_tallied_receive [OF assms(2), of s]
  show "ct_phase ct' = Cst_ReceivingCid (length (cids @ [s])) \<and> ct_cst_seq ct' = ct_cst_seq ct \<and>
      cid_tallied (cids @ [s]) ct'" if "status = CT_Running"
    using step' that tallied by (simp add: cid_tallied_def)
  show "length (cids @ [s]) = view_quorum view \<and> cid_agreed view (cids @ [s]) s'" if "status = CT_SeqNo s'"
    using step' that tallied by (auto simp: cid_tallied_def cid_agreed_def)
qed

subsection \<open>Collecting replies\<close>

text \<open>
  Both requests collect replies in the same way: a message that is no reply changes nothing,
  a reply is added to those collected, and the request ends with a status that is right for
  the replies collected. \<open>inv rs ct\<close> says that \<open>ct\<close> has collected the replies \<open>rs\<close>.
\<close>

locale collecting =
  fixes env :: "('s, 'o, 'p, 'z) env_scheme" and view :: view_info and c :: consensus
    and lg :: "('s, 'o) log"
    and reply :: "seq_no \<Rightarrow> header \<times> ('s, 'o) cst_message \<Rightarrow> 'r option"
    and inv :: "'r list \<Rightarrow> ('s, 'o) cst \<Rightarrow> bool"
    and good :: "'r list \<Rightarrow> ('s, 'o) cst_status \<Rightarrow> bool"
  assumes other: "inv rs ct \<Longrightarrow> reply (ct_cst_seq ct) (h, m) = None \<Longrightarrow>
      cst_process_message env (Progress_Message h m) view c lg nd ct = Inr (CT_Running, ct, nd)"
    and collect: "inv rs ct \<Longrightarrow> reply (ct_cst_seq ct) (h, m) = Some r \<Longrightarrow>
      cst_process_message env (Progress_Message h m) view c lg nd ct = Inr (CT_Running, ct', nd') \<Longrightarrow>
      inv (rs @ [r]) ct' \<and> ct_cst_seq ct' = ct_cst_seq ct"
    and finish: "inv rs ct \<Longrightarrow> reply (ct_cst_seq ct) (h, m) = Some r \<Longrightarrow>
      cst_process_message env (Progress_Message h m) view c lg nd ct = Inr (status, ct', nd') \<Longrightarrow>
      status \<noteq> CT_Running \<Longrightarrow> good (rs @ [r]) status"
begin

lemma run_good:
  assumes "inv rs ct" and "status \<noteq> CT_Running"
    and "cst_run env view c lg (ms @ [m]) (ct, nd) = Inr (replicate (length ms) CT_Running @ [status], ct', nd')"
  shows "good (rs @ List.map_filter (reply (ct_cst_seq ct)) (ms @ [m])) status"
  using assms(1,3)
proof (induction ms arbitrary: ct nd rs)
  case Nil
  obtain h msg where m: "m = (h, msg)" by fastforce
  obtain nd1 where step: "cst_process_message env (Progress_Message h msg) view c lg nd ct = Inr (status, ct', nd1)"
    using Nil(2) by (auto simp: m res_simps split: prod.splits)
  then obtain r where r: "reply (ct_cst_seq ct) (h, msg) = Some r"
    using other [OF Nil(1), of h msg nd] assms(2) by (cases "reply (ct_cst_seq ct) (h, msg)") auto
  show ?case using finish [OF Nil(1) r step assms(2)] r by (simp add: m map_filter_simps)
next
  case (Cons x ms)
  obtain h msg where x: "x = (h, msg)" by fastforce
  obtain ct1 nd1 where step: "cst_process_message env (Progress_Message h msg) view c lg nd ct = Inr (CT_Running, ct1, nd1)"
    and run: "cst_run env view c lg (ms @ [m]) (ct1, nd1) = Inr (replicate (length ms) CT_Running @ [status], ct', nd')"
    using Cons.prems(2) by (auto simp: x res_simps split: prod.splits)
  show ?case
  proof (cases "reply (ct_cst_seq ct) (h, msg)")
    case None
    with other [OF Cons.prems(1) None, of nd] step have "ct1 = ct" by simp
    with Cons.IH [OF Cons.prems(1)] run None show ?thesis by (simp add: map_filter_simps x)
  next
    case (Some r)
    with Cons.IH [of "rs @ [r]" ct1 nd1] collect [OF Cons.prems(1) Some step] run show ?thesis
      by (simp add: map_filter_simps x)
  qed
qed

end

definition states_collected ::
  "('s, 'o, 'p, 'z) env_scheme \<Rightarrow> (digest \<times> ('s, 'o) recovery_state) list \<Rightarrow> ('s, 'o) cst \<Rightarrow> bool" where
  "states_collected env rs ct \<longleftrightarrow> hash_order (env_ord_digest env) \<and>
     ct_phase ct = Cst_ReceivingState (length rs) \<and> tallied rs (ct_received_states ct)"

definition cids_collected :: "seq_no list \<Rightarrow> ('s, 'o) cst \<Rightarrow> bool" where
  "cids_collected cids ct \<longleftrightarrow> ct_phase ct = Cst_ReceivingCid (length cids) \<and> cid_tallied cids ct"

definition good_state ::
  "view_info \<Rightarrow> (digest \<times> ('s, 'o) recovery_state) list \<Rightarrow> ('s, 'o) cst_status \<Rightarrow> bool" where
  "good_state view rs status \<longleftrightarrow>
     (\<forall>st. status = CT_State st \<longrightarrow> length rs = view_quorum view \<and> state_agreed view rs st)"

definition good_cid :: "view_info \<Rightarrow> seq_no list \<Rightarrow> ('s, 'o) cst_status \<Rightarrow> bool" where
  "good_cid view cids status \<longleftrightarrow>
     (\<forall>s. status = CT_SeqNo s \<longrightarrow> length cids = view_quorum view \<and> cid_agreed view cids s)"

interpretation states: collecting env view c lg state_reply "states_collected env" "good_state view"
  for env view c lg
proof (unfold_locales, unfold states_collected_def good_state_def, goal_cases)
  case 1
  then show ?case by (simp add: cst_state_other)
next
  case (2 rs ct h m r nd ct' nd')
  then show ?case using cst_state_step(1) [of env ct rs h m "fst r" "snd r"] by simp
next
  case (3 rs ct h m r nd status ct' nd')
  obtain d st where "r = (d, st)" by fastforce
  with 3 show ?case using cst_state_step(2) by blast
qed

interpretation cids: collecting env view c lg cid_reply cids_collected "good_cid view"
  for env view c lg
proof (unfold_locales, unfold cids_collected_def good_cid_def, goal_cases)
  case 1
  then show ?case using cst_cid_other by blast
next
  case 2
  then show ?case using cst_cid_step(1) by blast
next
  case 3
  then show ?case using cst_cid_step(2) by blast
qed

section \<open>Properties\<close>

text \<open>
  C11. What a recovering replica adopts was agreed on. Take a replica that asked for the
  recovery state, and the messages it processes from then on, up to the one that makes it
  return a state. The messages it counted, those that carry a state under its current
  request number, are a quorum; more than \<open>f\<close> of them have the same digest, the first of
  these carries the state returned, and no other digest occurs more often. Likewise for the
  latest consensus instance: the number returned was reported by more than \<open>f\<close> replies of a
  quorum, and no reply of the quorum reports a higher one.
\<close>

theorem cst_agreed:
  fixes env :: "('s, 'o, 'p, 'z) env_scheme"
  assumes "hash_order (env_ord_digest env)"
  shows "(request_latest_state env view th nd0 ct0 = Inr (ct, th', nd) \<and>
      cst_run env view c lg (ms @ [m]) (ct, nd) =
        Inr (replicate (length ms) CT_Running @ [CT_State st], ct', nd') \<longrightarrow>
      length (state_replies (ct_cst_seq ct) (ms @ [m])) = view_quorum view \<and>
      state_agreed view (state_replies (ct_cst_seq ct) (ms @ [m])) st) \<and>
    (request_latest_consensus_seq_no env view th nd0 ct0 = Inr (ct, th', nd) \<and>
      cst_run env view c lg (ms @ [m]) (ct, nd) =
        Inr (replicate (length ms) CT_Running @ [CT_SeqNo s], ct', nd') \<longrightarrow>
      length (cid_replies (ct_cst_seq ct) (ms @ [m])) = view_quorum view \<and>
      cid_agreed view (cid_replies (ct_cst_seq ct) (ms @ [m])) s)"
proof (intro conjI impI; elim conjE)
  assume "request_latest_state env view th nd0 ct0 = Inr (ct, th', nd)"
  then have "states_collected env [] ct"
    using assms by (auto simp: request_latest_state_def cst_next_seq_def res_simps states_collected_def)
  moreover assume "cst_run env view c lg (ms @ [m]) (ct, nd) =
    Inr (replicate (length ms) CT_Running @ [CT_State st], ct', nd')"
  ultimately show "length (state_replies (ct_cst_seq ct) (ms @ [m])) = view_quorum view"
    "state_agreed view (state_replies (ct_cst_seq ct) (ms @ [m])) st"
    using states.run_good [of env "[]" ct "CT_State st"] by (auto simp: state_replies_def good_state_def)
next
  assume "request_latest_consensus_seq_no env view th nd0 ct0 = Inr (ct, th', nd)"
  then have "cids_collected [] ct"
    by (auto simp: request_latest_consensus_seq_no_def cst_next_seq_def res_simps cids_collected_def cid_tallied_def)
  moreover assume "cst_run env view c lg (ms @ [m]) (ct, nd) =
    Inr (replicate (length ms) CT_Running @ [CT_SeqNo s], ct', nd')"
  ultimately show "length (cid_replies (ct_cst_seq ct) (ms @ [m])) = view_quorum view"
    "cid_agreed view (cid_replies (ct_cst_seq ct) (ms @ [m])) s"
    using cids.run_good [of "[]" ct "CT_SeqNo s" env] by (auto simp: cid_replies_def good_cid_def)
qed

lemma seq_next_neq: "seq_next s \<noteq> s"
proof (cases "seq_raw s = i32_max")
  case True
  then have "s = SeqNo i32_max" by (cases s) simp
  then show ?thesis unfolding seq_next_max [folded \<open>s = SeqNo i32_max\<close>] by (simp add: seq_zero_def i32_max_def)
next
  case False
  then show ?thesis using seq_next_lt [of s] by auto
qed

text \<open>
  C32. A recovering replica drops every correct reply. A request is broadcast under the
  request number before the increment; a peer that is not itself recovering and has a
  complete checkpoint answers with its snapshot, or with its instance number, under the
  number of the request; and the replica, which compares with the incremented number,
  answers \<open>Running\<close> to that reply and stays as it is, whoever sends it. Only the timer moves
  it, and then it repeats the request with twice the duration.
\<close>

theorem cst_replies_dropped:
  fixes env :: "('s, 'o, 'p, 'z) env_scheme" and ct ct1 :: "('s, 'o) cst"
  defines "s \<equiv> ct_cst_seq ct"
  assumes "request_latest_state env view th nd ct = Inr (ct1, th1, nd1) \<and>
        ask = RequestState \<and> answer = ReplyState snap \<and> again = CT_RequestState \<or>
      request_latest_consensus_seq_no env view th nd ct = Inr (ct1, th1, nd1) \<and>
        ask = RequestLatestConsensusSeq \<and> answer = ReplyLatestConsensusSeq (co_seq pc) \<and> again = CT_RequestLatestCid"
    and "ct_phase pct = Cst_Init" and "snapshot pview plg = Inr snap"
  shows "(\<exists>d. node_broadcast env (SM_Cst \<lparr>cst_m_seq = s, cst_m_kind = ask\<rparr>) (view_targets view) nd = Inr (d, nd1)) \<and>
    cst_process_message env (Progress_Message h \<lparr>cst_m_seq = s, cst_m_kind = ask\<rparr>) pview pc plg pnd pct =
      bind_res (node_send env (SM_Cst \<lparr>cst_m_seq = s, cst_m_kind = answer\<rparr>) (header_from h) pnd)
        (\<lambda>(_, pnd). Inr (CT_Nil, pct, pnd)) \<and>
    cst_process_message env (Progress_Message h' \<lparr>cst_m_seq = s, cst_m_kind = answer\<rparr>) view c lg nd1 ct1 =
      Inr (CT_Running, ct1, nd1) \<and>
    cst_timed_out s ct1 = (again, ct1\<lparr>ct_curr_timeout := ct_curr_timeout ct1 * 2\<rparr>)"
  using assms(2)
proof (elim disjE conjE, goal_cases)
  case 1
  then have "\<exists>d. node_broadcast env (SM_Cst \<lparr>cst_m_seq = s, cst_m_kind = ask\<rparr>) (view_targets view) nd = Inr (d, nd1)"
    and ct1: "ct_phase ct1 = Cst_ReceivingState 0" "ct_cst_seq ct1 = seq_next s"
    by (auto simp: request_latest_state_def cst_next_seq_def res_simps s_def)
  with 1 assms(3,4) seq_next_neq [of s] show ?case
    by (auto simp: cst_process_message_def cst_process_init_def cst_process_state_def process_reply_state_def
        cst_timed_out_def bind_res_def split: sum.splits)
next
  case 2
  then have "\<exists>d. node_broadcast env (SM_Cst \<lparr>cst_m_seq = s, cst_m_kind = ask\<rparr>) (view_targets view) nd = Inr (d, nd1)"
    and ct1: "ct_phase ct1 = Cst_ReceivingCid 0" "ct_cst_seq ct1 = seq_next s"
    by (auto simp: request_latest_consensus_seq_no_def cst_next_seq_def res_simps s_def)
  with 2 assms(3) seq_next_neq [of s] show ?case
    by (auto simp: cst_process_message_def cst_process_init_def cst_process_cid_def cst_timed_out_def)
qed

definition example_recovery :: "(nat, nat) recovery_state" where
  "example_recovery = \<lparr>rs_view = example_view (SeqNo 0), rs_checkpoint = \<lparr>cp_seq = SeqNo 0, cp_appstate = 3\<rparr>,
     rs_requests = [4, 5], rs_declog = decision_log_new\<rparr>"

definition example_recovering :: "(nat, nat) cst" where
  "example_recovering = (cst_new 30)\<lparr>ct_cst_seq := SeqNo 1, ct_phase := Cst_ReceivingState 0\<rparr>"

lemma example_request:
  "\<exists>th nd. request_latest_state (example_env :: (nat, nat, nat) env) (example_view (SeqNo 0)) timeouts_new
     example_node (cst_new 30) = Inr (example_recovering, th, nd)"
proof -
  let ?env = "example_env :: (nat, nat, nat) env" and ?view = "example_view (SeqNo 0)"
  show ?thesis
    using broadcast_ok [OF example_serializes example_connected, of
        "SM_Cst \<lparr>cst_m_seq = SeqNo 0, cst_m_kind = RequestState\<rparr> :: (nat, nat, nat) system_message" "SeqNo 0"]
    by (auto simp: request_latest_state_def cst_next_seq_def example_recovering_def cst_new_def seq_next_def
        i32_overflowing_add_def seq_zero_def)
qed

theorem cst_agreed_witness:
  "state_agreed (example_view (SeqNo 0)) (state_replies (SeqNo 1)
     (map (\<lambda>i. (example_header i, \<lparr>cst_m_seq = SeqNo 1, cst_m_kind = ReplyState example_recovery\<rparr>)) [1, 2, 3]))
     example_recovery"
proof -
  let ?env = "example_env :: (nat, nat, nat) env" and ?view = "example_view (SeqNo 0)"
  let ?m = "\<lambda>i. (example_header i, \<lparr>cst_m_seq = SeqNo 1, cst_m_kind = ReplyState example_recovery\<rparr>)"
  obtain th nd where req: "request_latest_state ?env ?view timeouts_new example_node (cst_new 30) =
      Inr (example_recovering, th, nd)"
    using example_request by blast
  have "\<exists>ct'. cst_run ?env ?view (consensus_new (SeqNo 0) 1) (log_new 1) ([?m 1, ?m 2] @ [?m 3]) (example_recovering, nd) =
      Inr ([CT_Running, CT_Running] @ [CT_State example_recovery], ct', nd)"
    by (simp add: cst_process_message_def cst_process_state_def example_recovering_def take_state_def
        example_view_def quorum_def usize_wrap_def count_state_def example_env_def hmap_iter_def hmap_keys_def
        header_digest_def example_header_def map_filter_simps cst_new_def Let_def)
  then show ?thesis
    using cst_agreed [of ?env ?view timeouts_new example_node "cst_new 30" example_recovering th nd
        "consensus_new (SeqNo 0) 1" "log_new 1" "[?m 1, ?m 2]" "?m 3" example_recovery] req
    by (auto simp: example_env_def example_recovering_def numeral_2_eq_2)
qed

theorem cst_replies_dropped_witness:
  "\<exists>ct1 th1 nd1.
     request_latest_state (example_env :: (nat, nat, nat) env) (example_view (SeqNo 0)) timeouts_new
       example_node (cst_new 30) = Inr (ct1, th1, nd1) \<and>
     cst_process_message (example_env :: (nat, nat, nat) env)
       (Progress_Message (example_header 1) \<lparr>cst_m_seq = SeqNo 0, cst_m_kind = ReplyState example_recovery\<rparr>)
       (example_view (SeqNo 0)) (consensus_new (SeqNo 0) 1) (log_new 1) nd1 ct1 = Inr (CT_Running, ct1, nd1)"
proof -
  let ?env = "example_env :: (nat, nat, nat) env" and ?view = "example_view (SeqNo 0)"
  let ?plg = "(log_new 1)\<lparr>lg_decided := [4, 5], lg_checkpoint := CP_Complete \<lparr>cp_seq = SeqNo 0, cp_appstate = 3\<rparr>\<rparr>"
  obtain th nd where req: "request_latest_state ?env ?view timeouts_new example_node (cst_new 30) =
      Inr (example_recovering, th, nd)"
    using example_request by blast
  have "snapshot ?view ?plg = Inr example_recovery"
    by (simp add: snapshot_def example_recovery_def log_new_def)
  moreover have "ct_phase (cst_new 30 :: (nat, nat) cst) = Cst_Init" "ct_cst_seq (cst_new 30 :: (nat, nat) cst) = SeqNo 0"
    by (simp_all add: cst_new_def seq_zero_def)
  ultimately show ?thesis
    using cst_replies_dropped [of ?env ?view timeouts_new example_node "cst_new 30" example_recovering th nd
        RequestState "ReplyState example_recovery" example_recovery CT_RequestState "consensus_new (SeqNo 0) 1"
        "cst_new 30" ?view ?plg "example_header 0" example_node "example_header 1" "consensus_new (SeqNo 0) 1" "log_new 1"]
      req
    by auto
qed

end
