(* ===== verification/Server.thy ===== *)
theory Server
  imports Cst Connection
begin

text \<open>
  A replica (\<open>src/bft/core/server/mod.rs\<close>): its bootstrap, its three phases and its main loop,
  composed of all the layers below. The loop is an \<open>async\<close> function that suspends where it
  receives from the network, so a running replica is its state together with the place where
  it is suspended, and a step of the model runs to the end of the iteration or to the next
  such place. The clock and the seed of a fresh generator are arguments of a step.
\<close>

section \<open>Data\<close>

datatype replica_phase = RetrievingState | SyncPhase | NormalPhase

record ('s, 'o, 'p) replica =
  rp_phase :: replica_phase
  rp_phase_stack :: "replica_phase option"
  rp_timeouts :: timeouts_handle
  rp_executor :: "('s, 'o) executor_handle"
  rp_synchronizer :: "'o synchronizer"
  rp_consensus :: consensus
  rp_cst :: "('s, 'o) cst"
  rp_log :: "('s, 'o) log"
  rp_node :: "('s, 'o, 'p) node"

record 'v replica_config =
  rc_service :: 'v
  rc_view :: seq_no
  rc_next_consensus_seq :: seq_no
  rc_batch_size :: usize
  rc_node :: node_config

abbreviation rp_view :: "('s, 'o, 'p) replica \<Rightarrow> view_info" where
  "rp_view r \<equiv> sync_view (rp_synchronizer r)"

definition invalid_state :: "'a res" where
  "invalid_state = Inl (Err (Wrapped ErrorKind_CoreServer ''Invalid state reached!''))"

section \<open>Events common to the phases\<close>

definition request_received ::
  "('s, 'o, 'p, 'z) env_scheme \<Rightarrow> instant \<Rightarrow> header \<Rightarrow> 'o request_message \<Rightarrow> ('s, 'o, 'p) replica
     \<Rightarrow> ('s, 'o, 'p) replica" where
  "request_received env now h request r =
     (case watch_request now (unique_digest env h) (rp_timeouts r) (rp_synchronizer r) of
        (sy, th) \<Rightarrow>
          r\<lparr>rp_synchronizer := sy, rp_timeouts := th,
            rp_log := log_insert env h (SM_Request request :: ('s, 'o, 'p) system_message) (rp_log r)\<rparr>)"

definition forwarded_requests_received ::
  "('s, 'o, 'p, 'z) env_scheme \<Rightarrow> instant \<Rightarrow> 'o stored_request list \<Rightarrow> ('s, 'o, 'p) replica
     \<Rightarrow> ('s, 'o, 'p) replica" where
  "forwarded_requests_received env now requests r =
     (case watch_forwarded_requests env now requests (rp_timeouts r) (rp_log r) (rp_synchronizer r) of
        (sy, th, lg) \<Rightarrow> r\<lparr>rp_synchronizer := sy, rp_timeouts := th, rp_log := lg\<rparr>)"

definition cst_message_received ::
  "('s, 'o, 'p, 'z) env_scheme \<Rightarrow> ('s, 'o) cst_progress \<Rightarrow> ('s, 'o, 'p) replica
     \<Rightarrow> (('s, 'o) cst_status \<times> ('s, 'o, 'p) replica) res" where
  "cst_message_received env progress r =
     bind_res (cst_process_message env progress (rp_view r) (rp_consensus r) (rp_log r) (rp_node r) (rp_cst r))
       (\<lambda>(status, ct, nd). Inr (status, r\<lparr>rp_cst := ct, rp_node := nd\<rparr>))"

definition view_change_received ::
  "('s, 'o, 'p, 'z) env_scheme \<Rightarrow> instant \<Rightarrow> seed \<Rightarrow> header \<Rightarrow> 'o view_change_message \<Rightarrow> ('s, 'o, 'p) replica
     \<Rightarrow> (sync_status \<times> ('s, 'o, 'p) replica) res" where
  "view_change_received env now seed h m r =
     bind_res (sync_process_message env now seed h m
         (rp_synchronizer r, rp_timeouts r, rp_log r, rp_consensus r, rp_node r))
       (\<lambda>(status, sy, th, lg, c, nd).
          Inr (status, r\<lparr>rp_synchronizer := sync_signal sy, rp_timeouts := th, rp_log := lg,
                         rp_consensus := c, rp_node := nd\<rparr>))"

fun execution_finished_loop ::
  "('s, 'o, 'p, 'z) env_scheme \<Rightarrow> 'p update_reply list \<Rightarrow> ('s, 'o, 'p) node \<Rightarrow> ('s, 'o, 'p) node res" where
  "execution_finished_loop env [] nd = Inr nd"
| "execution_finished_loop env (UpdateReply peer_id dig payload # batch) nd =
     bind_res (node_send env (SM_Reply (ReplyMessage dig payload)) peer_id nd)
       (\<lambda>(_, nd). execution_finished_loop env batch nd)"

definition execution_finished ::
  "('s, 'o, 'p, 'z) env_scheme \<Rightarrow> 'p update_reply list \<Rightarrow> ('s, 'o, 'p) replica \<Rightarrow> ('s, 'o, 'p) replica res" where
  "execution_finished env batch r =
     bind_res (execution_finished_loop env batch (rp_node r)) (\<lambda>nd. Inr (r\<lparr>rp_node := nd\<rparr>))"

definition execution_finished_with_appstate ::
  "('s, 'o, 'p, 'z) env_scheme \<Rightarrow> 'p update_reply list \<Rightarrow> 's \<Rightarrow> ('s, 'o, 'p) replica
     \<Rightarrow> ('s, 'o, 'p) replica res" where
  "execution_finished_with_appstate env batch appstate r =
     bind_res (finalize_checkpoint appstate (rp_log r)) (\<lambda>lg.
     bind_res (execution_finished env batch (r\<lparr>rp_log := lg\<rparr>)) (\<lambda>r.
     if needs_checkpoint (rp_cst r)
     then bind_res (cst_message_received env Progress_Nil r) (\<lambda>(_, r). Inr r)
     else Inr r))"

definition request_cid ::
  "('s, 'o, 'p, 'z) env_scheme \<Rightarrow> ('s, 'o, 'p) replica \<Rightarrow> ('s, 'o, 'p) replica res" where
  "request_cid env r =
     bind_res (request_latest_consensus_seq_no env (rp_view r) (rp_timeouts r) (rp_node r) (rp_cst r))
       (\<lambda>(ct, th, nd). Inr (r\<lparr>rp_cst := ct, rp_timeouts := th, rp_node := nd\<rparr>))"

definition request_state ::
  "('s, 'o, 'p, 'z) env_scheme \<Rightarrow> ('s, 'o, 'p) replica \<Rightarrow> ('s, 'o, 'p) replica res" where
  "request_state env r =
     bind_res (request_latest_state env (rp_view r) (rp_timeouts r) (rp_node r) (rp_cst r))
       (\<lambda>(ct, th, nd). Inr (r\<lparr>rp_cst := ct, rp_timeouts := th, rp_node := nd\<rparr>))"

definition cst_timeout_received ::
  "('s, 'o, 'p, 'z) env_scheme \<Rightarrow> seq_no \<Rightarrow> ('s, 'o, 'p) replica \<Rightarrow> ('s, 'o, 'p) replica res" where
  "cst_timeout_received env cst_seq r =
     (case cst_timed_out cst_seq (rp_cst r) of
        (status, ct) \<Rightarrow>
          (let r = r\<lparr>rp_cst := ct\<rparr> in
           case status of
             CT_RequestLatestCid \<Rightarrow> bind_res (request_cid env r) (\<lambda>r. Inr (r\<lparr>rp_phase := RetrievingState\<rparr>))
           | CT_RequestState \<Rightarrow> bind_res (request_state env r) (\<lambda>r. Inr (r\<lparr>rp_phase := RetrievingState\<rparr>))
           | _ \<Rightarrow> Inr r))"

definition requests_timeout_received ::
  "('s, 'o, 'p, 'z) env_scheme \<Rightarrow> instant \<Rightarrow> seq_no \<Rightarrow> ('s, 'o, 'p) replica \<Rightarrow> ('s, 'o, 'p) replica res" where
  "requests_timeout_received env now timeout_seq r =
     (case client_requests_timed_out env now timeout_seq (rp_timeouts r) (rp_synchronizer r) of
        (status, sy, th) \<Rightarrow>
          (let r = r\<lparr>rp_synchronizer := sy, rp_timeouts := th\<rparr> in
           case status of
             SS_RequestsTimedOut forwarded stopped \<Rightarrow>
               bind_res (if length forwarded > 0
                         then forward_requests env (clone_requests env (rp_log r) forwarded) (rp_node r) (rp_synchronizer r)
                         else Inr (rp_node r)) (\<lambda>nd.
               let r = r\<lparr>rp_node := nd\<rparr> in
               if length stopped > 0
               then bind_res (begin_view_change env (Some (clone_requests env (rp_log r) stopped)) (rp_node r)
                        (rp_synchronizer r))
                      (\<lambda>(sy, nd). Inr (r\<lparr>rp_synchronizer := sy, rp_node := nd, rp_phase := SyncPhase\<rparr>))
               else Inr r)
           | _ \<Rightarrow> Inr r))"

definition timeout_received ::
  "('s, 'o, 'p, 'z) env_scheme \<Rightarrow> instant \<Rightarrow> timeout_kind \<Rightarrow> ('s, 'o, 'p) replica \<Rightarrow> ('s, 'o, 'p) replica res" where
  "timeout_received env now kind r =
     (case kind of
        Timeout_Cst cst_seq \<Rightarrow> cst_timeout_received env cst_seq r
      | Timeout_ClientRequests timeout_seq \<Rightarrow> requests_timeout_received env now timeout_seq r)"

definition connected_rx_received ::
  "node_id \<Rightarrow> socket \<Rightarrow> ('s, 'o, 'p) replica \<Rightarrow> ('s, 'o, 'p) replica res" where
  "connected_rx_received i sock r =
     bind_res (handle_connected_rx i sock (rp_node r)) (\<lambda>nd. Inr (r\<lparr>rp_node := nd\<rparr>))"

definition connected_tx_received :: "node_id \<Rightarrow> socket \<Rightarrow> ('s, 'o, 'p) replica \<Rightarrow> ('s, 'o, 'p) replica" where
  "connected_tx_received i sock r = r\<lparr>rp_node := handle_connected_tx i sock (rp_node r)\<rparr>"

definition show_node_id :: "node_id \<Rightarrow> string" where
  "show_node_id i = ''NodeId('' @ show_u32 (node_raw i) @ '')''"

fun show_peer :: "node_id option \<Rightarrow> string" where
  "show_peer None = ''None''"
| "show_peer (Some i) = ''Some('' @ show_node_id i @ '')''"

section \<open>Retrieving state\<close>

definition retrieving_cst ::
  "('s, 'o, 'p, 'z) env_scheme \<Rightarrow> ('s, 'o) cst_status \<Rightarrow> ('s, 'o, 'p) replica \<Rightarrow> ('s, 'o, 'p) replica res" where
  "retrieving_cst env status r =
     (case status of
        CT_Running \<Rightarrow> Inr r
      | CT_State st \<Rightarrow>
          bind_res (install_recovery_state st (rp_synchronizer r) (rp_log r) (rp_executor r) (rp_consensus r))
            (\<lambda>(sy, lg, eh, c).
               Inr (r\<lparr>rp_synchronizer := sy, rp_log := lg, rp_executor := eh, rp_consensus := c,
                      rp_phase := (case rp_phase_stack r of Some phase \<Rightarrow> phase | None \<Rightarrow> NormalPhase),
                      rp_phase_stack := None\<rparr>))
      | CT_SeqNo s \<Rightarrow>
          (if seq_lt (co_seq (rp_consensus r)) s
           then bind_res (install_sequence_number s (rp_consensus r)) (\<lambda>c. request_state env (r\<lparr>rp_consensus := c\<rparr>))
           else Inr (r\<lparr>rp_phase := NormalPhase\<rparr>))
      | CT_RequestLatestCid \<Rightarrow> request_cid env r
      | CT_RequestState \<Rightarrow> request_state env r
      | CT_Nil \<Rightarrow> invalid_state)"

definition update_retrieving_state ::
  "('s, 'o, 'p, 'z) env_scheme \<Rightarrow> instant \<Rightarrow> ('s, 'o, 'p) message \<Rightarrow> ('s, 'o, 'p) replica
     \<Rightarrow> ('s, 'o, 'p) replica res" where
  "update_retrieving_state env now message r =
     (case message of
        System h m \<Rightarrow>
          (case m of
             SM_ForwardedRequests requests \<Rightarrow> Inr (forwarded_requests_received env now requests r)
           | SM_Request request \<Rightarrow> Inr (request_received env now h request r)
           | SM_Consensus m \<Rightarrow> Inr (r\<lparr>rp_consensus := consensus_queue h m (rp_consensus r)\<rparr>)
           | SM_ViewChange m \<Rightarrow> Inr (r\<lparr>rp_synchronizer := sync_queue_message h m (rp_synchronizer r)\<rparr>)
           | SM_Cst m \<Rightarrow>
               bind_res (cst_message_received env (Progress_Message h m) r) (\<lambda>(status, r). retrieving_cst env status r)
           | SM_Reply _ \<Rightarrow> Inl (Panic ''Rogue reply message detected''))
      | Timeout kind \<Rightarrow> timeout_received env now kind r
      | ExecutionFinished batch \<Rightarrow> execution_finished env batch r
      | ExecutionFinishedWithAppstate batch _ \<Rightarrow> execution_finished env batch r
      | ConnectedTx i sock \<Rightarrow> Inr (connected_tx_received i sock r)
      | ConnectedRx i sock \<Rightarrow> connected_rx_received i sock r
      | DisconnectedTx i \<Rightarrow> Inl (Panic (show_node_id i @ '' disconnected''))
      | DisconnectedRx some_id \<Rightarrow> Inl (Panic (show_peer some_id @ '' disconnected'')))"

section \<open>The synchronisation phase\<close>

text \<open>Where the message of an iteration comes from, or that the iteration has returned.\<close>

datatype ('s, 'o, 'p) next_message =
    Recv
  | Got "('s, 'o, 'p) message"
  | Returned bool

definition sync_next_message ::
  "('s, 'o, 'p, 'z) env_scheme \<Rightarrow> seed \<Rightarrow> ('s, 'o, 'p) replica
     \<Rightarrow> (('s, 'o, 'p) next_message \<times> ('s, 'o, 'p) replica) res" where
  "sync_next_message env seed r =
     (case sync_poll (rp_synchronizer r) of
        (SPS_Recv, sy) \<Rightarrow> Inr (Recv, r\<lparr>rp_synchronizer := sy\<rparr>)
      | (SPS_NextMessage h m, sy) \<Rightarrow> Inr (Got (System h (SM_ViewChange m)), r\<lparr>rp_synchronizer := sy\<rparr>)
      | (SPS_ResumeViewChange, sy) \<Rightarrow>
          bind_res (resume_view_change env seed (rp_log r) (rp_consensus r) (rp_node r) sy)
            (\<lambda>(_, sy, lg, c, nd).
               Inr (Returned False, r\<lparr>rp_synchronizer := sy, rp_log := lg, rp_consensus := c, rp_node := nd,
                                      rp_phase := NormalPhase\<rparr>)))"

definition sync_phase_cst :: "('s, 'o) cst_status \<Rightarrow> 'a \<Rightarrow> 'a res" where
  "sync_phase_cst status r = (case status of CT_Nil \<Rightarrow> Inr r | _ \<Rightarrow> invalid_state)"

definition sync_handle_view_change ::
  "sync_status \<Rightarrow> ('s, 'o, 'p) replica \<Rightarrow> (bool \<times> ('s, 'o, 'p) replica) res" where
  "sync_handle_view_change status r =
     (case status of
        SS_Nil \<Rightarrow> Inr (False, r)
      | SS_Running \<Rightarrow> Inr (True, r)
      | SS_NewView \<Rightarrow> Inr (False, r\<lparr>rp_phase := NormalPhase\<rparr>)
      | SS_RunCst \<Rightarrow> Inr (True, r\<lparr>rp_phase := RetrievingState, rp_phase_stack := Some SyncPhase\<rparr>)
      | _ \<Rightarrow> invalid_state)"

definition running :: "'r res \<Rightarrow> (bool \<times> 'r) res" where
  "running r = bind_res r (\<lambda>r. Inr (True, r))"

definition update_sync_phase ::
  "('s, 'o, 'p, 'z) env_scheme \<Rightarrow> instant \<Rightarrow> seed \<Rightarrow> ('s, 'o, 'p) message \<Rightarrow> ('s, 'o, 'p) replica
     \<Rightarrow> (bool \<times> ('s, 'o, 'p) replica) res" where
  "update_sync_phase env now seed message r =
     (case message of
        System h m \<Rightarrow>
          (case m of
             SM_Consensus m \<Rightarrow> Inr (True, r\<lparr>rp_consensus := consensus_queue h m (rp_consensus r)\<rparr>)
           | SM_ForwardedRequests requests \<Rightarrow> Inr (True, forwarded_requests_received env now requests r)
           | SM_Request request \<Rightarrow> Inr (True, request_received env now h request r)
           | SM_Cst m \<Rightarrow>
               running (bind_res (cst_message_received env (Progress_Message h m) r)
                 (\<lambda>(status, r). sync_phase_cst status r))
           | SM_ViewChange m \<Rightarrow>
               bind_res (view_change_received env now seed h m r) (\<lambda>(status, r). sync_handle_view_change status r)
           | SM_Reply _ \<Rightarrow> Inl (Panic ''Rogue reply message detected''))
      | Timeout kind \<Rightarrow> running (timeout_received env now kind r)
      | ExecutionFinished batch \<Rightarrow> running (execution_finished env batch r)
      | ExecutionFinishedWithAppstate batch appstate \<Rightarrow>
          running (execution_finished_with_appstate env batch appstate r)
      | ConnectedTx i sock \<Rightarrow> Inr (True, connected_tx_received i sock r)
      | ConnectedRx i sock \<Rightarrow> running (connected_rx_received i sock r)
      | DisconnectedTx i \<Rightarrow> Inl (Panic (show_node_id i @ '' disconnected''))
      | DisconnectedRx some_id \<Rightarrow> Inl (Panic (show_peer some_id @ '' disconnected'')))"

section \<open>The normal phase\<close>

definition normal_next_message ::
  "('s, 'o, 'p, 'z) env_scheme \<Rightarrow> ('s, 'o, 'p) replica \<Rightarrow> (('s, 'o, 'p) next_message \<times> ('s, 'o, 'p) replica) res" where
  "normal_next_message env r =
     (case consensus_poll env (rp_log r) (rp_consensus r) of
        (CPS_Recv, c) \<Rightarrow> Inr (Recv, r\<lparr>rp_consensus := c\<rparr>)
      | (CPS_NextMessage h m, c) \<Rightarrow> Inr (Got (System h (SM_Consensus m)), r\<lparr>rp_consensus := c\<rparr>)
      | (CPS_TryProposeAndRecv, c) \<Rightarrow>
          (case next_batch env (rp_log r) of
             (Some digests, lg) \<Rightarrow>
               bind_res (propose env digests (rp_view r) (rp_node r) c) (\<lambda>(c, nd).
               Inr (Recv, r\<lparr>rp_consensus := c, rp_log := lg, rp_node := nd\<rparr>))
           | (None, lg) \<Rightarrow> Inr (Recv, r\<lparr>rp_consensus := c, rp_log := lg\<rparr>)))"

definition execute_decided ::
  "('s, 'o, 'p, 'z) env_scheme \<Rightarrow> seq_no \<Rightarrow> digest list \<Rightarrow> ('s, 'o, 'p) replica \<Rightarrow> ('s, 'o, 'p) replica res" where
  "execute_decided env s digests r =
     (let r = r\<lparr>rp_synchronizer := fold unwatch_request digests (rp_synchronizer r)\<rparr> in
      bind_res (finalize_batch env s digests (rp_log r)) (\<lambda>((report, batch), lg).
      bind_res (case report of
                  Info_Nil \<Rightarrow> queue_update batch (rp_executor r)
                | Info_BeginCheckpoint \<Rightarrow> queue_update_and_get_appstate batch (rp_executor r)) (\<lambda>eh.
      Inr (r\<lparr>rp_log := lg, rp_executor := eh, rp_consensus := next_instance (rp_consensus r)\<rparr>))))"

definition normal_consensus ::
  "('s, 'o, 'p, 'z) env_scheme \<Rightarrow> header \<Rightarrow> consensus_message \<Rightarrow> ('s, 'o, 'p) replica \<Rightarrow> ('s, 'o, 'p) replica res" where
  "normal_consensus env h m r =
     (let s = co_seq (rp_consensus r) in
      bind_res (consensus_process_message env h m (rp_view r) (rp_log r) (rp_node r) (rp_consensus r))
        (\<lambda>(status, c, lg, nd).
      let r = r\<lparr>rp_consensus := c, rp_log := lg, rp_node := nd\<rparr> in
      bind_res (case status of
                  CS_Deciding \<Rightarrow> Inr r
                | CS_VotedTwice _ \<Rightarrow> Inl (Panic ''not yet implemented'')
                | CS_Decided digests \<Rightarrow> execute_decided env s digests r) (\<lambda>r.
      Inr (r\<lparr>rp_consensus := consensus_signal (rp_consensus r)\<rparr>))))"

definition normal_view_change :: "sync_status \<Rightarrow> ('s, 'o, 'p) replica \<Rightarrow> ('s, 'o, 'p) replica res" where
  "normal_view_change status r =
     (case status of
        SS_Nil \<Rightarrow> Inr r
      | SS_Running \<Rightarrow> Inr (r\<lparr>rp_phase := SyncPhase\<rparr>)
      | _ \<Rightarrow> invalid_state)"

definition update_normal_phase ::
  "('s, 'o, 'p, 'z) env_scheme \<Rightarrow> instant \<Rightarrow> seed \<Rightarrow> ('s, 'o, 'p) message \<Rightarrow> ('s, 'o, 'p) replica
     \<Rightarrow> ('s, 'o, 'p) replica res" where
  "update_normal_phase env now seed message r =
     (case message of
        System h m \<Rightarrow>
          (case m of
             SM_ForwardedRequests requests \<Rightarrow> Inr (forwarded_requests_received env now requests r)
           | SM_Request request \<Rightarrow> Inr (request_received env now h request r)
           | SM_Cst m \<Rightarrow>
               bind_res (cst_message_received env (Progress_Message h m) r) (\<lambda>(status, r). sync_phase_cst status r)
           | SM_ViewChange m \<Rightarrow>
               bind_res (view_change_received env now seed h m r) (\<lambda>(status, r). normal_view_change status r)
           | SM_Consensus m \<Rightarrow> normal_consensus env h m r
           | SM_Reply _ \<Rightarrow> Inl (Panic ''Rogue reply message detected''))
      | Timeout kind \<Rightarrow> timeout_received env now kind r
      | ExecutionFinished batch \<Rightarrow> execution_finished env batch r
      | ExecutionFinishedWithAppstate batch appstate \<Rightarrow> execution_finished_with_appstate env batch appstate r
      | ConnectedTx i sock \<Rightarrow> Inr (connected_tx_received i sock r)
      | ConnectedRx i sock \<Rightarrow> connected_rx_received i sock r
      | DisconnectedTx i \<Rightarrow> Inl (Panic (show_node_id i @ '' disconnected''))
      | DisconnectedRx some_id \<Rightarrow> Inl (Panic (show_peer some_id @ '' disconnected'')))"

section \<open>The main loop\<close>

text \<open>
  Where the loop is suspended: in one of the three phases, or in the synchronisation step
  that the normal phase runs first when \<open>STOP\<close> messages are queued.
\<close>

datatype await = At_Retrieving | At_Sync | At_Stops | At_Normal

type_synonym ('s, 'o, 'p) task = "await option \<times> ('s, 'o, 'p) replica"

definition iteration_done :: "('s, 'o, 'p) replica res \<Rightarrow> ('s, 'o, 'p) task res" where
  "iteration_done r = bind_res r (\<lambda>r. Inr (None, r))"

definition begin_normal ::
  "('s, 'o, 'p, 'z) env_scheme \<Rightarrow> instant \<Rightarrow> seed \<Rightarrow> ('s, 'o, 'p) replica \<Rightarrow> ('s, 'o, 'p) task res" where
  "begin_normal env now seed r =
     bind_res (normal_next_message env r) (\<lambda>(next, r).
     case next of
       Recv \<Rightarrow> Inr (Some At_Normal, r)
     | Got m \<Rightarrow> iteration_done (update_normal_phase env now seed m r)
     | Returned _ \<Rightarrow> Inr (None, r))"

definition after_stops ::
  "('s, 'o, 'p, 'z) env_scheme \<Rightarrow> instant \<Rightarrow> seed \<Rightarrow> bool \<Rightarrow> ('s, 'o, 'p) replica \<Rightarrow> ('s, 'o, 'p) task res" where
  "after_stops env now seed is_running r =
     (if is_running then Inr (None, r\<lparr>rp_phase := SyncPhase\<rparr>) else begin_normal env now seed r)"

definition run_phase ::
  "('s, 'o, 'p, 'z) env_scheme \<Rightarrow> instant \<Rightarrow> seed \<Rightarrow> ('s, 'o, 'p) replica \<Rightarrow> ('s, 'o, 'p) task res" where
  "run_phase env now seed r =
     (case rp_phase r of
        RetrievingState \<Rightarrow> Inr (Some At_Retrieving, r)
      | NormalPhase \<Rightarrow>
          (if can_process_stops (sy_tbo (rp_synchronizer r))
           then bind_res (sync_next_message env seed r) (\<lambda>(next, r).
                case next of
                  Recv \<Rightarrow> Inr (Some At_Stops, r)
                | Got m \<Rightarrow> bind_res (update_sync_phase env now seed m r) (\<lambda>(b, r). after_stops env now seed b r)
                | Returned b \<Rightarrow> after_stops env now seed b r)
           else begin_normal env now seed r)
      | SyncPhase \<Rightarrow>
          bind_res (sync_next_message env seed r) (\<lambda>(next, r).
          case next of
            Recv \<Rightarrow> Inr (Some At_Sync, r)
          | Got m \<Rightarrow> bind_res (update_sync_phase env now seed m r) (\<lambda>(_, r). Inr (None, r))
          | Returned _ \<Rightarrow> Inr (None, r)))"

definition resume_phase ::
  "('s, 'o, 'p, 'z) env_scheme \<Rightarrow> instant \<Rightarrow> seed \<Rightarrow> await \<Rightarrow> ('s, 'o, 'p) message \<Rightarrow> ('s, 'o, 'p) replica
     \<Rightarrow> ('s, 'o, 'p) task res" where
  "resume_phase env now seed at m r =
     (case at of
        At_Retrieving \<Rightarrow> iteration_done (update_retrieving_state env now m r)
      | At_Sync \<Rightarrow> bind_res (update_sync_phase env now seed m r) (\<lambda>(_, r). Inr (None, r))
      | At_Stops \<Rightarrow> bind_res (update_sync_phase env now seed m r) (\<lambda>(b, r). after_stops env now seed b r)
      | At_Normal \<Rightarrow> iteration_done (update_normal_phase env now seed m r))"

text \<open>A step of the loop; \<open>None\<close> when it waits for a message and there is none.\<close>

fun replica_step ::
  "('s, 'o, 'p, 'z) env_scheme \<Rightarrow> instant \<Rightarrow> seed \<Rightarrow> ('s, 'o, 'p) task \<Rightarrow> ('s, 'o, 'p) task res option" where
  "replica_step env now seed (None, r) = Some (run_phase env now seed r)"
| "replica_step env now seed (Some at, r) =
     map_option (\<lambda>(m, nd). resume_phase env now seed at m (r\<lparr>rp_node := nd\<rparr>)) (node_receive (rp_node r))"

section \<open>Bootstrap\<close>

fun rogue_loop ::
  "('s, 'o, 'p, 'z) env_scheme \<Rightarrow> instant \<Rightarrow> ('s, 'o, 'p) message list \<Rightarrow> ('s, 'o, 'p) replica
     \<Rightarrow> ('s, 'o, 'p) replica res" where
  "rogue_loop env now [] r = Inr r"
| "rogue_loop env now (message # rogue) r =
     bind_res
       (case message of
          System h m \<Rightarrow>
            (case m of
               SM_Request request \<Rightarrow> Inr (request_received env now h request r)
             | SM_Consensus m \<Rightarrow> Inr (r\<lparr>rp_consensus := consensus_queue h m (rp_consensus r)\<rparr>)
             | SM_Reply _ \<Rightarrow> Inl (Panic ''Rogue reply message detected'')
             | SM_Cst _ \<Rightarrow> Inl (Panic ''Rogue cst message detected'')
             | SM_ViewChange _ \<Rightarrow> Inl (Panic ''Rogue view change message detected'')
             | SM_ForwardedRequests _ \<Rightarrow> Inl (Panic ''Rogue forwarded requests message detected''))
        | _ \<Rightarrow> Inr r)
       (rogue_loop env now rogue)"

definition replica_new ::
  "view_info \<Rightarrow> seq_no \<Rightarrow> usize \<Rightarrow> ('s, 'o) executor_handle \<Rightarrow> ('s, 'o, 'p) node \<Rightarrow> ('s, 'o, 'p) replica" where
  "replica_new view next_consensus_seq batch_size eh nd =
     \<lparr>rp_phase = NormalPhase, rp_phase_stack = None, rp_timeouts = timeouts_new, rp_executor = eh,
      rp_synchronizer = synchronizer_new (from_secs (2 * 60)) view,
      rp_consensus = consensus_new next_consensus_seq batch_size, rp_cst = cst_new (from_secs 30),
      rp_log = log_new batch_size, rp_node = nd\<rparr>"

text \<open>
  \<open>bound\<close>, \<open>seed\<close> and \<open>rx\<close> are what the node's bootstrap takes: the result of binding the
  listening socket, the seed of its generator and the messages on its channel. The executor
  is returned too; it runs on its own thread. \<open>Inr None\<close>: the node still waits for peers.
\<close>

definition replica_bootstrap ::
  "('s, 'o, 'p, 'z) env_scheme \<Rightarrow> ('v, 's, 'o, 'p) service \<Rightarrow> 'v replica_config \<Rightarrow> unit res \<Rightarrow> seed \<Rightarrow> instant
     \<Rightarrow> ('s, 'o, 'p) message list \<Rightarrow> (('v, 's, 'o, 'p) executor \<times> ('s, 'o, 'p) replica) option res" where
  "replica_bootstrap env sv cfg bound seed now rx =
     bind_res (view_new (rc_view cfg) (nc_n (rc_node cfg)) (nc_f (rc_node cfg))) (\<lambda>view.
     bind_res (node_bootstrap (rc_node cfg) bound seed rx) (\<lambda>booted.
     case booted of
       None \<Rightarrow> Inr None
     | Some (nd, rogue) \<Rightarrow>
         bind_res (executor_new sv (rc_service cfg)) (\<lambda>(ex, eh).
         bind_res (rogue_loop env now rogue
             (replica_new view (rc_next_consensus_seq cfg) (rc_batch_size cfg) eh nd))
           (\<lambda>r. Inr (Some (ex, r))))))"

end
