(* ===== verification/Replica.thy ===== *)
theory Replica
  imports Server Certificates
begin

text \<open>
  Properties of a running replica (\<open>src/bft/core/server/mod.rs\<close>): that it always gets back to
  the network, what it does with a decided batch, and what stops it.
\<close>

section \<open>Draining the queues\<close>

text \<open>The number of consensus messages in the queues, and that none of them has a negative number.\<close>

definition queued :: "tbo_queue \<Rightarrow> nat" where
  "queued q = sum_list (map length (tq_pre_prepares q)) + sum_list (map length (tq_prepares q)) +
     sum_list (map length (tq_commits q))"

abbreviation seq_nonneg :: "seq_no \<Rightarrow> bool" where
  "seq_nonneg s \<equiv> 0 \<le> sint (seq_raw s)"

definition nonneg_queue :: "tbo_queue \<Rightarrow> bool" where
  "nonneg_queue q \<longleftrightarrow> seq_nonneg (tq_curr_seq q) \<and>
     tbo_all (\<lambda>m. seq_nonneg (stored_seq m)) (tq_pre_prepares q) \<and>
     tbo_all (\<lambda>m. seq_nonneg (stored_seq m)) (tq_prepares q) \<and>
     tbo_all (\<lambda>m. seq_nonneg (stored_seq m)) (tq_commits q)"

definition exact_queue :: "tbo_queue \<Rightarrow> bool" where
  "exact_queue q \<longleftrightarrow> queue_inv q \<and> nonneg_queue q"

lemma seq_index_exact:
  assumes "seq_index a b = Inr 0" and "seq_nonneg a" and "seq_nonneg b"
  shows "a = b"
proof -
  have "(sint (seq_raw a) - sint (seq_raw b)) mod 2 ^ 31 = 0" using assms(1) by (simp add: seq_index_Inr)
  moreover have "sint (seq_raw a) < 2 ^ 31" "sint (seq_raw b) < 2 ^ 31" by (rule sint_i32_range)+
  ultimately have "sint (seq_raw a) = sint (seq_raw b)"
    using assms(2,3) by (smt (verit) mod_pos_pos_trivial zmod_eq_0_iff mod_eq_dvd_iff)
  then have "seq_raw a = seq_raw b" by (rule signed_word_eqI)
  then show ?thesis by (rule seq_no.expand)
qed

lemma pop_queued:
  "tbo_pop_message q = (Some m, q') \<Longrightarrow> Suc (sum_list (map length q')) = sum_list (map length q)"
  by (cases q) (auto split: list.splits)

lemma pop_none: "tbo_pop_message q = (None, q') \<Longrightarrow> q' = q"
  by (cases q) (auto split: list.splits)

lemma advance_queued: "sum_list (map length (tbo_advance_message_queue q)) \<le> sum_list (map length q)"
  by (cases q) auto

fun kind_fits :: "proto_phase \<Rightarrow> consensus_message_kind \<Rightarrow> bool" where
  "kind_fits Phase_PrePreparing k = is_pre_prepare k"
| "kind_fits (Phase_Preparing _) k = is_prepare k"
| "kind_fits (Phase_Committing _) k = is_commit k"
| "kind_fits _ k = False"

lemma nonneg_extract:
  assumes "nonneg_queue (co_tbo c)" and "\<And>c. co_tbo (opt c) = co_tbo c"
  shows "nonneg_queue (co_tbo (snd (extract_pre_prepare opt rsp c)))"
    "nonneg_queue (co_tbo (snd (extract_prepare opt rsp c)))"
    "nonneg_queue (co_tbo (snd (extract_commit opt rsp c)))"
  using assms
  by (auto simp: nonneg_queue_def extract_pre_prepare_def extract_prepare_def extract_commit_def
      split: prod.splits option.splits elim: tbo_popped_keeps)

lemma nonneg_poll: "nonneg_queue (co_tbo c) \<Longrightarrow> nonneg_queue (co_tbo (snd (consensus_poll env lg c)))"
  by (cases "co_phase c") (simp_all add: consensus_poll_def Let_def nonneg_extract)

lemma poll_queued:
  assumes "consensus_poll env lg c = (CPS_NextMessage h m, c')"
  shows "Suc (queued (co_tbo c')) = queued (co_tbo c)"
  using assms
  by (cases "co_phase c")
    (auto simp: consensus_poll_def Let_def extract_pre_prepare_def extract_prepare_def extract_commit_def
      queued_def split: if_splits prod.splits option.splits dest!: pop_queued)

lemma poll_wait_queued:
  assumes "consensus_poll env lg c = (st, c')"
  shows "queued (co_tbo c') \<le> queued (co_tbo c)"
  using assms
  by (cases "co_phase c")
    (auto simp: consensus_poll_def Let_def extract_pre_prepare_def extract_prepare_def extract_commit_def
      queued_def split: if_splits prod.splits option.splits dest: pop_queued pop_none)

lemma poll_fits:
  assumes "queue_inv (co_tbo c)" and "consensus_poll env lg c = (CPS_NextMessage h m, c')"
  shows "kind_fits (co_phase c') (cm_kind m)"
  using assms
  by (cases "co_phase c")
    (auto simp: consensus_poll_def Let_def extract_pre_prepare_def extract_prepare_def extract_commit_def
      queue_inv_def split: if_splits prod.splits option.splits dest: tbo_all_popped)

lemma poll_nonneg:
  assumes "nonneg_queue (co_tbo c)" and "consensus_poll env lg c = (CPS_NextMessage h m, c')"
  shows "seq_nonneg (cm_seq m)"
  using assms
  by (cases "co_phase c")
    (auto simp: consensus_poll_def Let_def extract_pre_prepare_def extract_prepare_def extract_commit_def
      nonneg_queue_def split: if_splits prod.splits option.splits dest: tbo_all_popped)

text \<open>A polled message is of the current instance and of the kind the phase waits for.\<close>

lemma poll_exact:
  assumes "exact_queue (co_tbo c)" and "consensus_poll env lg c = (CPS_NextMessage h m, c')"
  shows "exact_queue (co_tbo c') \<and> cm_seq m = co_seq c' \<and> kind_fits (co_phase c') (cm_kind m)"
proof -
  have inv: "queue_inv (co_tbo c)" "nonneg_queue (co_tbo c)" using assms(1) by (simp_all add: exact_queue_def)
  have "cm_seq m = co_seq c"
    using seq_index_exact [OF consensus_poll_current [OF inv(1) assms(2)] poll_nonneg [OF inv(2) assms(2)]] inv(2)
    by (simp add: nonneg_queue_def)
  then show ?thesis
    using consensus_poll_inv [OF inv(1), of env lg] nonneg_poll [OF inv(2), of env lg] poll_fits [OF inv(1) assms(2)]
      consensus_poll_frame(1) [OF assms(2)] assms(2)
    by (simp add: exact_queue_def)
qed

text \<open>Such a message is not queued again.\<close>

lemma process_fits:
  assumes "kind_fits (co_phase c) (cm_kind m)" and "cm_seq m = co_seq c"
    and "consensus_process_message env h m view lg nd c = Inr (st, c', lg', nd')"
  shows "co_tbo c' = co_tbo c"
proof (cases "co_phase c")
  case Phase_PrePreparing
  with assms show ?thesis
    by (cases "cm_kind m") (auto simp: consensus_process_message_def process_pre_preparing_def Let_def res_simps
        copy_current_def split: if_splits)
next
  case (Phase_Preparing i)
  with assms show ?thesis
    by (cases "cm_kind m") (auto simp: consensus_process_message_def process_preparing_def Let_def res_simps
        split: if_splits)
next
  case (Phase_Committing i)
  with assms show ?thesis
    by (cases "cm_kind m") (auto simp: consensus_process_message_def process_committing_def Let_def res_simps
        split: if_splits)
qed (use assms in auto)

lemma next_instance_exact: "exact_queue q \<Longrightarrow> exact_queue (next_instance_queue q)"
  by (simp add: exact_queue_def queue_inv_next_instance)
    (simp add: nonneg_queue_def next_instance_queue_def tbo_all_advance seq_next_nonneg)

lemma next_instance_queued: "queued (next_instance_queue q) \<le> queued q"
  using advance_queued [of "tq_pre_prepares q"] advance_queued [of "tq_prepares q"] advance_queued [of "tq_commits q"]
  by (simp add: queued_def next_instance_queue_def)

lemma signal_exact [simp]:
  "exact_queue (tbo_signal q) = exact_queue q" "queued (tbo_signal q) = queued q"
  by (simp_all add: exact_queue_def queue_inv_signal nonneg_queue_def tbo_signal_def queued_def
      queue_inv_signal [unfolded tbo_signal_def])

lemma fold_unwatch_tbo [simp]: "sy_tbo (fold unwatch_request ds sy) = sy_tbo sy"
  by (induction ds arbitrary: sy) (simp_all add: unwatch_request_def Let_def)

lemma normal_consensus_exact:
  assumes "exact_queue (co_tbo (rp_consensus r))" and "kind_fits (co_phase (rp_consensus r)) (cm_kind m)"
    and "cm_seq m = co_seq (rp_consensus r)" and "normal_consensus env h m r = Inr r'"
  shows "exact_queue (co_tbo (rp_consensus r')) \<and> queued (co_tbo (rp_consensus r')) \<le> queued (co_tbo (rp_consensus r)) \<and>
    rp_phase r' = rp_phase r \<and> sy_tbo (rp_synchronizer r') = sy_tbo (rp_synchronizer r)"
proof -
  obtain st c lg nd r1 where
    p: "consensus_process_message env h m (rp_view r) (rp_log r) (rp_node r) (rp_consensus r) = Inr (st, c, lg, nd)"
    and r1: "(case st of CS_Deciding \<Rightarrow> Inr (r\<lparr>rp_consensus := c, rp_log := lg, rp_node := nd\<rparr>)
        | CS_VotedTwice _ \<Rightarrow> Inl (Panic ''not yet implemented'')
        | CS_Decided digests \<Rightarrow> execute_decided env (co_seq (rp_consensus r)) digests
            (r\<lparr>rp_consensus := c, rp_log := lg, rp_node := nd\<rparr>)) = Inr r1"
    and r': "r' = r1\<lparr>rp_consensus := consensus_signal (rp_consensus r1)\<rparr>"
    using assms(4) by (auto simp: normal_consensus_def Let_def res_simps)
  have tbo: "co_tbo c = co_tbo (rp_consensus r)" by (rule process_fits [OF assms(2,3) p])
  have "rp_phase r1 = rp_phase r \<and> sy_tbo (rp_synchronizer r1) = sy_tbo (rp_synchronizer r) \<and>
      (co_tbo (rp_consensus r1) = co_tbo c \<or> co_tbo (rp_consensus r1) = next_instance_queue (co_tbo c))"
    using r1 by (cases st) (auto simp: execute_decided_def Let_def res_simps next_instance_def)
  then show ?thesis
    using assms(1) next_instance_exact [of "co_tbo (rp_consensus r)"] next_instance_queued [of "co_tbo (rp_consensus r)"]
    by (auto simp: r' tbo consensus_signal_def)
qed

text \<open>An iteration of the normal phase that does not suspend takes a message from the queues.\<close>

lemma begin_normal_cases:
  assumes "exact_queue (co_tbo (rp_consensus r))"
  shows "(\<exists>e. begin_normal env now seed r = Inl e) \<or>
    (\<exists>r'. begin_normal env now seed r = Inr (Some At_Normal, r') \<and> rp_phase r' = rp_phase r \<and>
       queued (co_tbo (rp_consensus r')) \<le> queued (co_tbo (rp_consensus r))) \<or>
    (\<exists>r'. begin_normal env now seed r = Inr (None, r') \<and> rp_phase r' = rp_phase r \<and>
       sy_tbo (rp_synchronizer r') = sy_tbo (rp_synchronizer r) \<and> exact_queue (co_tbo (rp_consensus r')) \<and>
       queued (co_tbo (rp_consensus r')) < queued (co_tbo (rp_consensus r)))"
proof (cases "consensus_poll env (rp_log r) (rp_consensus r)")
  case (Pair st c)
  show ?thesis
  proof (cases st)
    case CPS_Recv
    with Pair poll_wait_queued [OF Pair] show ?thesis by (simp add: begin_normal_def normal_next_message_def)
  next
    case CPS_TryProposeAndRecv
    with Pair poll_wait_queued [OF Pair] show ?thesis
      by (auto simp: begin_normal_def normal_next_message_def bind_res_def split: prod.splits option.splits sum.splits
          dest!: propose_frame)
  next
    case (CPS_NextMessage h m)
    let ?r = "r\<lparr>rp_consensus := c\<rparr>"
    note exact = poll_exact [OF assms Pair [unfolded CPS_NextMessage]]
      and q = poll_queued [OF Pair [unfolded CPS_NextMessage]]
    have "begin_normal env now seed r = iteration_done (normal_consensus env h m ?r)"
      by (simp add: begin_normal_def normal_next_message_def Pair CPS_NextMessage update_normal_phase_def)
    with exact q normal_consensus_exact [of ?r m env h] show ?thesis
      by (cases "normal_consensus env h m ?r") (auto simp: iteration_done_def)
  qed
qed

section \<open>Deciding\<close>

lemma process_decided:
  assumes "consensus_process_message env h m view lg nd c = Inr (CS_Decided ds, c', lg', nd')"
  shows "lg' = log_push h m lg" "co_tbo c' = co_tbo c"
proof -
  have "\<exists>i. co_phase c = Phase_Committing i"
    using assms
    by (cases "co_phase c") (auto simp: consensus_process_message_def process_pre_preparing_def process_preparing_def
        res_simps Let_def split: consensus_message_kind.splits if_splits)
  then show "lg' = log_push h m lg" "co_tbo c' = co_tbo c"
    using assms
    by (auto simp: consensus_process_message_def process_committing_def log_insert_push Let_def
        split: consensus_message_kind.splits if_splits)
qed

lemma log_push_frame:
  "lg_requests (log_push h m lg) = lg_requests lg" "lg_deciding (log_push h m lg) = lg_deciding lg"
  "lg_decided (log_push h m lg) = lg_decided lg" "lg_checkpoint (log_push h m lg) = lg_checkpoint lg"
  by (simp_all add: log_push_def)

lemma log_push_request_of [simp]: "request_of env (log_push h m lg) d = request_of env lg d"
  by (simp add: request_of_def log_push_frame split: option.split)

lemma fold_unwatch:
  "sy_watching (fold unwatch_request ds sy) = fold hmap_remove ds (sy_watching sy)"
  by (induction ds arbitrary: sy) (simp_all add: unwatch_request_def Let_def)

lemma fold_remove_contains:
  "hmap_contains (fold hmap_remove ds m) d \<longleftrightarrow> d \<notin> set ds \<and> hmap_contains m d"
  by (induction ds arbitrary: m) (auto simp: hmap_contains_remove)

definition batch_of :: "('o, 'z) log_env_scheme \<Rightarrow> ('s, 'o) log \<Rightarrow> digest list \<Rightarrow> 'o update_batch" where
  "batch_of env lg ds = map (\<lambda>d. update_of d (the (request_of env lg d))) ds"

definition execution_of :: "('s, 'o) log \<Rightarrow> 'o update_batch \<Rightarrow> ('s, 'o) execution_request" where
  "execution_of lg batch = (if checkpoint_due lg then ER_UpdateAndGetAppstate batch else ER_Update batch)"

lemma execute_decided_ok:
  fixes env :: "('s, 'o, 'p, 'z) env_scheme" and r :: "('s, 'o, 'p) replica"
  assumes "omap_ok (env_omap env)" and "log_wf env (rp_log r)" and "batch_present env (rp_log r) ds"
    and "\<not> checkpoint_clash (rp_log r)" and "eh_connected (rp_executor r)"
  shows "\<exists>r'. execute_decided env s ds r = Inr r' \<and>
    eh_queue (rp_executor r') = eh_queue (rp_executor r) @ [execution_of (rp_log r) (batch_of env (rp_log r) ds)] \<and>
    rp_consensus r' = next_instance (rp_consensus r) \<and>
    rp_synchronizer r' = fold unwatch_request ds (rp_synchronizer r) \<and> known (rp_log r') = known (rp_log r) - set ds \<and>
    lg_decided (rp_log r') = lg_decided (rp_log r) @ map up_operation (batch_of env (rp_log r) ds)"
proof -
  let ?lg = "rp_log r"
  have ds: "distinct ds" "set ds \<subseteq> known ?lg"
    using assms(3) by (auto simp: batch_present_def has_request_known [OF assms(1)])
  obtain lg where fin: "finalize_batch env s ds ?lg =
      Inr ((if checkpoint_due ?lg then Info_BeginCheckpoint else Info_Nil, batch_of env ?lg ds), lg)"
    and lg: "known lg = known (fold forget ds ?lg)" "lg_decided lg = lg_decided ?lg @ map up_operation (batch_of env ?lg ds)"
    using finalize_batch_ok [OF assms(1,2) ds, of s] assms(4)
    by (auto simp: checkpoint_clash_def batch_of_def known_def)
  have "\<exists>eh. (case if checkpoint_due ?lg then Info_BeginCheckpoint else Info_Nil of
        Info_Nil \<Rightarrow> queue_update (batch_of env ?lg ds) (rp_executor r)
      | Info_BeginCheckpoint \<Rightarrow> queue_update_and_get_appstate (batch_of env ?lg ds) (rp_executor r)) = Inr eh \<and>
      eh_queue eh = eh_queue (rp_executor r) @ [execution_of ?lg (batch_of env ?lg ds)]"
    using assms(5) by (simp add: queue_update_def queue_update_and_get_appstate_def executor_send_def execution_of_def)
  then show ?thesis
    using fold_forget [OF assms(2), of ds] fin lg by (auto simp: execute_decided_def Let_def)
qed

section \<open>Properties\<close>

text \<open>
  Iterations of the loop until it suspends or fails, with the clock and the seeds of each
  iteration; \<open>None\<close> when \<open>n\<close> iterations are not enough.
\<close>

fun run_until_await ::
  "nat \<Rightarrow> ('s, 'o, 'p, 'z) env_scheme \<Rightarrow> (nat \<Rightarrow> instant) \<Rightarrow> (nat \<Rightarrow> seed) \<Rightarrow> ('s, 'o, 'p) replica
     \<Rightarrow> (await \<times> ('s, 'o, 'p) replica) res option" where
  "run_until_await 0 env now seed r = None"
| "run_until_await (Suc n) env now seed r =
     (case run_phase env (now n) (seed n) r of
        Inl e \<Rightarrow> Some (Inl e)
      | Inr (Some at, r) \<Rightarrow> Some (Inr (at, r))
      | Inr (None, r) \<Rightarrow> run_until_await n env now seed r)"


definition example_replica :: "(nat, nat, nat) replica" where
  "example_replica = replica_new (example_view (SeqNo 0)) (SeqNo 0) 1 \<lparr>eh_queue = [], eh_connected = True\<rparr> example_node"


text \<open>
  C7. A decided batch is executed. When a consensus message completes the quorum of commits,
  the requests of the batch are all known, the executor lives and no earlier checkpoint is
  unfinished, the normal phase handles the message without failing. The executor is sent
  exactly the operations of the decided digests, in the decided order, with the state asked
  back when a checkpoint is due; the requests leave the log and are no longer timed; their
  operations are recorded for recovery; and consensus moves on to the next instance. Run on
  that request, the executor delivers one reply for each request of the batch, to the client
  that sent it.
\<close>

theorem decided_batch_executed:
  fixes env :: "('s, 'o, 'p, 'z) env_scheme" and r :: "('s, 'o, 'p) replica"
    and sv :: "('v, 's, 'o, 'p) service"
  assumes "omap_ok (env_omap env)" and "log_wf env (rp_log r)" and "eh_connected (rp_executor r)"
    and "consensus_process_message env h m (rp_view r) (rp_log r) (rp_node r) (rp_consensus r) =
      Inr (CS_Decided ds, c, lg, nd)"
    and "batch_present env (rp_log r) ds" and "\<not> checkpoint_clash lg"
  defines "batch \<equiv> map (\<lambda>d. update_of d (the (request_of env (rp_log r) d))) ds"
  shows "\<exists>r' req. update_normal_phase env now seed (System h (SM_Consensus m)) r = Inr r' \<and>
    eh_queue (rp_executor r') = eh_queue (rp_executor r) @ [req] \<and>
    req = (if checkpoint_due lg then ER_UpdateAndGetAppstate batch else ER_Update batch) \<and>
    (\<forall>d \<in> set ds. \<not> has_request env (rp_log r') d \<and> \<not> hmap_contains (sy_watching (rp_synchronizer r')) d) \<and>
    lg_decided (rp_log r') = lg_decided (rp_log r) @ map up_operation batch \<and>
    co_seq (rp_consensus r') = seq_next (co_seq (rp_consensus r)) \<and>
    (\<forall>ex. \<exists>ex' msg. executor_step sv req ex = Inr ex' \<and> ex_spawned ex' = ex_spawned ex @ [msg] \<and>
       delivered msg = map2 (\<lambda>u p. UpdateReply (up_from u) (up_digest u) p) batch
         (replies_from sv (ex_service ex) (ex_state ex) (map up_operation batch)))"
proof -
  note dec = process_decided [OF assms(4)]
  let ?r = "r\<lparr>rp_consensus := c, rp_log := lg, rp_node := nd\<rparr>" and ?s = "co_seq (rp_consensus r)"
  have wf: "log_wf env (rp_log ?r)" using assms(2) by (simp add: dec log_wf_def log_push_frame)
  have present: "batch_present env (rp_log ?r) ds" using assms(5) by (simp add: batch_present_def dec)
  have batch: "batch_of env lg ds = batch" by (simp add: batch_of_def batch_def dec)
  from execute_decided_ok [OF assms(1) wf present, of ?s] assms(3,6)
  obtain r1 where r1: "execute_decided env ?s ds ?r = Inr r1"
    "eh_queue (rp_executor r1) = eh_queue (rp_executor r) @ [execution_of lg batch]"
    "rp_consensus r1 = next_instance c" "rp_synchronizer r1 = fold unwatch_request ds (rp_synchronizer r)"
    "known (rp_log r1) = known lg - set ds" "lg_decided (rp_log r1) = lg_decided lg @ map up_operation batch"
    by (auto simp: batch)
  define r' where "r' = r1\<lparr>rp_consensus := consensus_signal (rp_consensus r1)\<rparr>"
  have "update_normal_phase env now seed (System h (SM_Consensus m)) r = Inr r'"
    using r1(1) by (simp add: update_normal_phase_def normal_consensus_def assms(4) r'_def)
  moreover have "eh_queue (rp_executor r') = eh_queue (rp_executor r) @ [execution_of lg batch]"
    by (simp add: r'_def r1)
  moreover have "\<not> has_request env (rp_log r') d \<and> \<not> hmap_contains (sy_watching (rp_synchronizer r')) d"
    if "d \<in> set ds" for d
    using that by (simp add: r'_def r1 has_request_known [OF assms(1)] fold_unwatch fold_remove_contains)
  moreover have "lg_decided (rp_log r') = lg_decided (rp_log r) @ map up_operation batch"
    by (simp add: r'_def r1 dec log_push_frame)
  moreover have "co_seq (rp_consensus r') = seq_next ?s"
    by (simp add: r'_def r1 dec consensus_signal_def next_instance_def tbo_signal_def next_instance_queue_def)
  moreover have "\<exists>ex' msg. executor_step sv (execution_of lg batch) ex = Inr ex' \<and> ex_spawned ex' = ex_spawned ex @ [msg] \<and>
       delivered msg = map2 (\<lambda>u p. UpdateReply (up_from u) (up_digest u) p) batch
         (replies_from sv (ex_service ex) (ex_state ex) (map up_operation batch))" for ex
    by (auto simp: execution_of_def update_loop_eq split: prod.splits)
  ultimately show ?thesis unfolding execution_of_def by blast
qed

theorem decided_batch_executed_witness:
  "\<exists>r' req. update_normal_phase (example_env :: (nat, nat, nat) env) 0 (1, 2, 3, 4)
       (System (example_header 3) (SM_Consensus \<lparr>cm_seq = SeqNo 0, cm_view = SeqNo 0, cm_kind = Commit (Digest [9])\<rparr>))
       (example_replica\<lparr>rp_log := example_log, rp_consensus := (consensus_new (SeqNo 0) 1)\<lparr>co_batch_size := 1,
          co_phase := Phase_Committing 2, co_current := [Digest (replicate 32 0)], co_current_digest := Digest [9]\<rparr>\<rparr>) =
       Inr r' \<and>
     eh_queue (rp_executor r') = [req] \<and> map up_operation (request_batch req) = [5]"
proof -
  let ?env = "example_env :: (nat, nat, nat) env" and ?d = "Digest (replicate 32 0)"
  let ?c = "(consensus_new (SeqNo 0) 1)\<lparr>co_batch_size := 1, co_phase := Phase_Committing 2,
    co_current := [?d], co_current_digest := Digest [9]\<rparr>"
  let ?m = "\<lparr>cm_seq = SeqNo 0, cm_view = SeqNo 0, cm_kind = Commit (Digest [9])\<rparr>"
  let ?r = "example_replica\<lparr>rp_log := example_log, rp_consensus := ?c\<rparr>"
  let ?lg = "log_push (example_header 3) ?m example_log"
  have ok: "omap_ok (env_omap ?env)" by (simp add: example_env_def list_omap_ok)
  have log: "example_log = (log_new 1)\<lparr>lg_requests := [(?d, StoredMessage (example_header 1000) (RequestMessage 5))]\<rparr>"
    by (simp add: example_log_def log_insert_def Let_def log_new_def example_env_def list_omap_def unique_digest_def
        digest_entropy_eq)
  have wf: "log_wf ?env (rp_log ?r)" by (simp add: log log_wf_def log_new_def)
  have process: "consensus_process_message ?env (example_header 3) ?m (rp_view ?r) (rp_log ?r) (rp_node ?r) (rp_consensus ?r) =
      Inr (CS_Decided [?d], ?c\<lparr>co_phase := Phase_Init\<rparr>, ?lg, rp_node ?r)"
    by (simp add: consensus_process_message_def process_committing_def consensus_new_def tbo_queue_new_def
        example_replica_def replica_new_def synchronizer_new_def sync_queue_new_def example_view_def quorum_def
        usize_wrap_def)
  have present: "batch_present ?env (rp_log ?r) [?d]"
    by (simp add: batch_present_def has_request_known [OF ok] log known_def)
  have clash: "\<not> checkpoint_clash ?lg" "\<not> checkpoint_due ?lg"
    by (simp_all add: checkpoint_clash_def checkpoint_due_def last_seq_no_def log log_push_def log_new_def
        decision_log_new_def seq_zero_def seq_to_u32_def)
  have request: "request_of ?env example_log ?d = Some (StoredMessage (example_header 1000) (RequestMessage 5))"
    by (simp add: request_of_def log log_new_def omap_laws [OF list_omap_ok])
  have eh: "eh_connected (rp_executor ?r)" "eh_queue (rp_executor ?r) = []"
    by (simp_all add: example_replica_def replica_new_def)
  show ?thesis
    using decided_batch_executed [OF ok wf eh(1) process present clash(1), of 0 "(1, 2, 3, 4)" counter_service] eh(2) clash(2)
    by (auto simp: request update_of_def)
qed

lemma receive_loop_last:
  assumes "\<And>payload s. env_deserialize env payload \<noteq> Inl (Panic s)"
  shows "last (receive_loop env peer_id stream) = DisconnectedRx (Some peer_id)"
  using assms
proof (induction env peer_id stream rule: receive_loop.induct)
  case (1 env peer_id stream)
  have "receive_loop env peer_id stream \<noteq> []" for stream
    using 1(2) by (subst receive_loop.simps)
      (auto simp: header_deserialize_from_def read_exact_def
        split: option.splits sum.splits if_splits failure.splits)
  then show ?case
    using 1
    by (subst receive_loop.simps)
      (auto simp: header_deserialize_from_def read_exact_def
        split: option.splits sum.splits if_splits failure.splits)
qed



end
