(* ===== verification/Recovery.thy ===== *)
theory Recovery
  imports Replica
begin

text \<open>
  What a recovering replica ends up with: the log of the replica that answers, its executor,
  the snapshot it sends and the executor of the replica that installs it, put together
  (\<open>src/bft/consensus/log/mod.rs\<close>, \<open>src/bft/cst/mod.rs\<close>, \<open>src/bft/executable/mod.rs\<close>).
\<close>

text \<open>Deciding several batches: the votes of an instance are logged, then its batch is finalised.\<close>

fun log_votes ::
  "('s, 'o, 'p, 'z) env_scheme \<Rightarrow> stored_consensus list \<Rightarrow> ('s, 'o) log \<Rightarrow> ('s, 'o) log" where
  "log_votes env [] lg = lg"
| "log_votes env (m # ms) lg =
     log_votes env ms (log_insert env (sm_header m) (SM_Consensus (sm_message m) :: ('s, 'o, 'p) system_message) lg)"

fun finalize_all ::
  "('s, 'o, 'p, 'z) env_scheme \<Rightarrow> (stored_consensus list \<times> seq_no \<times> digest list) list \<Rightarrow> ('s, 'o) log
     \<Rightarrow> ((info \<times> 'o update_batch) list \<times> ('s, 'o) log) res" where
  "finalize_all env [] lg = Inr ([], lg)"
| "finalize_all env ((ms, s, ds) # xs) lg =
     bind_res (finalize_batch env s ds (log_votes env ms lg)) (\<lambda>(rb, lg).
     bind_res (finalize_all env xs lg) (\<lambda>(rbs, lg). Inr (rb # rbs, lg)))"

lemma log_votes_frame:
  "lg_decided (log_votes env ms lg) = lg_decided lg" "lg_checkpoint (log_votes env ms lg) = lg_checkpoint lg"
  by (induction env ms lg rule: log_votes.induct) (simp_all add: log_push_frame)

abbreviation batches_ops :: "(info \<times> 'o update_batch) list \<Rightarrow> 'o list" where
  "batches_ops rbs \<equiv> concat (map (\<lambda>(_, b). map up_operation b) rbs)"

abbreviation no_checkpoint :: "(info \<times> 'o update_batch) list \<Rightarrow> bool" where
  "no_checkpoint rbs \<equiv> \<forall>(report, _) \<in> set rbs. report = Info_Nil"

lemma finalize_take_frame:
  "finalize_take env ds batch lg = Inr (batch', lg') \<Longrightarrow>
   lg_decided lg' = lg_decided lg \<and> lg_checkpoint lg' = lg_checkpoint lg"
  by (induction env ds batch lg arbitrary: batch' lg' rule: finalize_take.induct)
    (auto split: option.splits prod.splits)

lemma finalize_batch_frame:
  assumes "finalize_batch env s ds lg = Inr ((report, batch), lg')"
  shows "lg_decided lg' = lg_decided lg @ map up_operation batch"
    and "report = Info_Nil \<Longrightarrow> lg_checkpoint lg' = lg_checkpoint lg"
  using assms
  by (auto simp: finalize_batch_def res_simps Let_def begin_checkpoint_def dest!: finalize_take_frame
      split: if_splits checkpoint_state.splits)

lemma finalize_all_frame:
  assumes "finalize_all env xs lg = Inr (rbs, lg')" and "no_checkpoint rbs"
  shows "lg_decided lg' = lg_decided lg @ batches_ops rbs \<and> lg_checkpoint lg' = lg_checkpoint lg"
  using assms
proof (induction xs arbitrary: lg rbs)
  case (Cons x xs)
  obtain ms s ds where x: "x = (ms, s, ds)" by (cases x) auto
  obtain report b lg1 rbs1 where "finalize_batch env s ds (log_votes env ms lg) = Inr ((report, b), lg1)"
    "finalize_all env xs lg1 = Inr (rbs1, lg')" "rbs = (report, b) # rbs1"
    using Cons.prems by (auto simp: x res_simps)
  with Cons finalize_batch_frame [of env s ds "log_votes env ms lg" report b lg1] show ?case
    by (auto simp: log_votes_frame)
qed simp

text \<open>
  An application whose state after an operation depends on the state and the operation only,
  as replication needs, and its state after a list of operations.
\<close>

definition deterministic :: "('v, 's, 'o, 'p) service \<Rightarrow> bool" where
  "deterministic sv \<longleftrightarrow> (\<forall>v v' st req. fst (snd (sv_update sv v st req)) = fst (snd (sv_update sv v' st req)))"

definition state_after :: "('v, 's, 'o, 'p) service \<Rightarrow> 'v \<Rightarrow> 's \<Rightarrow> 'o list \<Rightarrow> 's" where
  "state_after sv v st ops = snd (install_loop sv v st ops)"

lemma install_loop_state:
  assumes "deterministic sv"
  shows "snd (install_loop sv v st ops) = state_after sv v' st ops"
  unfolding state_after_def
proof (induction ops arbitrary: v v' st)
  case (Cons req ops)
  obtain p st1 v1 where u: "sv_update sv v st req = (p, st1, v1)" by (cases "sv_update sv v st req") auto
  obtain p' st1' v1' where u': "sv_update sv v' st req = (p', st1', v1')" by (cases "sv_update sv v' st req") auto
  have "fst (snd (sv_update sv v st req)) = fst (snd (sv_update sv v' st req))"
    using assms unfolding deterministic_def by blast
  with Cons u u' show ?case by simp
qed simp

lemma state_after_append:
  assumes "deterministic sv"
  shows "state_after sv v st (xs @ ys) = state_after sv v (state_after sv v st xs) ys"
  using install_loop_state [OF assms] by (auto simp: state_after_def install_loop_append split: prod.splits)

lemma executor_updates_state:
  assumes "deterministic sv" and "executor_run sv (map (\<lambda>(_, b). ER_Update b) rbs) ex = Inr ex'"
  shows "ex_state ex' = state_after sv v (ex_state ex) (batches_ops rbs)"
  using assms(2)
proof (induction rbs arbitrary: ex)
  case (Cons rb rbs)
  obtain report b where rb: "rb = (report, b)" by fastforce
  obtain v1 st replies where u: "update_loop sv (ex_service ex) (ex_state ex) b [] = (v1, st, replies)"
    using prod_cases3 by blast
  then have "st = state_after sv v (ex_state ex) (map up_operation b)"
    using install_loop_state [OF assms(1), of "ex_service ex" "ex_state ex" "map up_operation b" v]
    by (auto simp: update_loop_eq split: prod.splits)
  with Cons u show ?case by (simp add: rb state_after_append [OF assms(1)])
qed (simp add: state_after_def)

section \<open>Properties\<close>

text \<open>
  C31. What recovery brings back. A replica finalises a batch that begins a checkpoint, then
  the batches \<open>bs\<close> while its executor is still busy; then the state after the first batch
  arrives and the checkpoint is finalised, and the batches \<open>cs\<close> follow. A replica that now
  installs its snapshot brings its application to the state after the first batch and \<open>cs\<close>:
  the operations of \<open>bs\<close>, which the replica that answered has executed, are missing. With
  \<open>bs\<close> empty, the two applications agree.
\<close>

theorem recovery_skips:
  fixes env :: "('s, 'o, 'p, 'z) env_scheme"
  assumes "deterministic sv"
    and "finalize_batch env s ds lg0 = Inr ((Info_BeginCheckpoint, b), lg1)"
    and "executor_step sv (ER_UpdateAndGetAppstate b) ex0 = Inr ex1"
    and "finalize_all env xs lg1 = Inr (bs, lg2)" and "no_checkpoint bs"
    and "finalize_checkpoint (ex_state ex1) lg2 = Inr lg3"
    and "finalize_all env ys lg3 = Inr (cs, lg4)" and "no_checkpoint cs"
    and "executor_run sv (map (\<lambda>(_, b). ER_Update b) (bs @ cs)) ex1 = Inr ex2"
    and "snapshot view lg4 = Inr rs"
    and "install_recovery_state rs sy lg eh c = Inr (sy', lg', eh', c')" and "eh_queue eh = []"
    and "executor_run sv (eh_queue eh') ex = Inr ex'"
  shows "ex_state ex1 = state_after sv v (ex_state ex0) (map up_operation b) \<and>
    ex_state ex2 = state_after sv v (ex_state ex1) (batches_ops (bs @ cs)) \<and>
    ex_state ex' = state_after sv v (ex_state ex1) (batches_ops cs) \<and>
    (bs = [] \<longrightarrow> ex_state ex' = ex_state ex2)"
proof -
  have ex1: "ex_state ex1 = state_after sv v (ex_state ex0) (map up_operation b)"
    using assms(3) install_loop_state [OF assms(1), of "ex_service ex0" "ex_state ex0" "map up_operation b" v]
    by (auto simp: update_loop_eq split: prod.splits)
  have ex2: "ex_state ex2 = state_after sv v (ex_state ex1) (batches_ops (bs @ cs))"
    by (rule executor_updates_state [OF assms(1,9)])
  have "lg_decided lg3 = [] \<and> (\<exists>s. lg_checkpoint lg3 = CP_Complete \<lparr>cp_seq = s, cp_appstate = ex_state ex1\<rparr>)"
    using assms(6) by (auto simp: finalize_checkpoint_def finalize_checkpoint_at_def Let_def split: checkpoint_state.splits)
  then have rs: "rs_requests rs = batches_ops cs" "cp_appstate (rs_checkpoint rs) = ex_state ex1"
    using assms(10) finalize_all_frame [OF assms(7,8)] by (auto simp: snapshot_def)
  have "eh_queue eh' = [ER_InstallState (ex_state ex1) (batches_ops cs)]"
    using assms(11,12) rs
    by (auto simp: install_recovery_state_def executor_install_state_def executor_send_def res_simps Let_def
        split: if_splits)
  then have "ex_state ex' = state_after sv v (ex_state ex1) (batches_ops cs)"
    using assms(13) install_loop_state [OF assms(1), of "ex_service ex" "ex_state ex1" "batches_ops cs" v]
    by (auto split: prod.splits)
  with ex1 ex2 show ?thesis by simp
qed

text \<open>A log that holds three requests, with the proposal of instance 1000 logged.\<close>

definition example_request :: "nat \<Rightarrow> nat stored_request" where
  "example_request k = StoredMessage (example_header 1000) (RequestMessage k)"

definition example_due :: "(nat, nat) log" where
  "example_due = (log_new 1)\<lparr>lg_requests := [(Digest [1], example_request 5), (Digest [2], example_request 6),
       (Digest [3], example_request 7)],
     lg_declog := decision_log_new\<lparr>dl_pre_prepares := [example_vote 0 (SeqNo 1000) (PrePrepare [Digest [1]])]\<rparr>\<rparr>"

definition example_update :: "u8 \<Rightarrow> nat \<Rightarrow> nat update" where
  "example_update d k = Update (NodeId 1000) (Digest [d]) k"

lemmas example_eval = example_due_def example_request_def example_update_def log_new_def decision_log_new_def
  finalize_batch_def omap_laws [OF list_omap_ok] update_batch_add_def header_from_def example_header_def node_of_u32_def
  last_seq_no_def seq_to_u32_def PERIOD_def begin_checkpoint_def example_vote_def Let_def log_push_def

theorem recovery_skips_witness:
  "\<exists>lg1 lg2 lg3 lg4 rs sy' lg' eh' c' ex2 ex'.
     finalize_batch (example_env :: (nat, nat, nat) env) (SeqNo 1000) [Digest [1]] example_due =
       Inr ((Info_BeginCheckpoint, [example_update 1 5]), lg1) \<and>
     finalize_all (example_env :: (nat, nat, nat) env)
       [([example_vote 0 (SeqNo 1001) (PrePrepare [Digest [2]])], SeqNo 1001, [Digest [2]])] lg1 =
       Inr ([(Info_Nil, [example_update 2 6])], lg2) \<and>
     finalize_checkpoint 5 lg2 = Inr lg3 \<and>
     finalize_all (example_env :: (nat, nat, nat) env)
       [([example_vote 0 (SeqNo 1002) (PrePrepare [Digest [3]])], SeqNo 1002, [Digest [3]])] lg3 =
       Inr ([(Info_Nil, [example_update 3 7])], lg4) \<and>
     snapshot (example_view (SeqNo 0)) lg4 = Inr rs \<and>
     install_recovery_state rs (synchronizer_new 0 (example_view (SeqNo 0))) (log_new 1)
       \<lparr>eh_queue = [], eh_connected = True\<rparr> (consensus_new (SeqNo 1002) 1) = Inr (sy', lg', eh', c') \<and>
     executor_run counter_service
       [ER_UpdateAndGetAppstate [example_update 1 5], ER_Update [example_update 2 6], ER_Update [example_update 3 7]]
       \<lparr>ex_service = (), ex_state = 0, ex_spawned = []\<rparr> = Inr ex2 \<and> ex_state ex2 = 18 \<and>
     executor_run counter_service (eh_queue eh') \<lparr>ex_service = (), ex_state = 0, ex_spawned = []\<rparr> = Inr ex' \<and>
     ex_state ex' = 12"
proof -
  let ?env = "example_env :: (nat, nat, nat) env" and ?sv = counter_service
  let ?xs = "[([example_vote 0 (SeqNo 1001) (PrePrepare [Digest [2]])], SeqNo 1001, [Digest [2]])]"
    and ?ys = "[([example_vote 0 (SeqNo 1002) (PrePrepare [Digest [3]])], SeqNo 1002, [Digest [3]])]"
  let ?ex0 = "\<lparr>ex_service = (), ex_state = 0, ex_spawned = []\<rparr> :: (unit, nat, nat, nat) executor"
  have det: "deterministic ?sv" by (simp add: deterministic_def counter_service_def)
  define pp where "pp = (\<lambda>s k. example_vote 0 (SeqNo s) (PrePrepare [Digest [k]]))"
  define lg1 where "lg1 = example_due\<lparr>lg_requests := [(Digest [2], example_request 6), (Digest [3], example_request 7)],
    lg_decided := [5], lg_checkpoint := CP_Partial (SeqNo 1000),
    lg_declog := decision_log_new\<lparr>dl_pre_prepares := [pp 1000 1], dl_last_exec := Some (SeqNo 1000)\<rparr>\<rparr>"
  define lg2 where "lg2 = lg1\<lparr>lg_requests := [(Digest [3], example_request 7)], lg_decided := [5, 6],
    lg_declog := decision_log_new\<lparr>dl_pre_prepares := [pp 1000 1, pp 1001 2], dl_last_exec := Some (SeqNo 1001)\<rparr>\<rparr>"
  define lg3 where "lg3 = lg2\<lparr>lg_decided := [], lg_curr_seq := SeqNo 1001,
    lg_checkpoint := CP_Complete \<lparr>cp_seq = SeqNo 1000, cp_appstate = 5\<rparr>,
    lg_declog := decision_log_new\<lparr>dl_last_exec := Some (SeqNo 1001)\<rparr>\<rparr>"
  define lg4 where "lg4 = lg3\<lparr>lg_requests := [], lg_decided := [7],
    lg_declog := decision_log_new\<lparr>dl_pre_prepares := [pp 1002 3], dl_last_exec := Some (SeqNo 1002)\<rparr>\<rparr>"
  have l1: "finalize_batch ?env (SeqNo 1000) [Digest [1]] example_due =
      Inr ((Info_BeginCheckpoint, [example_update 1 5]), lg1)"
    by (simp add: example_eval lg1_def pp_def)
  have l2: "finalize_all ?env ?xs lg1 = Inr ([(Info_Nil, [example_update 2 6])], lg2)"
    by (simp add: example_eval lg1_def lg2_def pp_def)
  have l3: "finalize_checkpoint 5 lg2 = Inr lg3"
    by (simp add: finalize_checkpoint_def finalize_checkpoint_at_def example_eval lg1_def lg2_def lg3_def pp_def)
  have l4: "finalize_all ?env ?ys lg3 = Inr ([(Info_Nil, [example_update 3 7])], lg4)"
    by (simp add: example_eval lg1_def lg2_def lg3_def lg4_def pp_def)
  obtain rs where rs: "snapshot (example_view (SeqNo 0)) lg4 = Inr rs" "rs_declog rs = lg_declog lg4"
    by (simp add: snapshot_def lg4_def lg3_def)
  let ?sy = "synchronizer_new 0 (example_view (SeqNo 0))" and ?eh = "\<lparr>eh_queue = [], eh_connected = True\<rparr>"
  have ins: "\<exists>c' sy' lg' eh'. install_recovery_state rs ?sy (log_new 1) ?eh (consensus_new (SeqNo 1002) 1) =
      Inr (sy', lg', eh', c') \<and> eh_queue eh' = [ER_InstallState (cp_appstate (rs_checkpoint rs)) (rs_requests rs)]"
    using rs(2)
    by (simp add: install_recovery_state_def install_new_phase_def install_sequence_number_def drain_queues_def
        executor_install_state_def executor_send_def lg4_def pp_def example_eval seq_index_def consensus_new_def
        tbo_queue_new_def OVERFLOW_THRES_NEG_def OVERFLOW_THRES_POS_def)
  then obtain c' sy' lg' eh' where ins: "install_recovery_state rs ?sy (log_new 1) ?eh (consensus_new (SeqNo 1002) 1) =
      Inr (sy', lg', eh', c')"
    and q: "eh_queue eh' = [ER_InstallState (cp_appstate (rs_checkpoint rs)) (rs_requests rs)]"
    by blast
  obtain ex1 where ex1: "executor_step ?sv (ER_UpdateAndGetAppstate [example_update 1 5]) ?ex0 = Inr ex1"
    "ex_state ex1 = 5" by (simp add: counter_service_def example_update_def)
  obtain ex2 where ex2: "executor_run ?sv (map (\<lambda>(_, b). ER_Update b)
      ([(Info_Nil, [example_update 2 6])] @ [(Info_Nil, [example_update 3 7])])) ex1 = Inr ex2"
    by (simp add: counter_service_def example_update_def)
  obtain ex' where ex': "executor_run ?sv (eh_queue eh') ?ex0 = Inr ex'"
    unfolding q
    by (cases "install_loop ?sv () (cp_appstate (rs_checkpoint rs)) (rs_requests rs)") simp
  have "ex_state ex2 = 18 \<and> ex_state ex' = 12"
    using recovery_skips [OF det l1 ex1(1) l2 _ _ l4 _ ex2 rs(1) ins _ ex'] l3 ex1(2)
    by (simp add: state_after_def counter_service_def example_update_def)
  moreover have "executor_run ?sv [ER_UpdateAndGetAppstate [example_update 1 5], ER_Update [example_update 2 6],
      ER_Update [example_update 3 7]] ?ex0 = Inr ex2"
    using ex1(1) ex2 by simp
  ultimately show ?thesis using l1 l2 l3 l4 rs(1) ins ex' by blast
qed

end
