(* ===== verification/Wellformed.thy ===== *)
theory Wellformed
  imports Server Stopping
begin

text \<open>
  Well-formed replicas: what the types of \<open>src/bft/core/server/mod.rs\<close> and of the layers below
  do not say, and every operation keeps. A request is in one place of the log, under its
  digest; the queued messages of a protocol are in the queue of their kind, those of
  consensus in the slot of their instance; the current batch fits its buffer, which has the
  size of a batch; hash maps have each key once.
\<close>

section \<open>The layers\<close>

definition consensus_wf :: "consensus \<Rightarrow> bool" where
  "consensus_wf c \<longleftrightarrow> queue_inv (co_tbo c) \<and> co_batch_size c \<le> length (co_current c)"

definition core_wf :: "('o, 'z) log_env_scheme \<Rightarrow> ('s, 'o) log \<Rightarrow> consensus \<Rightarrow> bool" where
  "core_wf env lg c \<longleftrightarrow> log_wf env lg \<and> consensus_wf c \<and> length (co_current c) = lg_batch_size lg"

fun is_stop :: "'o stored_view_change \<Rightarrow> bool" where
  "is_stop (StoredMessage h m) = (case vc_kind m of Stop _ \<Rightarrow> True | _ \<Rightarrow> False)"

fun is_stop_data :: "'o stored_view_change \<Rightarrow> bool" where
  "is_stop_data (StoredMessage h m) = (case vc_kind m of StopData _ \<Rightarrow> True | _ \<Rightarrow> False)"

fun is_sync :: "'o stored_view_change \<Rightarrow> bool" where
  "is_sync (StoredMessage h m) = (case vc_kind m of Sync _ \<Rightarrow> True | _ \<Rightarrow> False)"

definition sync_queue_wf :: "'o sync_queue \<Rightarrow> bool" where
  "sync_queue_wf q \<longleftrightarrow>
     tbo_all is_stop (sq_stop q) \<and> tbo_all is_stop_data (sq_stop_data q) \<and> tbo_all is_sync (sq_sync q)"

definition sync_wf :: "'o synchronizer \<Rightarrow> bool" where
  "sync_wf sy \<longleftrightarrow> sync_queue_wf (sy_tbo sy) \<and> hmap_wf (sy_watching sy) \<and> hmap_wf (sy_stopped sy) \<and>
     hmap_wf (sy_collects sy) \<and> (\<forall>m \<in> snd ` set (sy_collects sy). is_stop_data m)"

definition replica_wf :: "('s, 'o, 'p, 'z) env_scheme \<Rightarrow> ('s, 'o, 'p) replica \<Rightarrow> bool" where
  "replica_wf env r \<longleftrightarrow> core_wf env (rp_log r) (rp_consensus r) \<and> sync_wf (rp_synchronizer r) \<and>
     hmap_wf (ct_received_states (rp_cst r))"

section \<open>Consensus and the log\<close>

lemma consensus_wf_frame:
  "co_tbo c' = co_tbo c \<Longrightarrow> co_batch_size c' = co_batch_size c \<Longrightarrow> co_current c' = co_current c \<Longrightarrow>
    consensus_wf c' = consensus_wf c"
  by (simp add: consensus_wf_def)

lemma core_wf_new: "core_wf env (log_new n) (consensus_new s n)"
  using log_wf_new [of env n]
  by (simp add: core_wf_def consensus_wf_def consensus_new_def queue_inv_new log_new_def)

lemma core_wf_queue [simp]: "core_wf env lg c \<Longrightarrow> core_wf env lg (consensus_queue h m c)"
  by (simp add: core_wf_def consensus_wf_def consensus_queue_def queue_inv_queue)

lemma core_wf_signal [simp]: "core_wf env lg (consensus_signal c) = core_wf env lg c"
  by (simp add: core_wf_def consensus_wf_def consensus_signal_def queue_inv_signal)

lemma core_wf_next_instance [simp]: "core_wf env lg c \<Longrightarrow> core_wf env lg (next_instance c)"
  by (simp add: core_wf_def consensus_wf_def next_instance_def queue_inv_next_instance)

lemma core_wf_poll:
  "core_wf env lg c \<Longrightarrow> consensus_poll env lg c = (st, c') \<Longrightarrow> core_wf env lg c'"
  using consensus_poll_inv [of c env lg] consensus_poll_frame(2,3) [of env lg c st c']
  by (simp add: core_wf_def consensus_wf_def)

lemma core_wf_propose:
  "core_wf env lg c \<Longrightarrow> propose env ds view nd c = Inr (c', nd') \<Longrightarrow> core_wf env lg c'"
  using propose_frame [of env ds view nd c c' nd'] by (auto simp: core_wf_def consensus_wf_def)

lemma core_wf_install:
  "core_wf env lg c \<Longrightarrow> install_sequence_number s c = Inr c' \<Longrightarrow> core_wf env lg c'"
  using install_sequence_number_inv [of c s c']
  by (auto simp: core_wf_def consensus_wf_def install_sequence_number_def Let_def res_simps
      split: sum.splits if_splits)

lemma core_wf_log:
  assumes "core_wf env lg c" and "log_wf env lg'" and "lg_batch_size lg' = lg_batch_size lg"
  shows "core_wf env lg' c"
  using assms by (simp add: core_wf_def)

lemma core_wf_insert:
  assumes "omap_ok (env_omap env)" and "core_wf env lg c"
  shows "core_wf env (log_insert env h m lg) c"
proof (rule core_wf_log [OF assms(2)])
  show "log_wf env (log_insert env h m lg)" using assms by (simp add: core_wf_def log_insert_wf)
  show "lg_batch_size (log_insert env h m lg) = lg_batch_size lg"
    by (cases m) (simp_all add: log_insert_def Let_def)
qed

lemma core_wf_next_batch:
  assumes "omap_ok (env_omap env)" and "core_wf env lg c" and "next_batch env lg = (ds, lg')"
  shows "core_wf env lg' c"
proof (rule core_wf_log [OF assms(2)])
  show "log_wf env lg'" using assms next_batch_wf(1) [OF assms(1) _ assms(3)] by (simp add: core_wf_def)
  show "lg_batch_size lg' = lg_batch_size lg"
    using assms(3) by (auto simp: next_batch_def Let_def split: option.splits prod.splits)
qed

lemma core_wf_finalize_batch:
  assumes "omap_ok (env_omap env)" and "core_wf env lg c" and "finalize_batch env s ds lg = Inr (r, lg')"
  shows "core_wf env lg' c"
proof -
  have wf: "log_wf env lg" using assms(2) by (simp add: core_wf_def)
  have ds: "distinct ds" "set ds \<subseteq> known lg"
    using finalize_batch_missing [OF assms(1) wf, of ds s] assms(3) by auto
  have lg': "lg_requests lg' = lg_requests (fold forget ds lg)" "lg_deciding lg' = lg_deciding (fold forget ds lg)"
    "lg_batch_size lg' = lg_batch_size lg"
    using assms(3) by (auto simp: finalize_batch_ok [OF assms(1) wf ds] fold_forget_frame split: if_splits)
  show ?thesis
    using core_wf_log [OF assms(2)] lg'(3) fold_forget [OF wf] log_wf_frame [OF lg'(1,2), of env] by blast
qed

lemma core_wf_finalize_checkpoint:
  assumes "core_wf env lg c" and "finalize_checkpoint s lg = Inr lg'"
  shows "core_wf env lg' c"
proof -
  have frame: "lg_requests lg' = lg_requests lg" "lg_deciding lg' = lg_deciding lg" "lg_batch_size lg' = lg_batch_size lg"
    using assms(2)
    by (auto simp: finalize_checkpoint_def finalize_checkpoint_at_def Let_def split: checkpoint_state.splits)
  show ?thesis using assms(1) log_wf_frame [OF frame(1,2), of env] frame(3) by (simp add: core_wf_def)
qed

lemma copy_current_wf:
  assumes "copy_current ds c = Inr c'"
  shows "co_tbo c' = co_tbo c" "co_batch_size c' \<le> length (co_current c')"
    "length (co_current c') = length (co_current c)"
  using assms by (auto simp: copy_current_def split: if_splits)

lemma core_wf_process:
  assumes "core_wf env lg c" and "consensus_process_message env h m view lg nd c = Inr (st, c', lg', nd')"
  shows "core_wf env lg' c'"
proof -
  have inv: "queue_inv (co_tbo c')"
    using process_tbo_inv [OF _ assms(2)] assms(1) by (simp add: core_wf_def consensus_wf_def)
  have lg': "lg_requests lg' = lg_requests lg \<and> lg_deciding lg' = lg_deciding lg \<and> lg_batch_size lg' = lg_batch_size lg"
    using assms(2)
    by (cases "co_phase c"; cases "cm_kind m")
      (auto simp: consensus_process_message_def process_pre_preparing_def process_preparing_def
        process_committing_def log_push_def Let_def res_simps split: if_splits)
  have cur: "length (co_current c') = length (co_current c) \<and>
      (co_batch_size c \<le> length (co_current c) \<longrightarrow> co_batch_size c' \<le> length (co_current c'))"
    using assms(2)
    by (cases "co_phase c"; cases "cm_kind m")
      (auto simp: consensus_process_message_def process_pre_preparing_def process_preparing_def
        process_committing_def consensus_queue_def copy_current_def Let_def res_simps split: if_splits)
  show ?thesis
    using assms(1) inv lg' cur log_wf_frame [of lg' lg env] by (simp add: core_wf_def consensus_wf_def)
qed

lemma core_wf_finalize_view_change:
  assumes "core_wf env lg c" and "finalize_view_change env dig view lg nd c = Inr (c', nd')"
  shows "core_wf env lg c'"
proof -
  obtain ds c1 where "copy_current ds (c\<lparr>co_phase := Phase_Preparing 1, co_current_digest := dig\<rparr>) = Inr c1" "c' = c1"
    using assms(2)
    by (auto simp: finalize_view_change_def Let_def res_simps split: consensus_message_kind.splits if_splits)
  then show ?thesis using assms(1) copy_current_wf [of ds _ c1] by (force simp: core_wf_def consensus_wf_def)
qed

section \<open>The synchroniser\<close>

lemma sync_wf_new: "sync_wf (synchronizer_new dur view)"
  by (simp add: sync_wf_def sync_queue_wf_def synchronizer_new_def sync_queue_new_def)

lemma sync_wf_frame:
  assumes "sy_tbo sy' = sy_tbo sy" and "sy_watching sy' = sy_watching sy" and "sy_stopped sy' = sy_stopped sy"
    and "sy_collects sy' = sy_collects sy"
  shows "sync_wf sy' = sync_wf sy"
  using assms by (simp add: sync_wf_def)

lemma sync_wf_queue:
  assumes "sync_wf sy" and "sync_queue_wf (sy_tbo sy) \<Longrightarrow> sync_queue_wf q"
  shows "sync_wf (sy\<lparr>sy_tbo := q\<rparr>)"
  using assms by (simp add: sync_wf_def)

lemma sync_queue_wf_queue:
  "sync_queue_wf q \<Longrightarrow> vc_kind m = Stop rs \<Longrightarrow> sync_queue_wf (queue_stop h m q)"
  "sync_queue_wf q \<Longrightarrow> vc_kind m = StopData cd \<Longrightarrow> sync_queue_wf (queue_stop_data h m q)"
  "sync_queue_wf q \<Longrightarrow> vc_kind m = Sync lc \<Longrightarrow> sync_queue_wf (queue_sync h m q)"
  by (simp_all add: sync_queue_wf_def queue_stop_def queue_stop_data_def queue_sync_def Let_def tbo_all_queue)

lemma sync_queue_wf_view_change: "sync_queue_wf q \<Longrightarrow> sync_queue_wf (queue_view_change h m q)"
  by (cases "vc_kind m") (simp_all add: queue_view_change_def sync_queue_wf_queue)

lemma sync_wf_queue_message [simp]: "sync_wf sy \<Longrightarrow> sync_wf (sync_queue_message h m sy)"
  by (simp add: sync_queue_message_def sync_wf_queue sync_queue_wf_view_change)

lemma sync_wf_signal [simp]: "sync_wf (sync_signal sy) = sync_wf sy"
  by (simp add: sync_signal_def sync_signal_queue_def sync_wf_def sync_queue_wf_def)

lemma sync_wf_next_timeout: "sync_wf (snd (next_timeout sy)) = sync_wf sy"
  by (rule sync_wf_frame) (simp_all add: next_timeout_def)

lemma sync_wf_start_timer: "start_timer th sy = (sy', th') \<Longrightarrow> sync_wf sy \<Longrightarrow> sync_wf sy'"
  by (auto simp: start_timer_def next_timeout_def sync_wf_def)

lemma sync_wf_watching:
  "sync_wf sy \<Longrightarrow> hmap_wf w \<Longrightarrow> sync_wf (sy\<lparr>sy_watching := w\<rparr>)"
  by (simp add: sync_wf_def)

lemma hmap_wf_map_values: "hmap_wf m \<Longrightarrow> hmap_wf (map (\<lambda>(k, v). (k, f v)) m)"
  by (simp add: hmap_wf_def o_def case_prod_unfold)

lemma sync_wf_watch:
  assumes "sync_wf sy" and "watch_request_impl phase dig th sy = (sy', th')"
  shows "sync_wf sy'"
proof -
  have "\<exists>sy1. sync_wf sy1 \<and> sy' = sy1\<lparr>sy_watching := hmap_insert dig phase (sy_watching sy1)\<rparr>"
  proof (cases "sy_watching_timeouts sy")
    case True
    then show ?thesis using assms by (auto simp: watch_request_impl_def)
  next
    case False
    obtain sy1 th1 where t: "start_timer th sy = (sy1, th1)" by fastforce
    then have "sync_wf (sy1\<lparr>sy_watching_timeouts := True\<rparr>)"
      using assms(1) sync_wf_start_timer [OF t] sync_wf_frame [of "sy1\<lparr>sy_watching_timeouts := True\<rparr>" sy1] by simp
    then show ?thesis using assms(2) False t by (auto simp: watch_request_impl_def)
  qed
  then show ?thesis by (auto simp: sync_wf_def)
qed

lemma sync_wf_watch_forwarded:
  assumes "omap_ok (env_omap env)" and "sync_wf sy" and "core_wf env lg c"
    and "watch_forwarded_loop env phase rs (sy, th, lg) = (sy', th', lg')"
  shows "sync_wf sy' \<and> core_wf env lg' c"
  using assms(2-4)
proof (induction rs arbitrary: sy th lg)
  case (Cons r rs)
  obtain sy1 th1 where w: "watch_request_impl phase (unique_digest env (sm_header r)) th sy = (sy1, th1)"
    by fastforce
  show ?case
    using Cons.IH [OF sync_wf_watch [OF Cons.prems(1) w] core_wf_insert [OF assms(1) Cons.prems(2)]] Cons.prems(3) w
    by simp
qed simp

lemma sync_wf_unwatch: "sync_wf sy \<Longrightarrow> sync_wf (unwatch_request d sy)"
  by (simp add: unwatch_request_def Let_def sync_wf_def)

lemma sync_wf_unwatch_fold: "sync_wf sy \<Longrightarrow> sync_wf (fold unwatch_request ds sy)"
  by (induction ds arbitrary: sy) (simp_all add: sync_wf_unwatch)

lemma sync_wf_watch_all:
  assumes "sync_wf sy" and "watch_all_requests now th sy = (sy', th')"
  shows "sync_wf sy'"
proof -
  let ?w = "map (\<lambda>(d, _). (d, TP_Init now)) (sy_watching sy)"
  have "sync_wf (sy\<lparr>sy_watching := ?w, sy_watching_timeouts := b\<rparr>)" for b
    using assms(1) hmap_wf_map_values [of "sy_watching sy" "\<lambda>_. TP_Init now"] by (simp add: sync_wf_def)
  then show ?thesis
    using assms(2) by (auto simp: watch_all_requests_def Let_def split: if_splits intro: sync_wf_start_timer)
qed

lemma sync_wf_timed_out:
  assumes "sync_wf sy" and "client_requests_timed_out env now s th sy = (st, sy', th')"
  shows "sync_wf sy'"
proof -
  let ?w = "map (\<lambda>(d, phase). (d, if to_stop now (sy_timeout_dur sy) phase then TP_TimedOut else phase)) (sy_watching sy)"
  have "sync_wf (sy\<lparr>sy_watching := ?w\<rparr>)"
    using assms(1) hmap_wf_map_values
      [of "sy_watching sy" "\<lambda>phase. if to_stop now (sy_timeout_dur sy) phase then TP_TimedOut else phase"]
    by (simp add: sync_wf_def)
  then show ?thesis
    using assms sync_wf_start_timer
    by (auto simp: client_requests_timed_out_def Let_def split: if_splits prod.splits)
qed

lemma sync_wf_stopped:
  assumes "sync_wf sy" and "stopped_requests env t sy = (rs, sy')"
  shows "sync_wf sy'"
  using assms by (auto simp: stopped_requests_def Let_def sync_wf_def split: option.splits)

lemma sync_wf_begin:
  assumes "sync_wf sy" and "begin_view_change env t nd sy = Inr (sy', nd')"
  shows "sync_wf sy'"
proof -
  define sy1 where "sy1 =
    (case (sy_phase sy, t) of
       (SP_Stopping i, None) \<Rightarrow> sy\<lparr>sy_phase := SP_Stopping2 (i + 1)\<rparr>
     | (SP_Stopping i, Some _) \<Rightarrow> sy\<lparr>sy_phase := SP_Stopping2 i\<rparr>
     | _ \<Rightarrow> sy\<lparr>sy_stopped := [], sy_collects := [], sy_phase := SP_Stopping2 0\<rparr>)"
  have sy1: "sync_wf sy1"
    using assms(1) by (auto simp: sy1_def sync_wf_def split: sync_phase.splits option.splits)
  have "sync_wf (unwatch_all_requests sy1)"
    unfolding unwatch_all_requests_def sync_wf_next_timeout by (rule sy1)
  moreover obtain rs sy2 where "stopped_requests env t (unwatch_all_requests sy1) = (rs, sy2)" by fastforce
  ultimately show ?thesis
    using assms(2) sync_wf_stopped
    unfolding begin_view_change_def sy1_def [symmetric] by (auto simp: Let_def res_simps)
qed

lemma sync_wf_add_stopped:
  assumes "omap_ok (env_omap env)" and "sync_wf sy" and "core_wf env lg c"
    and "add_stopped_loop env rs (sy, lg) = (sy', lg')"
  shows "sync_wf sy' \<and> core_wf env lg' c"
  using assms(2-4)
proof (induction rs arbitrary: sy lg)
  case (Cons r rs)
  from Cons.prems(1) have "sync_wf (sy\<lparr>sy_watching := hmap_insert d TP_TimedOut (sy_watching sy)\<rparr>)" for d
    by (simp add: sync_wf_def)
  from Cons.IH [OF this core_wf_insert [OF assms(1) Cons.prems(2)]] Cons.prems(3) show ?case by simp
qed simp

lemma sync_wf_update:
  assumes "sync_wf sy"
  shows "sync_wf (sy\<lparr>sy_phase := ph\<rparr>)" "sync_wf (sy\<lparr>sy_collects := []\<rparr>)" "sync_wf (sy\<lparr>sy_finalize_state := fs\<rparr>)"
    "sync_wf (install_view view sy)" "sync_wf (sy\<lparr>sy_stopped := hmap_insert i rs (sy_stopped sy)\<rparr>)"
  using assms by (simp_all add: sync_wf_def sync_queue_wf_def install_view_def)

lemma core_wf_declog: "core_wf env lg c \<Longrightarrow> core_wf env (lg\<lparr>lg_declog := dl\<rparr>) c"
  by (simp add: core_wf_def log_wf_def)

lemma finalize_wf:
  fixes env :: "('s, 'o, 'p, 'z) env_scheme"
  assumes "omap_ok (env_omap env)" and "sync_wf sy" and "core_wf env lg c"
    and "finalize env seed state lg c nd sy = Inr (st, sy', lg', c', nd')"
  shows "sync_wf sy' \<and> core_wf env lg' c'"
proof -
  obtain stored dl where dl: "clear_last_occurrences (fs_curr_cid state) (sound_value (fs_sound state)) (lg_declog lg) =
      Inr (stored, dl)"
    using assms(4) by (auto simp: finalize_def res_simps)
  define m :: "('s, 'o, 'p) system_message" where "m = forge_propose
    (case stored of None \<Rightarrow> fs_proposed state
     | Some st \<Rightarrow> (case fst (take_proposed_requests (sm_message st)) of
         Some requests \<Rightarrow> requests | None \<Rightarrow> fs_proposed state)) (sync_view sy) c"
  obtain dig buf where ser: "serialize_digest env m = Inr (dig, buf)"
    using assms(4) by (cases "serialize_digest env m") (auto simp: finalize_def dl Let_def m_def [symmetric])
  obtain h where lg': "lg' = log_insert env h m (lg\<lparr>lg_declog := dl\<rparr>)"
    and c': "finalize_view_change env dig (sync_view sy) lg' nd c = Inr (c', nd')"
    and sy': "sy' = sy\<lparr>sy_tbo := sync_next_instance_queue (sy_tbo sy), sy_phase := SP_Init\<rparr>"
    using assms(4) by (auto simp: finalize_def dl Let_def m_def [symmetric] ser res_simps)
  have "core_wf env lg' c"
    unfolding lg' by (rule core_wf_insert [OF assms(1) core_wf_declog [OF assms(3)]])
  moreover have "sync_wf sy'"
    using assms(2)
    by (simp add: sy' sync_wf_def sync_queue_wf_def sync_next_instance_queue_def tbo_all_advance)
  ultimately show ?thesis using core_wf_finalize_view_change [OF _ c'] by blast
qed

lemma try_finalize_wf:
  assumes "omap_ok (env_omap env)" and "sync_wf sy" and "core_wf env lg c"
    and "try_finalize env seed state lg c nd sy = Inr (st, sy', lg', c', nd')"
  shows "sync_wf sy' \<and> core_wf env lg' c'"
proof (cases "pre_finalize state lg sy")
  case (FS_Commit state')
  then have "finalize env seed state' lg c nd (sy\<lparr>sy_collects := []\<rparr>) = Inr (st, sy', lg', c', nd')"
    using assms(4) by (simp add: try_finalize_def)
  then show ?thesis by (rule finalize_wf [OF assms(1) sync_wf_update(2) [OF assms(2)] assms(3)])
qed (use assms(2-4) in \<open>auto simp: try_finalize_def sync_wf_update\<close>)

lemma resume_view_change_wf:
  assumes "omap_ok (env_omap env)" and "sync_wf sy" and "core_wf env lg c"
    and "resume_view_change env seed lg c nd sy = Inr (st, sy', lg', c', nd')"
  shows "sync_wf sy' \<and> core_wf env lg' c'"
proof (cases "sy_finalize_state sy")
  case (Some state)
  then obtain st' where "try_finalize env seed state lg c nd (sy\<lparr>sy_finalize_state := None\<rparr>) = Inr (st', sy', lg', c', nd')"
    using assms(4) by (auto simp: resume_view_change_def res_simps)
  then show ?thesis by (rule try_finalize_wf [OF assms(1) sync_wf_update(3) [OF assms(2)] assms(3)])
qed (use assms(2-4) in \<open>simp add: resume_view_change_def\<close>)

fun world_wf :: "('s, 'o, 'p, 'z) env_scheme \<Rightarrow> ('s, 'o, 'p) sync_world \<Rightarrow> bool" where
  "world_wf env (sy, th, lg, c, nd) \<longleftrightarrow> sync_wf sy \<and> core_wf env lg c"

lemma stop_quorum_wf:
  assumes "omap_ok (env_omap env)" and "world_wf env w" and "stop_quorum env now w = Inr w'"
  shows "world_wf env w'"
proof -
  obtain sy th lg c nd where w: "w = (sy, th, lg, c, nd)" by (cases w) auto
  obtain rs sy1 where rs: "stopped_requests env None sy = (rs, sy1)" by fastforce
  obtain sy2 lg2 where add: "add_stopped_loop env rs (sy1, lg) = (sy2, lg2)" by fastforce
  obtain sy3 th3 where watch: "watch_all_requests now th sy2 = (sy3, th3)" by fastforce
  have "sync_wf sy2 \<and> core_wf env lg2 c"
    using sync_wf_add_stopped [OF assms(1) sync_wf_stopped [OF _ rs] _ add, of c] assms(2) w by simp
  then have "sync_wf sy3" "core_wf env lg2 c" using sync_wf_watch_all [OF _ watch] by auto
  then show ?thesis
    using assms(3)
    by (auto simp: stop_quorum_def w add_stopped_requests_def rs add watch Let_def res_simps sync_wf_update)
qed

lemma process_stopping_wf:
  assumes "omap_ok (env_omap env)" and "world_wf env w" and "process_stopping env now i h m w = Inr (st, w')"
  shows "world_wf env w'"
proof -
  obtain sy th lg c nd where w: "w = (sy, th, lg, c, nd)" by (cases w) auto
  have wf: "sync_wf sy" "core_wf env lg c" using assms(2) w by simp_all
  show ?thesis
  proof (cases "vc_kind m")
    case (Stop rs)
    let ?sy = "sy\<lparr>sy_stopped := hmap_insert (header_from h) rs (sy_stopped sy)\<rparr>"
    have sy: "sync_wf ?sy" by (rule sync_wf_update(5) [OF wf(1)])
    have quorum: "world_wf env w1" if "stop_quorum env now (?sy, th, lg, c, nd) = Inr w1" for w1
      using stop_quorum_wf [OF assms(1) _ that] sy wf(2) by simp
    have queued: "sync_wf (sy\<lparr>sy_tbo := queue_stop h m (sy_tbo sy)\<rparr>)"
      using sync_wf_queue [OF wf(1)] sync_queue_wf_queue(1) [OF _ Stop] by blast
    show ?thesis
      using assms(2,3) sy queued wf(2) sync_wf_begin [OF sy] quorum sync_wf_update(1) [OF sy]
      by (auto simp: process_stopping_def w Stop Let_def res_simps split: if_splits sync_phase.splits)
  qed (use assms(3) wf in \<open>auto simp: process_stopping_def w sync_wf_queue sync_queue_wf_queue\<close>)
qed

lemma stop_data_quorum_wf:
  assumes "omap_ok (env_omap env)" and "world_wf env w" and "stop_data_quorum env seed w = Inr (st, w')"
  shows "world_wf env w'"
proof -
  obtain sy th lg c nd where w: "w = (sy, th, lg, c, nd)" by (cases w) auto
  have wf: "sync_wf sy" "core_wf env lg c" using assms(2) w by simp_all
  show ?thesis
    using assms(3) wf try_finalize_wf [OF assms(1) wf, of seed] sync_wf_update(2) [OF wf(1)]
    by (auto simp: stop_data_quorum_def w Let_def res_simps split: if_splits)
qed

lemma hmap_insert_values: "snd ` set (hmap_insert k v xs) \<subseteq> insert v (snd ` set xs)"
  by (induction xs) auto

lemma process_stopping_data_wf:
  assumes "omap_ok (env_omap env)" and "world_wf env w" and "process_stopping_data env seed i h m w = Inr (st, w')"
  shows "world_wf env w'"
proof -
  obtain sy th lg c nd where w: "w = (sy, th, lg, c, nd)" by (cases w) auto
  have wf: "sync_wf sy" "core_wf env lg c" using assms(2) w by simp_all
  show ?thesis
  proof (cases "vc_kind m")
    case (StopData cd)
    let ?sy = "sy\<lparr>sy_collects := hmap_insert (header_from h) (StoredMessage h m) (sy_collects sy)\<rparr>"
    have "is_stop_data (StoredMessage h m)" "\<forall>m' \<in> snd ` set (sy_collects sy). is_stop_data m'"
      using wf(1) StopData by (simp_all add: sync_wf_def)
    then have "\<forall>m' \<in> snd ` set (sy_collects ?sy). is_stop_data m'"
      using hmap_insert_values [of "header_from h" "StoredMessage h m" "sy_collects sy"] by fastforce
    then have sy: "sync_wf ?sy" using wf(1) by (simp add: sync_wf_def)
    have quorum: "world_wf env w1" if "stop_data_quorum env seed (?sy, th, lg, c, nd) = Inr (st, w1)" for w1
      using stop_data_quorum_wf [OF assms(1) _ that] sy wf(2) by simp
    have queued: "sync_wf (sy\<lparr>sy_tbo := queue_stop_data h m (sy_tbo sy)\<rparr>)"
      using sync_wf_queue [OF wf(1)] sync_queue_wf_queue(2) [OF _ StopData] by blast
    show ?thesis
      using assms(2,3) queued wf(2) quorum sync_wf_update(1) [OF sy]
      by (auto simp: process_stopping_data_def w StopData Let_def split: if_splits)
  qed (use assms(3) wf in \<open>auto simp: process_stopping_data_def w sync_wf_queue sync_queue_wf_queue\<close>)
qed

lemma process_syncing_wf:
  assumes "omap_ok (env_omap env)" and "world_wf env w" and "process_syncing env seed h m w = Inr (st, w')"
  shows "world_wf env w'"
proof -
  obtain sy th lg c nd where w: "w = (sy, th, lg, c, nd)" by (cases w) auto
  have wf: "sync_wf sy" "core_wf env lg c" using assms(2) w by simp_all
  show ?thesis
    using assms(3) wf try_finalize_wf [OF assms(1) wf, of seed]
    by (cases "vc_kind m")
      (auto simp: process_syncing_def w Let_def res_simps sync_wf_queue sync_queue_wf_queue split: if_splits)
qed

lemma sync_process_message_wf:
  assumes "omap_ok (env_omap env)" and "world_wf env w" and "sync_process_message env now seed h m w = Inr (st, w')"
  shows "world_wf env w'"
  using assms(2,3) process_stopping_wf [OF assms(1,2)] process_stopping_data_wf [OF assms(1,2)]
    process_syncing_wf [OF assms(1,2)]
  by (cases w) (auto simp: sync_process_message_def split: sync_phase.splits)

lemma sync_wf_poll:
  assumes "sync_wf sy" and "sync_poll sy = (st, sy')"
  shows "sync_wf sy'"
  using assms
  by (auto simp: sync_poll_def extract_stop_def extract_stop_data_def extract_sync_def sync_wf_def sync_queue_wf_def
      split: if_splits sync_phase.splits prod.splits option.splits elim: tbo_popped_keeps)

section \<open>State transfer\<close>

lemma cst_wf_process:
  assumes "hmap_wf (ct_received_states ct)" and "cst_process_message env pr view c lg nd ct = Inr (st, ct', nd')"
  shows "hmap_wf (ct_received_states ct')"
proof (cases "ct_phase ct")
  case (Cst_ReceivingCid i)
  then show ?thesis
    using assms
    by (auto simp: cst_process_message_def cst_process_cid_def receive_cid_def Let_def
        split: cst_progress.splits if_splits cst_message_kind.splits ordering.splits)
next
  case (Cst_ReceivingState i)
  have "hmap_wf (count_state d rs received)" if "hmap_wf received" for d rs and received :: "(digest, ('a, 'b) received_state) hmap"
    using that by (simp add: count_state_def split: option.split)
  then show ?thesis
    using assms Cst_ReceivingState
    by (auto simp: cst_process_message_def cst_process_state_def Let_def
        split: cst_progress.splits if_splits option.splits prod.splits)
qed (use assms in \<open>auto simp: cst_process_message_def cst_process_init_def process_reply_state_def res_simps
      split: cst_progress.splits cst_message_kind.splits sum.splits\<close>)

lemma cst_wf_request:
  "request_latest_consensus_seq_no env view th nd ct = Inr (ct', th', nd') \<Longrightarrow>
    hmap_wf (ct_received_states ct) \<Longrightarrow> hmap_wf (ct_received_states ct')"
  "request_latest_state env view th nd ct = Inr (ct', th', nd') \<Longrightarrow> hmap_wf (ct_received_states ct')"
  by (auto simp: request_latest_consensus_seq_no_def request_latest_state_def cst_next_seq_def Let_def res_simps)

lemma cst_wf_timed_out:
  "cst_timed_out s ct = (st, ct') \<Longrightarrow> hmap_wf (ct_received_states ct) \<Longrightarrow> hmap_wf (ct_received_states ct')"
  by (auto simp: cst_timed_out_def split: if_splits cst_phase.splits)

lemma install_recovery_wf:
  assumes "sync_wf sy" and "core_wf env lg c" and "install_recovery_state rs sy lg eh c = Inr (sy', lg', eh', c')"
  shows "sync_wf sy' \<and> core_wf env lg' c'"
proof -
  obtain s c1 where c1: "install_sequence_number s c = Inr c1" "c' = consensus_signal c1"
    using assms(3) by (auto simp: install_recovery_state_def install_new_phase_def Let_def res_simps)
  have "core_wf env lg c'" unfolding c1(2) core_wf_signal by (rule core_wf_install [OF assms(2) c1(1)])
  moreover have "sy' = install_view (rs_view rs) sy" "lg' = log_install_state (co_seq c') rs lg"
    using assms(3) by (auto simp: install_recovery_state_def Let_def res_simps)
  ultimately show ?thesis
    using sync_wf_update(4) [OF assms(1)] by (simp add: core_wf_def log_wf_def log_install_state_def)
qed

section \<open>The replica\<close>

lemma replica_wf_node [simp]: "replica_wf env (r\<lparr>rp_node := nd\<rparr>) = replica_wf env r"
  by (simp add: replica_wf_def)

lemma replica_wf_phase [simp]: "replica_wf env (r\<lparr>rp_phase := p\<rparr>) = replica_wf env r"
  "replica_wf env (r\<lparr>rp_phase_stack := q\<rparr>) = replica_wf env r"
  by (simp_all add: replica_wf_def)

lemma replica_wf_queue [simp]:
  "replica_wf env r \<Longrightarrow> replica_wf env (r\<lparr>rp_consensus := consensus_queue h m (rp_consensus r)\<rparr>)"
  "replica_wf env r \<Longrightarrow> replica_wf env (r\<lparr>rp_synchronizer := sync_queue_message h v (rp_synchronizer r)\<rparr>)"
  by (simp_all add: replica_wf_def)

lemma request_received_wf:
  assumes "omap_ok (env_omap env)" and "replica_wf env r"
  shows "replica_wf env (request_received env now h m r)"
proof -
  obtain sy th where w: "watch_request now (unique_digest env h) (rp_timeouts r) (rp_synchronizer r) = (sy, th)"
    by fastforce
  then have "sync_wf sy" using assms(2) sync_wf_watch by (auto simp: watch_request_def replica_wf_def)
  then show ?thesis
    using assms by (simp add: request_received_def w replica_wf_def core_wf_insert)
qed

lemma forwarded_requests_received_wf:
  assumes "omap_ok (env_omap env)" and "replica_wf env r"
  shows "replica_wf env (forwarded_requests_received env now rs r)"
proof -
  obtain sy th lg where w: "watch_forwarded_requests env now rs (rp_timeouts r) (rp_log r) (rp_synchronizer r) =
      (sy, th, lg)"
    by (metis prod_cases3)
  have "sync_wf sy \<and> core_wf env lg (rp_consensus r)"
    using sync_wf_watch_forwarded [OF assms(1) _ _ w [unfolded watch_forwarded_requests_def], of "rp_consensus r"] assms(2)
    by (simp add: replica_wf_def)
  then show ?thesis using assms(2) by (simp add: forwarded_requests_received_def w replica_wf_def)
qed

lemma cst_message_received_wf:
  "replica_wf env r \<Longrightarrow> cst_message_received env pr r = Inr (st, r') \<Longrightarrow> replica_wf env r'"
  by (auto simp: cst_message_received_def replica_wf_def res_simps intro: cst_wf_process)

lemma view_change_received_wf:
  assumes "omap_ok (env_omap env)" and "replica_wf env r" and "view_change_received env now seed h m r = Inr (st, r')"
  shows "replica_wf env r'"
proof -
  obtain sy th lg c nd where p: "sync_process_message env now seed h m
      (rp_synchronizer r, rp_timeouts r, rp_log r, rp_consensus r, rp_node r) = Inr (st, sy, th, lg, c, nd)"
    and r': "r' = r\<lparr>rp_synchronizer := sync_signal sy, rp_timeouts := th, rp_log := lg, rp_consensus := c, rp_node := nd\<rparr>"
    using assms(3) by (auto simp: view_change_received_def res_simps)
  show ?thesis
    using sync_process_message_wf [OF assms(1) _ p] assms(2) by (simp add: r' replica_wf_def)
qed

lemma execution_finished_wf:
  "replica_wf env r \<Longrightarrow> execution_finished env batch r = Inr r' \<Longrightarrow> replica_wf env r'"
  by (auto simp: execution_finished_def res_simps)

lemma execution_finished_with_appstate_wf:
  assumes "replica_wf env r" and "execution_finished_with_appstate env batch st r = Inr r'"
  shows "replica_wf env r'"
proof -
  obtain lg r1 where lg: "finalize_checkpoint st (rp_log r) = Inr lg"
    and r1: "execution_finished env batch (r\<lparr>rp_log := lg\<rparr>) = Inr r1"
    and r': "r' = r1 \<or> (\<exists>st. cst_message_received env Progress_Nil r1 = Inr (st, r'))"
    using assms(2) by (auto simp: execution_finished_with_appstate_def res_simps split: if_splits)
  have "replica_wf env (r\<lparr>rp_log := lg\<rparr>)"
    using assms(1) core_wf_finalize_checkpoint [OF _ lg, of env] by (simp add: replica_wf_def)
  then have "replica_wf env r1" using r1 by (rule execution_finished_wf)
  then show ?thesis using r' cst_message_received_wf by blast
qed

lemma request_cst_wf:
  "replica_wf env r \<Longrightarrow> request_cid env r = Inr r' \<Longrightarrow> replica_wf env r'"
  "replica_wf env r \<Longrightarrow> request_state env r = Inr r' \<Longrightarrow> replica_wf env r'"
  using cst_wf_request by (auto simp: request_cid_def request_state_def replica_wf_def res_simps)

lemma timeout_received_wf:
  assumes "replica_wf env r" and "timeout_received env now kind r = Inr r'"
  shows "replica_wf env r'"
proof (cases kind)
  case (Timeout_Cst s)
  obtain st ct where t: "cst_timed_out s (rp_cst r) = (st, ct)" by fastforce
  have wf: "replica_wf env (r\<lparr>rp_cst := ct\<rparr>)" using assms(1) cst_wf_timed_out [OF t] by (simp add: replica_wf_def)
  then show ?thesis
    using assms(2) request_cst_wf [OF wf]
    by (auto simp: timeout_received_def Timeout_Cst cst_timeout_received_def t Let_def res_simps
        split: cst_status.splits)
next
  case (Timeout_ClientRequests s)
  obtain st sy th where t: "client_requests_timed_out env now s (rp_timeouts r) (rp_synchronizer r) = (st, sy, th)"
    by (metis prod_cases3)
  have wf: "sync_wf sy" using assms(1) sync_wf_timed_out [OF _ t] by (simp add: replica_wf_def)
  show ?thesis
    using assms wf sync_wf_begin [OF wf]
    by (auto simp: timeout_received_def Timeout_ClientRequests requests_timeout_received_def t Let_def res_simps
        replica_wf_def split: sync_status.splits if_splits)
qed

lemma connected_wf:
  "replica_wf env (connected_tx_received i sock r) = replica_wf env r"
  "replica_wf env r \<Longrightarrow> connected_rx_received i sock r = Inr r' \<Longrightarrow> replica_wf env r'"
  by (auto simp: connected_tx_received_def connected_rx_received_def res_simps)

lemma retrieving_cst_wf:
  assumes "replica_wf env r" and "retrieving_cst env st r = Inr r'"
  shows "replica_wf env r'"
proof (cases st)
  case (CT_State rs)
  then obtain sy lg eh c where i: "install_recovery_state rs (rp_synchronizer r) (rp_log r) (rp_executor r) (rp_consensus r) =
      Inr (sy, lg, eh, c)"
    and r': "r' = r\<lparr>rp_synchronizer := sy, rp_log := lg, rp_executor := eh, rp_consensus := c,
      rp_phase := (case rp_phase_stack r of Some phase \<Rightarrow> phase | None \<Rightarrow> NormalPhase), rp_phase_stack := None\<rparr>"
    using assms(2) by (auto simp: retrieving_cst_def res_simps)
  show ?thesis using install_recovery_wf [OF _ _ i, of env] assms(1) by (simp add: r' replica_wf_def)
next
  case (CT_SeqNo s)
  have "replica_wf env (r\<lparr>rp_consensus := c\<rparr>)" if "install_sequence_number s (rp_consensus r) = Inr c" for c
    using assms(1) core_wf_install [OF _ that, of env "rp_log r"] by (simp add: replica_wf_def)
  then show ?thesis
    using assms CT_SeqNo request_cst_wf(2) by (auto simp: retrieving_cst_def res_simps split: if_splits)
qed (use assms request_cst_wf in \<open>auto simp: retrieving_cst_def invalid_state_def\<close>)

lemmas received_wf = request_received_wf forwarded_requests_received_wf

lemmas handled_wf = execution_finished_wf execution_finished_with_appstate_wf timeout_received_wf connected_wf(2)

lemma update_retrieving_state_wf:
  assumes "omap_ok (env_omap env)" and "replica_wf env r" and "update_retrieving_state env now m r = Inr r'"
  shows "replica_wf env r'"
proof (cases m)
  case (System h sm)
  show ?thesis
  proof (cases sm)
    case (SM_Cst cm)
    then obtain st r1 where c: "cst_message_received env (Progress_Message h cm) r = Inr (st, r1)"
      and r: "retrieving_cst env st r1 = Inr r'"
      using assms(3) System by (auto simp: update_retrieving_state_def res_simps)
    show ?thesis by (rule retrieving_cst_wf [OF cst_message_received_wf [OF assms(2) c] r])
  qed (use assms System in \<open>auto simp: update_retrieving_state_def received_wf\<close>)
qed (use assms(2,3) handled_wf [OF assms(2)] in \<open>auto simp: update_retrieving_state_def connected_wf(1)\<close>)

lemma sync_next_message_wf:
  assumes "omap_ok (env_omap env)" and "replica_wf env r" and "sync_next_message env seed r = Inr (nx, r')"
  shows "replica_wf env r'"
proof -
  obtain st sy where p: "sync_poll (rp_synchronizer r) = (st, sy)" by fastforce
  have wf: "sync_wf sy" "core_wf env (rp_log r) (rp_consensus r)"
    using assms(2) sync_wf_poll [OF _ p] by (simp_all add: replica_wf_def)
  show ?thesis
    using assms(2,3) wf resume_view_change_wf [OF assms(1) wf, of seed]
    by (cases st) (auto simp: sync_next_message_def p res_simps replica_wf_def)
qed

lemma sync_handle_view_change_wf:
  "replica_wf env r \<Longrightarrow> sync_handle_view_change st r = Inr (b, r') \<Longrightarrow> replica_wf env r'"
  by (auto simp: sync_handle_view_change_def invalid_state_def split: sync_status.splits)

lemma sync_phase_cst_Inr: "sync_phase_cst st r = Inr r' \<longleftrightarrow> st = CT_Nil \<and> r' = r"
  by (cases st) (auto simp: sync_phase_cst_def invalid_state_def)

lemma running_Inr: "running x = Inr (b, r) \<longleftrightarrow> b \<and> x = Inr r"
  by (auto simp: running_def res_simps)

lemma update_sync_phase_wf:
  assumes "omap_ok (env_omap env)" and "replica_wf env r" and "update_sync_phase env now seed m r = Inr (b, r')"
  shows "replica_wf env r'"
proof (cases m)
  case (System h sm)
  show ?thesis
  proof (cases sm)
    case (SM_Cst cm)
    then show ?thesis
      using assms(2,3) System cst_message_received_wf [OF assms(2)]
      by (auto simp: update_sync_phase_def running_Inr res_simps sync_phase_cst_Inr)
  next
    case (SM_ViewChange vm)
    then obtain st r1 where v: "view_change_received env now seed h vm r = Inr (st, r1)"
      and r: "sync_handle_view_change st r1 = Inr (b, r')"
      using assms(3) System by (auto simp: update_sync_phase_def res_simps)
    show ?thesis by (rule sync_handle_view_change_wf [OF view_change_received_wf [OF assms(1,2) v] r])
  qed (use assms System in \<open>auto simp: update_sync_phase_def received_wf\<close>)
qed (use assms(2,3) handled_wf [OF assms(2)] in \<open>auto simp: update_sync_phase_def running_Inr connected_wf(1)\<close>)

lemma execute_decided_wf:
  assumes "omap_ok (env_omap env)" and "replica_wf env r" and "execute_decided env s ds r = Inr r'"
  shows "replica_wf env r'"
proof -
  obtain x lg where "finalize_batch env s ds (rp_log r) = Inr (x, lg)"
    and r': "rp_log r' = lg" "rp_consensus r' = next_instance (rp_consensus r)"
      "rp_synchronizer r' = fold unwatch_request ds (rp_synchronizer r)" "rp_cst r' = rp_cst r"
    using assms(3) by (auto simp: execute_decided_def Let_def res_simps)
  moreover have "core_wf env (rp_log r) (rp_consensus r)" "sync_wf (rp_synchronizer r)"
    "hmap_wf (ct_received_states (rp_cst r))"
    using assms(2) by (simp_all add: replica_wf_def)
  ultimately show ?thesis
    using core_wf_next_instance [OF core_wf_finalize_batch [OF assms(1)]] sync_wf_unwatch_fold
    unfolding replica_wf_def by metis
qed

lemma normal_consensus_cases:
  assumes "normal_consensus env h m r = Inr r'"
  obtains st c lg nd r1 where "consensus_process_message env h m (rp_view r) (rp_log r) (rp_node r) (rp_consensus r) =
      Inr (st, c, lg, nd)"
    and "r1 = r\<lparr>rp_consensus := c, rp_log := lg, rp_node := nd\<rparr> \<or>
      (\<exists>ds. execute_decided env (co_seq (rp_consensus r)) ds (r\<lparr>rp_consensus := c, rp_log := lg, rp_node := nd\<rparr>) = Inr r1)"
    and "r' = r1\<lparr>rp_consensus := consensus_signal (rp_consensus r1)\<rparr>"
proof -
  obtain st c lg nd where p: "consensus_process_message env h m (rp_view r) (rp_log r) (rp_node r) (rp_consensus r) =
      Inr (st, c, lg, nd)"
    using assms by (auto simp: normal_consensus_def res_simps)
  let ?r = "r\<lparr>rp_consensus := c, rp_log := lg, rp_node := nd\<rparr>"
  obtain r1 where "(case st of CS_Deciding \<Rightarrow> Inr ?r | CS_VotedTwice _ \<Rightarrow> Inl (Panic ''not yet implemented'')
      | CS_Decided ds \<Rightarrow> execute_decided env (co_seq (rp_consensus r)) ds ?r) = Inr r1"
    and r': "r' = r1\<lparr>rp_consensus := consensus_signal (rp_consensus r1)\<rparr>"
    using assms by (auto simp: normal_consensus_def p Let_def bind_res_eq_Inr)
  then have "r1 = ?r \<or> (\<exists>ds. execute_decided env (co_seq (rp_consensus r)) ds ?r = Inr r1)"
    by (cases st) auto
  then show thesis using that p r' by blast
qed

lemma normal_consensus_wf:
  assumes "omap_ok (env_omap env)" and "replica_wf env r" and "normal_consensus env h m r = Inr r'"
  shows "replica_wf env r'"
proof -
  obtain st c lg nd r1 where p: "consensus_process_message env h m (rp_view r) (rp_log r) (rp_node r) (rp_consensus r) =
      Inr (st, c, lg, nd)"
    and r1: "r1 = r\<lparr>rp_consensus := c, rp_log := lg, rp_node := nd\<rparr> \<or>
      (\<exists>ds. execute_decided env (co_seq (rp_consensus r)) ds (r\<lparr>rp_consensus := c, rp_log := lg, rp_node := nd\<rparr>) = Inr r1)"
    and r': "r' = r1\<lparr>rp_consensus := consensus_signal (rp_consensus r1)\<rparr>"
    using assms(3) by (rule normal_consensus_cases)
  have "replica_wf env (r\<lparr>rp_consensus := c, rp_log := lg, rp_node := nd\<rparr>)"
    using assms(2) core_wf_process [OF _ p] by (simp add: replica_wf_def)
  then have "replica_wf env r1" using r1 execute_decided_wf [OF assms(1)] by blast
  then show ?thesis by (simp add: r' replica_wf_def)
qed

lemma normal_view_change_wf:
  "replica_wf env r \<Longrightarrow> normal_view_change st r = Inr r' \<Longrightarrow> replica_wf env r'"
  by (auto simp: normal_view_change_def invalid_state_def split: sync_status.splits)

lemma update_normal_phase_wf:
  assumes "omap_ok (env_omap env)" and "replica_wf env r" and "update_normal_phase env now seed m r = Inr r'"
  shows "replica_wf env r'"
proof (cases m)
  case (System h sm)
  show ?thesis
  proof (cases sm)
    case (SM_Cst cm)
    then show ?thesis
      using assms(2,3) System cst_message_received_wf [OF assms(2)]
      by (auto simp: update_normal_phase_def res_simps sync_phase_cst_Inr)
  next
    case (SM_ViewChange vm)
    then obtain st r1 where v: "view_change_received env now seed h vm r = Inr (st, r1)"
      and r: "normal_view_change st r1 = Inr r'"
      using assms(3) System by (auto simp: update_normal_phase_def res_simps)
    show ?thesis by (rule normal_view_change_wf [OF view_change_received_wf [OF assms(1,2) v] r])
  qed (use assms System normal_consensus_wf [OF assms(1,2)] in \<open>auto simp: update_normal_phase_def received_wf\<close>)
qed (use assms(2,3) handled_wf [OF assms(2)] in \<open>auto simp: update_normal_phase_def connected_wf(1)\<close>)

lemma normal_next_message_wf:
  assumes "omap_ok (env_omap env)" and "replica_wf env r" and "normal_next_message env r = Inr (nx, r')"
  shows "replica_wf env r'"
proof -
  obtain st c where p: "consensus_poll env (rp_log r) (rp_consensus r) = (st, c)" by fastforce
  obtain ds lg where b: "next_batch env (rp_log r) = (ds, lg)" by fastforce
  have c: "core_wf env (rp_log r) c" using assms(2) core_wf_poll [OF _ p] by (simp add: replica_wf_def)
  then have lg: "core_wf env lg c" by (rule core_wf_next_batch [OF assms(1) _ b])
  show ?thesis
    using assms(2,3) c lg core_wf_propose [OF lg]
    by (cases st; cases ds) (auto simp: normal_next_message_def p b res_simps replica_wf_def)
qed

lemma begin_normal_wf:
  assumes "omap_ok (env_omap env)" and "replica_wf env r" and "begin_normal env now seed r = Inr (at, r')"
  shows "replica_wf env r'"
proof -
  obtain nx r1 where n: "normal_next_message env r = Inr (nx, r1)"
    using assms(3) by (auto simp: begin_normal_def res_simps)
  have "replica_wf env r1" by (rule normal_next_message_wf [OF assms(1,2) n])
  then show ?thesis
    using assms(3) update_normal_phase_wf [OF assms(1), of r1 now seed]
    by (cases nx) (auto simp: begin_normal_def n iteration_done_def res_simps)
qed

lemma after_stops_wf:
  assumes "omap_ok (env_omap env)" and "replica_wf env r" and "after_stops env now seed b r = Inr (at, r')"
  shows "replica_wf env r'"
  using assms begin_normal_wf [OF assms(1,2), of now seed at r'] by (auto simp: after_stops_def split: if_splits)

text \<open>The synchronisation step, from its poll to what is done with its result.\<close>

lemma sync_step_wf:
  assumes "omap_ok (env_omap env)" and "replica_wf env r"
    and "bind_res (sync_next_message env seed r) (\<lambda>(nx, r). case nx of
        Recv \<Rightarrow> Inr (Some a, r)
      | Got m \<Rightarrow> bind_res (update_sync_phase env now seed m r) (\<lambda>(b, r). f b r)
      | Returned b \<Rightarrow> f b r) = Inr (at, r')"
    and "\<And>b r at r'. replica_wf env r \<Longrightarrow> f b r = Inr (at, r') \<Longrightarrow> replica_wf env r'"
  shows "replica_wf env r'"
proof -
  obtain nx r1 where n: "sync_next_message env seed r = Inr (nx, r1)"
    using assms(3) by (auto simp: res_simps)
  have r1: "replica_wf env r1" by (rule sync_next_message_wf [OF assms(1,2) n])
  show ?thesis
  proof (cases nx)
    case (Got m)
    then obtain b r2 where u: "update_sync_phase env now seed m r1 = Inr (b, r2)" and f: "f b r2 = Inr (at, r')"
      using assms(3) n by (auto simp: res_simps)
    show ?thesis by (rule assms(4) [OF update_sync_phase_wf [OF assms(1) r1 u] f])
  next
    case (Returned b)
    then have "f b r1 = Inr (at, r')" using assms(3) n by simp
    then show ?thesis by (rule assms(4) [OF r1])
  qed (use assms(3) n r1 in simp)
qed

lemma run_phase_wf:
  assumes "omap_ok (env_omap env)" and "replica_wf env r" and "run_phase env now seed r = Inr (at, r')"
  shows "replica_wf env r'"
proof (cases "rp_phase r")
  case RetrievingState
  then show ?thesis using assms(2,3) by (simp add: run_phase_def)
next
  case SyncPhase
  then show ?thesis
    using sync_step_wf [OF assms(1,2), of seed At_Sync now "\<lambda>b r. Inr (None, r)" at r'] assms(3)
    by (simp add: run_phase_def)
next
  case NormalPhase
  show ?thesis
  proof (cases "can_process_stops (sy_tbo (rp_synchronizer r))")
    case True
    show ?thesis
      by (rule sync_step_wf [OF assms(1,2), of seed At_Stops now "after_stops env now seed" at r'])
        (use assms(3) NormalPhase True after_stops_wf [OF assms(1)] in \<open>simp_all add: run_phase_def\<close>)
  next
    case False
    then have "begin_normal env now seed r = Inr (at, r')" using assms(3) NormalPhase by (simp add: run_phase_def)
    then show ?thesis by (rule begin_normal_wf [OF assms(1,2)])
  qed
qed

lemma resume_phase_wf:
  assumes "omap_ok (env_omap env)" and "replica_wf env r" and "resume_phase env now seed at m r = Inr (at', r')"
  shows "replica_wf env r'"
proof (cases at)
  case At_Retrieving
  then have "update_retrieving_state env now m r = Inr r'"
    using assms(3) by (auto simp: resume_phase_def iteration_done_def res_simps)
  then show ?thesis by (rule update_retrieving_state_wf [OF assms(1,2)])
next
  case At_Sync
  then obtain b where "update_sync_phase env now seed m r = Inr (b, r')"
    using assms(3) by (auto simp: resume_phase_def res_simps)
  then show ?thesis by (rule update_sync_phase_wf [OF assms(1,2)])
next
  case At_Stops
  then obtain b r1 where u: "update_sync_phase env now seed m r = Inr (b, r1)"
    and a: "after_stops env now seed b r1 = Inr (at', r')"
    using assms(3) by (auto simp: resume_phase_def res_simps)
  show ?thesis by (rule after_stops_wf [OF assms(1) update_sync_phase_wf [OF assms(1,2) u] a])
next
  case At_Normal
  then have "update_normal_phase env now seed m r = Inr r'"
    using assms(3) by (auto simp: resume_phase_def iteration_done_def res_simps)
  then show ?thesis by (rule update_normal_phase_wf [OF assms(1,2)])
qed

section \<open>Runs of a replica\<close>

text \<open>
  What happens to a running replica: messages arrive on its channel, and its main loop makes
  a step, at some time and with some random seed.
\<close>

inductive main_step :: "('s, 'o, 'p, 'z) env_scheme \<Rightarrow> ('s, 'o, 'p) task \<Rightarrow> ('s, 'o, 'p) task \<Rightarrow> bool"
  for env where
  ms_arrive: "main_step env (at, r) (at, r\<lparr>rp_node := (rp_node r)\<lparr>nd_rx := nd_rx (rp_node r) @ ms\<rparr>\<rparr>)"
| ms_step: "replica_step env now seed t = Some (Inr t') \<Longrightarrow> main_step env t t'"

lemma replica_step_wf:
  assumes "omap_ok (env_omap env)" and "replica_wf env r" and "replica_step env now seed (at, r) = Some (Inr (at', r'))"
  shows "replica_wf env r'"
proof (cases at)
  case None
  then have "run_phase env now seed r = Inr (at', r')" using assms(3) by simp
  then show ?thesis by (rule run_phase_wf [OF assms(1,2)])
next
  case (Some a)
  then obtain m nd where r: "resume_phase env now seed a m (r\<lparr>rp_node := nd\<rparr>) = Inr (at', r')"
    using assms(3) by auto
  show ?thesis by (rule resume_phase_wf [OF assms(1) _ r]) (simp add: assms(2))
qed

interpretation wellformed: kept_invariant "main_step env" "\<lambda>(at, r). omap_ok (env_omap env) \<and> replica_wf env r"
proof unfold_locales
  fix t t'
  assume inv: "case t of (at, r) \<Rightarrow> omap_ok (env_omap env) \<and> replica_wf env r" and step: "main_step env t t'"
  from step inv show "case t' of (at, r) \<Rightarrow> omap_ok (env_omap env) \<and> replica_wf env r"
  proof cases
    case (ms_step now seed)
    obtain at r at' r' where "t = (at, r)" "t' = (at', r')" by fastforce
    then show ?thesis using inv ms_step replica_step_wf [of env r now seed at at' r'] by simp
  qed auto
qed

lemma replica_new_wf: "replica_wf env (replica_new view s n eh nd)"
  by (simp add: replica_wf_def replica_new_def core_wf_new sync_wf_new cst_new_def)

lemma rogue_loop_wf:
  assumes "omap_ok (env_omap env)" and "replica_wf env r" and "rogue_loop env now ms r = Inr r'"
  shows "replica_wf env r'"
  using assms(2,3)
proof (induction ms arbitrary: r)
  case (Cons m ms)
  obtain r1 where r1: "rogue_loop env now ms r1 = Inr r'" and step: "(case m of
      System h m \<Rightarrow>
        (case m of
           SM_Request request \<Rightarrow> Inr (request_received env now h request r)
         | SM_Consensus m \<Rightarrow> Inr (r\<lparr>rp_consensus := consensus_queue h m (rp_consensus r)\<rparr>)
         | SM_Reply _ \<Rightarrow> Inl (Panic ''Rogue reply message detected'')
         | SM_Cst _ \<Rightarrow> Inl (Panic ''Rogue cst message detected'')
         | SM_ViewChange _ \<Rightarrow> Inl (Panic ''Rogue view change message detected'')
         | SM_ForwardedRequests _ \<Rightarrow> Inl (Panic ''Rogue forwarded requests message detected''))
    | _ \<Rightarrow> Inr r) = Inr r1"
    using Cons.prems(2) by (auto simp: bind_res_eq_Inr)
  have "replica_wf env r1"
    using step Cons.prems(1) request_received_wf [OF assms(1) Cons.prems(1)]
    by (auto split: message.splits system_message.splits)
  then show ?case using r1 by (rule Cons.IH)
qed simp

lemma replica_bootstrap_wf:
  assumes "omap_ok (env_omap env)" and "replica_bootstrap env sv cfg bound seed now rx = Inr (Some (ex, r))"
  shows "replica_wf env r"
proof -
  obtain view s n eh nd rogue where "rogue_loop env now rogue (replica_new view s n eh nd) = Inr r"
    using assms(2) by (auto simp: replica_bootstrap_def res_simps split: option.splits)
  then show ?thesis using rogue_loop_wf [OF assms(1) replica_new_wf] by blast
qed

section \<open>Properties\<close>

text \<open>
  C6. Replicas stay well formed. Take a replica that has bootstrapped, and let messages of
  any content arrive and its main loop make any number of steps, at any times: consensus,
  view changes, state transfer, checkpoints, timeouts and new connections included. As long
  as it has not failed, every client request it holds is in one place of the log, under its
  own digest; every queued consensus message waits in the queue of its kind and the slot of
  its instance, and every queued view change message in the queue of its kind; the digests of
  the batch being decided fit the buffer, whose size is the batch size of the log; and no
  hash map has a key twice.
\<close>

theorem replica_stays_wf:
  assumes "omap_ok (env_omap env)"
    and "replica_bootstrap env sv cfg bound seed now rx = Inr (Some (ex, r))"
    and "(main_step env)\<^sup>*\<^sup>* (None, r) (at, r')"
  shows "replica_wf env r'"
  using wellformed.reachable_kept [OF assms(3)] replica_bootstrap_wf [OF assms(1,2)] assms(1) by simp

definition example_replica_config :: "nat replica_config" where
  "example_replica_config = \<lparr>rc_service = 0, rc_view = SeqNo 0, rc_next_consensus_seq = SeqNo 0,
     rc_batch_size = 1, rc_node = example_config\<rparr>"

definition example_sum :: "(nat, nat, nat, nat) service" where
  "example_sum = \<lparr>sv_initial_state = (\<lambda>v. (Inr 0, v)), sv_update = (\<lambda>v st x. (st, st + x, v))\<rparr>"

lemma rogue_loop_other: "\<forall>m \<in> set ms. \<forall>h s. m \<noteq> System h s \<Longrightarrow> rogue_loop env now ms r = Inr r"
  by (induction ms) (auto split: message.splits)

lemma example_replica:
  "\<exists>nd r. replica_bootstrap (example_env :: (nat, nat, nat) env) example_sum example_replica_config (Inr ())
      (1, 2, 3, 4) 0 example_connections =
    Inr (Some (\<lparr>ex_service = 0, ex_state = 0, ex_spawned = []\<rparr>, r)) \<and>
    r = replica_new (example_view (SeqNo 0)) (SeqNo 0) 1 \<lparr>eh_queue = [], eh_connected = True\<rparr> nd"
proof -
  have cfg: "nc_n example_config = 4" "nc_f example_config = 1" "nc_id example_config = NodeId 0"
    "nc_first_cli example_config = NodeId 1000"
    "nc_addrs example_config = map (\<lambda>i. (NodeId i, ''localhost'')) [0, 1, 2, 3]"
    by (simp_all add: example_config_def)
  have peers: "peer_of 4 (NodeId 0) i \<longleftrightarrow> i \<in> {NodeId 1, NodeId 2, NodeId 3}" for i
    by (auto simp: peer_of_def four_nodes)
  have "hmap_contains (map (\<lambda>i. (NodeId i, ''localhost'')) [0, 1, 2, 3]) i" if "node_to_usize i < 4 \<or> i = NodeId 0" for i
    using that by (auto simp: four_nodes hmap_contains_def)
  moreover have "\<forall>m \<in> set example_connections. bootstrap_message 4 (NodeId 0) m"
    by (simp add: example_connections_def peers)
  moreover have "\<forall>i. peer_of 4 (NodeId 0) i \<longrightarrow>
      length (filter (connection_of i) example_connections) = 2 \<and>
      (\<exists>sock. ConnectedTx i sock \<in> set example_connections) \<and>
      (\<exists>sock. ConnectedRx i sock \<in> set example_connections)"
    by (auto simp: peers example_connections_def)
  ultimately have "\<exists>nd rogue. node_bootstrap example_config (Inr ()) (1, 2, 3, 4) example_connections =
      Inr (Some (nd, rogue)) \<and> rogue @ nd_rx nd = filter (\<lambda>m. \<not> is_connection m) example_connections"
    using node_bootstrap_ok [of example_config example_connections "(1, 2, 3, 4)"]
    by (simp add: cfg node_to_usize_def) blast
  moreover have "filter (\<lambda>m. \<not> is_connection m) example_connections =
      [Timeout (Timeout_Cst (SeqNo 0)), ExecutionFinished []]"
    by (simp add: example_connections_def)
  ultimately obtain nd rogue where
    nd: "node_bootstrap example_config (Inr ()) (1, 2, 3, 4) example_connections = Inr (Some (nd, rogue))"
    and rogue: "rogue @ nd_rx nd = [Timeout (Timeout_Cst (SeqNo 0)), ExecutionFinished []]"
    by metis
  have "set rogue \<subseteq> set (rogue @ nd_rx nd)" by simp
  then have "\<forall>m \<in> set rogue. \<forall>h s. m \<noteq> System h s" unfolding rogue by auto
  note rogue_loop_other [OF this, of "example_env :: (nat, nat, nat) env" 0]
  moreover have "view_new (SeqNo 0) 4 1 = Inr (example_view (SeqNo 0))"
    by (simp add: view_new_def system_params_new_def usize_wrap_def example_view_def)
  ultimately show ?thesis
    by (simp add: replica_bootstrap_def example_replica_config_def nd executor_new_def example_sum_def cfg) blast
qed

theorem replica_stays_wf_witness:
  "\<exists>ex r r'. replica_bootstrap (example_env :: (nat, nat, nat) env) example_sum example_replica_config (Inr ())
      (1, 2, 3, 4) 0 example_connections = Inr (Some (ex, r)) \<and>
    (main_step example_env)\<^sup>*\<^sup>* (None, r) (Some At_Normal, r') \<and> replica_wf example_env r'"
proof -
  let ?env = "example_env :: (nat, nat, nat) env"
  obtain nd r where boot: "replica_bootstrap ?env example_sum example_replica_config (Inr ()) (1, 2, 3, 4) 0
      example_connections = Inr (Some (\<lparr>ex_service = 0, ex_state = 0, ex_spawned = []\<rparr>, r))"
    and r: "r = replica_new (example_view (SeqNo 0)) (SeqNo 0) 1 \<lparr>eh_queue = [], eh_connected = True\<rparr> nd"
    using example_replica by blast
  have "replica_step ?env 0 (1, 2, 3, 4) (None, r) = Some (Inr (Some At_Normal, r))"
    by (simp add: r run_phase_def replica_new_def synchronizer_new_def sync_queue_new_def can_process_stops_def
        begin_normal_def normal_next_message_def consensus_poll_def consensus_new_def tbo_queue_new_def
        next_batch_def log_new_def omap_laws [OF list_omap_ok] Let_def)
  then have "(main_step ?env)\<^sup>*\<^sup>* (None, r) (Some At_Normal, r)" by (intro r_into_rtranclp ms_step)
  moreover from this have "replica_wf ?env r"
    by (intro replica_stays_wf [OF _ boot]) (simp_all add: list_omap_ok)
  ultimately show ?thesis using boot by blast
qed

end
