(* ===== verification/Wire.thy ===== *)
theory Wire
  imports Messages
begin

text \<open>
  The parts of \<open>src/bft/communication/message/mod.rs\<close> that handle headers and buffers inside
  other messages: the serde implementations of \<open>Header\<close>, and wire messages that own their
  payload.
\<close>

section \<open>Headers inside messages\<close>

text \<open>
  Stored messages carry their headers, which serde writes as a byte string; \<open>serde_bytes\<close>
  transports the bytes. Reading copies them into an array, which panics unless the lengths
  agree.
\<close>

definition header_serde_serialize :: "header \<Rightarrow> u8 list" where
  "header_serde_serialize h = header_bytes h"

definition header_serde_deserialize :: "u8 list \<Rightarrow> header res" where
  "header_serde_deserialize bytes =
     (if length bytes \<noteq> HEADER_LENGTH
      then Inl (Panic ''source slice length does not match destination slice length'')
      else Inr (header_of_bytes bytes))"

section \<open>Owned wire messages\<close>

text \<open>
  The three \<open>From\<close> implementations copy the payload into a box, a vector or a small vector,
  which have the same bytes.
\<close>

record owned_wire_message =
  ow_header :: header
  ow_payload :: "u8 list"

definition owned_from_wire :: "wire_message \<Rightarrow> owned_wire_message" where
  "owned_from_wire wm = \<lparr>ow_header = wm_header wm, ow_payload = wm_payload wm\<rparr>"

definition owned_borrowed :: "owned_wire_message \<Rightarrow> wire_message" where
  "owned_borrowed ow = \<lparr>wm_header = ow_header ow, wm_payload = ow_payload ow\<rparr>"

text \<open>
  \<open>with_owned_buffer\<close> compares two pointers. The address of the payload is an argument. The
  other pointer is made of the first byte of the buffer itself, as its expression has no
  reference operator.
\<close>

definition with_owned_buffer ::
  "nat \<Rightarrow> wire_message \<Rightarrow> u8 list \<Rightarrow> owned_wire_message option res" where
  "with_owned_buffer payload_addr wm buf =
     (case buf of
        [] \<Rightarrow> Inl (Panic ''index out of bounds'')
      | b # _ \<Rightarrow>
          (let buf_p = unat b in
           case wm_payload wm of
             [] \<Rightarrow> Inl (Panic ''index out of bounds'')
           | _ # _ \<Rightarrow>
               (let payload_p = payload_addr in
                if buf_p = payload_p then Inr (Some \<lparr>ow_header = wm_header wm, ow_payload = buf\<rparr>)
                else Inr None)))"

section \<open>Properties\<close>

text \<open>
  Headers inside messages round trip, and are read back without a panic exactly when the
  byte string has the length of a header.
\<close>

theorem header_serde_roundtrip:
  "(header_wf h \<longrightarrow> header_serde_deserialize (header_serde_serialize h) = Inr h) \<and>
   (\<forall>bytes h'. header_serde_deserialize bytes = Inr h' \<longrightarrow> header_serde_serialize h' = bytes) \<and>
   ((\<exists>s. header_serde_deserialize bytes = Inl (Panic s)) \<longleftrightarrow> length bytes \<noteq> HEADER_LENGTH)"
  by (auto simp: header_serde_deserialize_def header_serde_serialize_def length_header_bytes
      header_of_header_bytes header_bytes_of_bytes)

theorem header_serde_roundtrip_witness:
  "header_serde_deserialize (header_serde_serialize
     \<lparr>h_align = 0, h_version = 0, h_from = 1, h_to = 2, h_nonce = 3, h_length = 4,
      h_digest = replicate 32 7, h_signature = replicate 64 9\<rparr>) =
   Inr \<lparr>h_align = 0, h_version = 0, h_from = 1, h_to = 2, h_nonce = 3, h_length = 4,
      h_digest = replicate 32 7, h_signature = replicate 64 9\<rparr> \<and>
   (\<exists>s. header_serde_deserialize (replicate 127 0) = Inl (Panic s))"
  using header_serde_roundtrip [of "\<lparr>h_align = 0, h_version = 0, h_from = 1, h_to = 2, h_nonce = 3,
      h_length = 4, h_digest = replicate 32 7, h_signature = replicate 64 9\<rparr>" "replicate 127 0"]
  by (simp add: header_wf_def DIGEST_LENGTH_def SIGNATURE_LENGTH_def HEADER_LENGTH_def)

text \<open>
  Borrowing an owned message gives back the wire message it was made of. Taking over the
  buffer never does: no payload lies among the first 256 addresses, so the comparison fails
  for the message's own buffer as for any other.
\<close>

theorem owned_wire_messages:
  "owned_borrowed (owned_from_wire wm) = wm \<and>
   (256 \<le> addr \<and> buf \<noteq> [] \<and> wm_payload wm \<noteq> [] \<longrightarrow> with_owned_buffer addr wm buf = Inr None)"
proof -
  have "unat b \<noteq> addr" if "256 \<le> addr" for b :: u8
  proof -
    have "unat b < 2 ^ LENGTH(8)" by (rule unsigned_less)
    with that show ?thesis by simp
  qed
  then show ?thesis
    by (cases wm) (auto simp: owned_borrowed_def owned_from_wire_def with_owned_buffer_def
        split: list.splits)
qed

theorem owned_wire_messages_witness:
  "with_owned_buffer 4096 \<lparr>wm_header = \<lparr>h_align = 0, h_version = 0, h_from = 1, h_to = 2, h_nonce = 3,
     h_length = 2, h_digest = replicate 32 7, h_signature = replicate 64 9\<rparr>, wm_payload = [1, 2]\<rparr> [1, 2] = Inr None"
  using owned_wire_messages [of "\<lparr>wm_header = \<lparr>h_align = 0, h_version = 0, h_from = 1, h_to = 2, h_nonce = 3,
     h_length = 2, h_digest = replicate 32 7, h_signature = replicate 64 9\<rparr>, wm_payload = [1, 2]\<rparr>" 4096 "[1, 2]"]
  by simp

end
