(* ===== verification/Lifecycle.thy ===== *)
theory Lifecycle
  imports Prelude
begin

text \<open>
  The life of the library's global data: the extensions of \<open>Result\<close>
  (\<open>src/bft/error/mod.rs\<close>), global variables (\<open>src/bft/globals/mod.rs\<close>), the asynchronous
  runtime with the Tokio backend the default features select
  (\<open>src/bft/async_runtime/mod.rs\<close>), and the initialisation of the library with the guard that
  undoes it (\<open>src/bft/mod.rs\<close>). Whether Tokio builds a runtime is a parameter.
\<close>

section \<open>Extensions of results\<close>

text \<open>
  An error of another library is its text, as far as the code looks at it.
\<close>

definition result_wrapped :: "error_kind \<Rightarrow> string + 'a \<Rightarrow> 'a res" where
  "result_wrapped k r = (case r of Inl e \<Rightarrow> Inl (Err (Wrapped k e)) | Inr x \<Rightarrow> Inr x)"

definition result_wrapped_msg :: "error_kind \<Rightarrow> string \<Rightarrow> string + 'a \<Rightarrow> 'a res" where
  "result_wrapped_msg k msg r =
     (case r of Inl e \<Rightarrow> Inl (Err (Wrapped k (msg @ '': '' @ e))) | Inr x \<Rightarrow> Inr x)"

definition result_simple :: "error_kind \<Rightarrow> 'e + 'a \<Rightarrow> 'a res" where
  "result_simple k r = (case r of Inl _ \<Rightarrow> Inl (Err (Simple k)) | Inr x \<Rightarrow> Inr x)"

definition result_simple_msg :: "error_kind \<Rightarrow> string \<Rightarrow> 'e + 'a \<Rightarrow> 'a res" where
  "result_simple_msg k msg r = (case r of Inl _ \<Rightarrow> Inl (Err (Wrapped k msg)) | Inr x \<Rightarrow> Inr x)"

lemma result_ext_Inr [simp]:
  "result_wrapped k (Inr x) = Inr x" "result_wrapped_msg k msg (Inr x) = Inr x"
  "result_simple k (Inr x) = Inr x" "result_simple_msg k msg (Inr x) = Inr x"
  by (simp_all add: result_wrapped_def result_wrapped_msg_def result_simple_def result_simple_msg_def)

section \<open>Global variables\<close>

text \<open>A \<open>Flag\<close> is the Boolean of its atomic.\<close>

record 'a global =
  gl_flag :: bool
  gl_value :: "'a option"

definition global_new :: "'a global" where
  "global_new = \<lparr>gl_flag = False, gl_value = None\<rparr>"

definition global_set :: "'a \<Rightarrow> 'a global \<Rightarrow> 'a global" where
  "global_set v g = g\<lparr>gl_value := Some v, gl_flag := True\<rparr>"

definition global_drop :: "'a global \<Rightarrow> 'a global" where
  "global_drop g = g\<lparr>gl_flag := False, gl_value := None\<rparr>"

definition global_get :: "'a global \<Rightarrow> 'a option" where
  "global_get g = (if gl_flag g then gl_value g else None)"

section \<open>The asynchronous runtime\<close>

definition tokio_init :: "(usize \<Rightarrow> string + 'r) \<Rightarrow> usize \<Rightarrow> 'r res" where
  "tokio_init build num_threads =
     result_wrapped_msg ErrorKind_AsyncRuntimeTokio ''Failed to build tokio runtime'' (build num_threads)"

definition runtime_init :: "(usize \<Rightarrow> string + 'r) \<Rightarrow> usize \<Rightarrow> 'r global \<Rightarrow> 'r global res" where
  "runtime_init build num_threads g =
     bind_res (tokio_init build num_threads) (\<lambda>rt. Inr (global_set rt g))"

definition runtime_drop :: "'r global \<Rightarrow> 'r global res" where
  "runtime_drop g = Inr (global_drop g)"

text \<open>The macro \<open>runtime\<close>, with which \<open>spawn\<close> and \<open>block_on\<close> begin.\<close>

definition runtime_get :: "'r global \<Rightarrow> 'r res" where
  "runtime_get g =
     (case global_get g of Some rt \<Rightarrow> Inr rt | None \<Rightarrow> Inl (Panic ''Async runtime wasn't initialized''))"

section \<open>Initialisation of the library\<close>

text \<open>
  With the default features the sockets have no global data: their \<open>init\<close> and \<open>drop\<close> do
  nothing.
\<close>

record 'r library =
  lib_initialized :: bool
  lib_runtime :: "'r global"

datatype init_guard = InitGuard

definition socket_init :: "unit res" where
  "socket_init = Inr ()"

definition socket_drop :: "unit res" where
  "socket_drop = Inr ()"

definition library_new :: "'r library" where
  "library_new = \<lparr>lib_initialized = False, lib_runtime = global_new\<rparr>"

definition library_init ::
  "(usize \<Rightarrow> string + 'r) \<Rightarrow> usize \<Rightarrow> 'r library \<Rightarrow> init_guard option res \<times> 'r library" where
  "library_init build async_threads lib =
     (if lib_initialized lib then (Inr None, lib)
      else (case runtime_init build async_threads (lib_runtime lib) of
              Inl e \<Rightarrow> (Inl e, lib)
            | Inr rt \<Rightarrow>
                (let lib = lib\<lparr>lib_runtime := rt\<rparr> in
                 case socket_init of
                   Inl e \<Rightarrow> (Inl e, lib)
                 | Inr _ \<Rightarrow> (Inr (Some InitGuard), lib\<lparr>lib_initialized := True\<rparr>))))"

text \<open>Dropping the guard unwraps the result of the global \<open>drop\<close>.\<close>

definition library_drop :: "'r library \<Rightarrow> 'r library res" where
  "library_drop lib =
     (let lib = lib\<lparr>lib_initialized := False\<rparr> in
      bind_res (runtime_drop (lib_runtime lib)) (\<lambda>rt.
      bind_res socket_drop (\<lambda>_. Inr (lib\<lparr>lib_runtime := rt\<rparr>))))"

definition init_guard_drop :: "'r library \<Rightarrow> 'r library res" where
  "init_guard_drop lib =
     (case library_drop lib of
        Inr lib \<Rightarrow> Inr lib
      | Inl _ \<Rightarrow> Inl (Panic ''called `Result::unwrap()` on an `Err` value''))"

section \<open>What a program sees\<close>

text \<open>
  A program calls \<open>init\<close> any number of times, with runtimes that are built or not, and drops
  the guards it was given. The state is the number of guards it holds and the globals.
\<close>

inductive library_step :: "(usize \<Rightarrow> string + 'r) \<Rightarrow> nat \<times> 'r library \<Rightarrow> nat \<times> 'r library \<Rightarrow> bool"
  for build :: "usize \<Rightarrow> string + 'r" where
  init_guarded: "library_init build n lib = (Inr (Some g), lib') \<Longrightarrow> library_step build (k, lib) (Suc k, lib')"
| init_again: "library_init build n lib = (Inr None, lib') \<Longrightarrow> library_step build (k, lib) (k, lib')"
| init_failed: "library_init build n lib = (Inl e, lib') \<Longrightarrow> library_step build (k, lib) (k, lib')"
| drop_guard: "init_guard_drop lib = Inr lib' \<Longrightarrow> library_step build (Suc k, lib) (k, lib')"

inductive_cases library_stepE: "library_step build a b"

definition library_inv :: "nat \<times> 'r library \<Rightarrow> bool" where
  "library_inv st =
     (case st of (k, lib) \<Rightarrow>
        k = (if lib_initialized lib then 1 else 0) \<and> gl_flag (lib_runtime lib) = lib_initialized lib \<and>
        (gl_value (lib_runtime lib) \<noteq> None) = lib_initialized lib)"

lemma library_inv_new: "library_inv (0, library_new)"
  by (simp add: library_inv_def library_new_def global_new_def)

lemma library_init_cases:
  assumes "library_init build n lib = (r, lib')"
  shows "r = Inr None \<and> lib_initialized lib \<and> lib' = lib \<or>
    (\<exists>e. r = Inl e \<and> \<not> lib_initialized lib \<and> lib' = lib) \<or>
    (\<exists>rt. r = Inr (Some InitGuard) \<and> \<not> lib_initialized lib \<and>
       lib' = lib\<lparr>lib_runtime := global_set rt (lib_runtime lib), lib_initialized := True\<rparr>)"
  using assms
  by (cases "tokio_init build n")
    (auto simp: library_init_def runtime_init_def socket_init_def Let_def split: if_splits)

lemma init_guard_drop_eq:
  "init_guard_drop lib = Inr (lib\<lparr>lib_initialized := False, lib_runtime := global_drop (lib_runtime lib)\<rparr>)"
  by (simp add: init_guard_drop_def library_drop_def runtime_drop_def socket_drop_def)

lemma library_step_inv:
  assumes "library_inv a" and "library_step build a b"
  shows "library_inv b"
  using assms(2,1)
  by (cases rule: library_step.cases)
    (auto dest!: library_init_cases simp: init_guard_drop_eq library_inv_def global_set_def
      global_drop_def split: if_splits)

interpretation lifecycle: kept_invariant "library_step build" library_inv for build
  by unfold_locales (rule library_step_inv)

lemma runtime_get_iff: "(\<exists>rt. runtime_get g = Inr rt) \<longleftrightarrow> gl_flag g \<and> gl_value g \<noteq> None"
  by (auto simp: runtime_get_def global_get_def split: option.splits)

text \<open>
  However a program initialises the library and drops its guards, it never holds two of
  them, and the runtime can be used exactly while it holds one; then \<open>init\<close> hands out no
  further guard and changes nothing.
\<close>

theorem runtime_guarded:
  assumes "(library_step build)\<^sup>*\<^sup>* (0, library_new) (k, lib)"
  shows "k \<le> 1 \<and> ((\<exists>rt. runtime_get (lib_runtime lib) = Inr rt) \<longleftrightarrow> k = 1) \<and>
    (k = 1 \<longrightarrow> library_init build n lib = (Inr None, lib))"
proof -
  have "library_inv (k, lib)" by (rule lifecycle.reachable_kept [OF assms library_inv_new])
  then show ?thesis by (auto simp: library_inv_def runtime_get_iff library_init_def split: if_splits)
qed

theorem runtime_guarded_witness:
  "\<exists>lib. (library_step (\<lambda>n :: usize. Inr n))\<^sup>*\<^sup>* (0, library_new) (1, lib) \<and>
     runtime_get (lib_runtime lib) = Inr 4 \<and> library_init (\<lambda>n :: usize. Inr n) 8 lib = (Inr None, lib)"
proof -
  let ?b = "\<lambda>n :: usize. (Inr n :: string + usize)"
  let ?lib = "(library_new :: usize library)\<lparr>lib_runtime := global_set 4 global_new, lib_initialized := True\<rparr>"
  have "library_init ?b 4 library_new = (Inr (Some InitGuard), ?lib)"
    by (simp add: library_init_def library_new_def runtime_init_def tokio_init_def socket_init_def)
  then have run: "(library_step ?b)\<^sup>*\<^sup>* (0, library_new) (1, ?lib)"
    using library_step.init_guarded [of ?b 4 library_new] by (metis One_nat_def r_into_rtranclp)
  with runtime_guarded [OF this, of 8] show ?thesis
    by (auto simp: runtime_get_def global_get_def global_set_def intro!: exI [of _ ?lib])
qed

end
