(* ===== verification/Channel.thy ===== *)
theory Channel
  imports Messages Lifecycle
begin

text \<open>
  Channels between tasks: the backend over \<open>futures::channel::mpsc\<close> the default features
  select (\<open>src/bft/communication/channel/futures_mpsc/mod.rs\<close>) and the message channel of a
  node, which has one channel for each class of messages
  (\<open>src/bft/communication/channel/mod.rs\<close>). The channel of the \<open>futures\<close> crate is the
  parameter \<open>mpsc\<close>; an asynchronous operation is modelled by one poll of its future. The
  other theories have the messages of a node's channel as a list in the order they are
  received; the theorem below says which orders these are.
\<close>

section \<open>The channel of the \<open>futures\<close> crate\<close>

datatype 'a poll = Ready 'a | Pending

datatype send_error = SendError_Full | SendError_Disconnected

record ('c, 'a) mpsc =
  mp_channel :: "usize \<Rightarrow> 'c"
  mp_poll_ready :: "'c \<Rightarrow> (send_error + unit) poll \<times> 'c"
  mp_try_send :: "'a \<Rightarrow> 'c \<Rightarrow> (send_error + unit) \<times> 'c"
  mp_poll_next :: "'c \<Rightarrow> 'a option poll \<times> 'c"
  mp_is_terminated :: "'c \<Rightarrow> bool"

text \<open>
  What its documentation says: a channel holds the messages sent and not yet received, in
  the order they were sent; asking for room changes nothing of that; and receiving waits or
  ends only when there is no message.
\<close>

definition mpsc_ok :: "('c, 'a) mpsc \<Rightarrow> ('c \<Rightarrow> 'a list) \<Rightarrow> bool" where
  "mpsc_ok ops contents \<longleftrightarrow>
     (\<forall>bound. contents (mp_channel ops bound) = []) \<and>
     (\<forall>c. contents (snd (mp_poll_ready ops c)) = contents c) \<and>
     (\<forall>a c. contents (snd (mp_try_send ops a c)) =
        (case fst (mp_try_send ops a c) of Inr _ \<Rightarrow> contents c @ [a] | Inl _ \<Rightarrow> contents c)) \<and>
     (\<forall>c. contents c =
        (case fst (mp_poll_next ops c) of
           Ready (Some a) \<Rightarrow> a # contents (snd (mp_poll_next ops c)) | _ \<Rightarrow> [])) \<and>
     (\<forall>c. \<not> (\<exists>a. fst (mp_poll_next ops c) = Ready (Some a)) \<longrightarrow> contents (snd (mp_poll_next ops c)) = []) \<and>
     (\<forall>c. mp_is_terminated ops c \<longrightarrow> contents c = [])"

section \<open>The channels of the library\<close>

definition channel_ready :: "('c, 'a) mpsc \<Rightarrow> 'c \<Rightarrow> unit res poll \<times> 'c" where
  "channel_ready ops c =
     (case mp_poll_ready ops c of
        (Ready (Inr _), c) \<Rightarrow> (Ready (Inr ()), c)
      | (Ready (Inl SendError_Full), c) \<Rightarrow> (Pending, c)
      | (Ready (Inl SendError_Disconnected), c) \<Rightarrow>
          (Ready (Inl (Err (Simple ErrorKind_CommunicationChannelFuturesMpsc))), c)
      | (Pending, c) \<Rightarrow> (Pending, c))"

definition channel_send :: "('c, 'a) mpsc \<Rightarrow> 'a \<Rightarrow> 'c \<Rightarrow> unit res poll \<times> 'c" where
  "channel_send ops a c =
     (case channel_ready ops c of
        (Pending, c) \<Rightarrow> (Pending, c)
      | (Ready (Inl e), c) \<Rightarrow> (Ready (Inl e), c)
      | (Ready (Inr _), c) \<Rightarrow>
          (case mp_try_send ops a c of
             (r, c) \<Rightarrow> (Ready (result_simple ErrorKind_CommunicationChannelFuturesMpsc r), c)))"

definition channel_recv :: "('c, 'a) mpsc \<Rightarrow> 'c \<Rightarrow> 'a res poll \<times> 'c" where
  "channel_recv ops c =
     (case mp_poll_next ops c of
        (Pending, c) \<Rightarrow> (Pending, c)
      | (Ready (Some a), c) \<Rightarrow> (Ready (Inr a), c)
      | (Ready None, c) \<Rightarrow> (Ready (Inl (Err (Simple ErrorKind_CommunicationChannelFuturesMpsc))), c))"

section \<open>Message channels\<close>

record ('m, 'q, 'r, 'c) message_channel =
  mc_other :: 'm
  mc_requests :: 'q
  mc_replies :: 'r
  mc_consensus :: 'c

record ('m, 'q, 'r, 'c, 's, 'o, 'p) channels =
  cs_other :: "('m, ('s, 'o, 'p) message) mpsc"
  cs_requests :: "('q, header \<times> 'o request_message) mpsc"
  cs_replies :: "('r, header \<times> 'p reply_message) mpsc"
  cs_consensus :: "('c, header \<times> consensus_message) mpsc"

definition new_message_channel ::
  "('m, 'q, 'r, 'c, 's, 'o, 'p) channels \<Rightarrow> usize \<Rightarrow> ('m, 'q, 'r, 'c) message_channel" where
  "new_message_channel ops bound =
     \<lparr>mc_other = mp_channel (cs_other ops) bound, mc_requests = mp_channel (cs_requests ops) bound,
      mc_replies = mp_channel (cs_replies ops) bound, mc_consensus = mp_channel (cs_consensus ops) bound\<rparr>"

definition message_channel_send ::
  "('m, 'q, 'r, 'c, 's, 'o, 'p) channels \<Rightarrow> ('s, 'o, 'p) message \<Rightarrow> ('m, 'q, 'r, 'c) message_channel
     \<Rightarrow> unit res poll \<times> ('m, 'q, 'r, 'c) message_channel" where
  "message_channel_send ops m mc =
     (case m of
        System h (SM_Request r) \<Rightarrow>
          apsnd (\<lambda>c. mc\<lparr>mc_requests := c\<rparr>) (channel_send (cs_requests ops) (h, r) (mc_requests mc))
      | System h (SM_Reply r) \<Rightarrow>
          apsnd (\<lambda>c. mc\<lparr>mc_replies := c\<rparr>) (channel_send (cs_replies ops) (h, r) (mc_replies mc))
      | System h (SM_Consensus cm) \<Rightarrow>
          apsnd (\<lambda>c. mc\<lparr>mc_consensus := c\<rparr>) (channel_send (cs_consensus ops) (h, cm) (mc_consensus mc))
      | _ \<Rightarrow> apsnd (\<lambda>c. mc\<lparr>mc_other := c\<rparr>) (channel_send (cs_other ops) m (mc_other mc)))"

text \<open>
  Receiving selects among the four channels. The macro \<open>select\<close> goes through its branches in
  a random order, which is an argument: it skips the channels that have ended, polls the
  others until one is ready, and panics when all have ended.
\<close>

datatype branch = B_Consensus | B_Requests | B_Replies | B_Other

definition branch_terminated ::
  "('m, 'q, 'r, 'c, 's, 'o, 'p) channels \<Rightarrow> branch \<Rightarrow> ('m, 'q, 'r, 'c) message_channel \<Rightarrow> bool" where
  "branch_terminated ops b mc =
     (case b of
        B_Consensus \<Rightarrow> mp_is_terminated (cs_consensus ops) (mc_consensus mc)
      | B_Requests \<Rightarrow> mp_is_terminated (cs_requests ops) (mc_requests mc)
      | B_Replies \<Rightarrow> mp_is_terminated (cs_replies ops) (mc_replies mc)
      | B_Other \<Rightarrow> mp_is_terminated (cs_other ops) (mc_other mc))"

definition recv_map :: "('a \<Rightarrow> 'b) \<Rightarrow> 'a res poll \<Rightarrow> 'b res poll" where
  "recv_map f p =
     (case p of Pending \<Rightarrow> Pending | Ready (Inl e) \<Rightarrow> Ready (Inl e) | Ready (Inr a) \<Rightarrow> Ready (Inr (f a)))"

definition branch_recv ::
  "('m, 'q, 'r, 'c, 's, 'o, 'p) channels \<Rightarrow> branch \<Rightarrow> ('m, 'q, 'r, 'c) message_channel
     \<Rightarrow> ('s, 'o, 'p) message res poll \<times> ('m, 'q, 'r, 'c) message_channel" where
  "branch_recv ops b mc =
     (case b of
        B_Consensus \<Rightarrow>
          map_prod (recv_map (\<lambda>(h, m). System h (SM_Consensus m))) (\<lambda>c. mc\<lparr>mc_consensus := c\<rparr>)
            (channel_recv (cs_consensus ops) (mc_consensus mc))
      | B_Requests \<Rightarrow>
          map_prod (recv_map (\<lambda>(h, m). System h (SM_Request m))) (\<lambda>c. mc\<lparr>mc_requests := c\<rparr>)
            (channel_recv (cs_requests ops) (mc_requests mc))
      | B_Replies \<Rightarrow>
          map_prod (recv_map (\<lambda>(h, m). System h (SM_Reply m))) (\<lambda>c. mc\<lparr>mc_replies := c\<rparr>)
            (channel_recv (cs_replies ops) (mc_replies mc))
      | B_Other \<Rightarrow>
          map_prod (recv_map (\<lambda>m. m)) (\<lambda>c. mc\<lparr>mc_other := c\<rparr>) (channel_recv (cs_other ops) (mc_other mc)))"

fun message_channel_recv ::
  "('m, 'q, 'r, 'c, 's, 'o, 'p) channels \<Rightarrow> branch list \<Rightarrow> bool \<Rightarrow> ('m, 'q, 'r, 'c) message_channel
     \<Rightarrow> ('s, 'o, 'p) message res poll \<times> ('m, 'q, 'r, 'c) message_channel" where
  "message_channel_recv ops [] live mc =
     (if live then Pending
      else Ready (Inl (Panic ''all futures in select! were completed, but no `complete =>` handler was provided'')),
      mc)"
| "message_channel_recv ops (b # bs) live mc =
     (if branch_terminated ops b mc then message_channel_recv ops bs live mc
      else (case branch_recv ops b mc of
              (Ready r, mc) \<Rightarrow> (Ready r, mc)
            | (Pending, mc) \<Rightarrow> message_channel_recv ops bs True mc))"

section \<open>What is in a message channel\<close>

definition branch_of :: "('s, 'o, 'p) message \<Rightarrow> branch" where
  "branch_of m =
     (case m of
        System _ (SM_Request _) \<Rightarrow> B_Requests
      | System _ (SM_Reply _) \<Rightarrow> B_Replies
      | System _ (SM_Consensus _) \<Rightarrow> B_Consensus
      | _ \<Rightarrow> B_Other)"

text \<open>The messages that wait in each channel, given what each holds.\<close>

record ('m, 'q, 'r, 'c, 's, 'o, 'p) contents =
  cn_other :: "'m \<Rightarrow> ('s, 'o, 'p) message list"
  cn_requests :: "'q \<Rightarrow> (header \<times> 'o request_message) list"
  cn_replies :: "'r \<Rightarrow> (header \<times> 'p reply_message) list"
  cn_consensus :: "'c \<Rightarrow> (header \<times> consensus_message) list"

definition channels_ok ::
  "('m, 'q, 'r, 'c, 's, 'o, 'p) channels \<Rightarrow> ('m, 'q, 'r, 'c, 's, 'o, 'p) contents \<Rightarrow> bool" where
  "channels_ok ops ct \<longleftrightarrow> mpsc_ok (cs_other ops) (cn_other ct) \<and> mpsc_ok (cs_requests ops) (cn_requests ct) \<and>
     mpsc_ok (cs_replies ops) (cn_replies ct) \<and> mpsc_ok (cs_consensus ops) (cn_consensus ct)"

definition waiting ::
  "('m, 'q, 'r, 'c, 's, 'o, 'p) contents \<Rightarrow> ('m, 'q, 'r, 'c) message_channel \<Rightarrow> branch
     \<Rightarrow> ('s, 'o, 'p) message list" where
  "waiting ct mc b =
     (case b of
        B_Consensus \<Rightarrow> map (\<lambda>(h, m). System h (SM_Consensus m)) (cn_consensus ct (mc_consensus mc))
      | B_Requests \<Rightarrow> map (\<lambda>(h, m). System h (SM_Request m)) (cn_requests ct (mc_requests mc))
      | B_Replies \<Rightarrow> map (\<lambda>(h, m). System h (SM_Reply m)) (cn_replies ct (mc_replies mc))
      | B_Other \<Rightarrow> cn_other ct (mc_other mc))"

lemma mpsc_laws:
  assumes "mpsc_ok ops ct"
  shows mpsc_new: "ct (mp_channel ops bound) = []"
    and mpsc_ready: "mp_poll_ready ops c = (r, d) \<Longrightarrow> ct d = ct c"
    and mpsc_send: "mp_try_send ops a c = (q, d) \<Longrightarrow> ct d = ct c @ (case q of Inr _ \<Rightarrow> [a] | Inl _ \<Rightarrow> [])"
    and mpsc_next: "mp_poll_next ops c = (n, d) \<Longrightarrow> ct c = (case n of Ready (Some a) \<Rightarrow> a # ct d | _ \<Rightarrow> [])"
    and mpsc_none: "mp_poll_next ops c = (n, d) \<Longrightarrow> \<not> (\<exists>a. n = Ready (Some a)) \<Longrightarrow> ct d = []"
    and mpsc_ended: "mp_is_terminated ops c \<Longrightarrow> ct c = []"
proof -
  note ok = assms [unfolded mpsc_ok_def]
  show "ct (mp_channel ops bound) = []" using ok by blast
  show "mp_poll_ready ops c = (r, d) \<Longrightarrow> ct d = ct c" using ok by (metis snd_conv)
  have "ct (snd (mp_try_send ops a c)) =
      (case fst (mp_try_send ops a c) of Inr _ \<Rightarrow> ct c @ [a] | Inl _ \<Rightarrow> ct c)" using ok by blast
  then show "mp_try_send ops a c = (q, d) \<Longrightarrow> ct d = ct c @ (case q of Inr _ \<Rightarrow> [a] | Inl _ \<Rightarrow> [])"
    by (cases q) auto
  show "mp_poll_next ops c = (n, d) \<Longrightarrow> ct c = (case n of Ready (Some a) \<Rightarrow> a # ct d | _ \<Rightarrow> [])"
    using ok by (metis fst_conv snd_conv)
  show "mp_poll_next ops c = (n, d) \<Longrightarrow> \<not> (\<exists>a. n = Ready (Some a)) \<Longrightarrow> ct d = []"
    using ok by (metis fst_conv snd_conv)
  show "mp_is_terminated ops c \<Longrightarrow> ct c = []" using ok by blast
qed

lemma channel_send_contents:
  assumes "mpsc_ok ops ct" and "channel_send ops a c = (p, c')"
  shows "ct c' = ct c @ (if p = Ready (Inr ()) then [a] else [])"
proof -
  obtain r d where ready: "mp_poll_ready ops c = (r, d)" by fastforce
  obtain q e where sent: "mp_try_send ops a d = (q, e)" by fastforce
  from mpsc_ready [OF assms(1) ready] mpsc_send [OF assms(1) sent] assms(2) show ?thesis
    by (auto simp: channel_send_def channel_ready_def result_simple_def ready sent
        split: poll.splits sum.splits send_error.splits)
qed

lemma channel_recv_contents:
  assumes "mpsc_ok ops ct" and "channel_recv ops c = (p, c')"
  shows "ct c = (case p of Ready (Inr a) \<Rightarrow> a # ct c' | _ \<Rightarrow> ct c')"
    and "(\<exists>a. p = Ready (Inr a)) \<longleftrightarrow> ct c \<noteq> []"
    and "p \<noteq> Ready (Inl (Panic s))"
proof -
  obtain n d where nxt: "mp_poll_next ops c = (n, d)" by fastforce
  note laws = mpsc_next [OF assms(1) nxt] mpsc_none [OF assms(1) nxt]
  show "ct c = (case p of Ready (Inr a) \<Rightarrow> a # ct c' | _ \<Rightarrow> ct c')"
    using assms(2) laws by (auto simp: channel_recv_def nxt split: poll.splits option.splits)
  show "(\<exists>a. p = Ready (Inr a)) \<longleftrightarrow> ct c \<noteq> []"
    using assms(2) laws(1) by (auto simp: channel_recv_def nxt split: poll.splits option.splits)
  show "p \<noteq> Ready (Inl (Panic s))"
    using assms(2) by (auto simp: channel_recv_def nxt split: poll.splits option.splits)
qed

lemma new_channel_empty: "channels_ok ops ct \<Longrightarrow> waiting ct (new_message_channel ops bound) b = []"
  by (cases b) (simp_all add: channels_ok_def waiting_def new_message_channel_def mpsc_new)

lemma send_waiting:
  assumes "channels_ok ops ct" and "message_channel_send ops m mc = (p, mc')"
  shows "waiting ct mc' b = waiting ct mc b @ (if p = Ready (Inr ()) \<and> branch_of m = b then [m] else [])"
proof -
  note send = channel_send_contents [where ops = "cs_other ops" and ct = "cn_other ct"]
    channel_send_contents [where ops = "cs_requests ops" and ct = "cn_requests ct"]
    channel_send_contents [where ops = "cs_replies ops" and ct = "cn_replies ct"]
    channel_send_contents [where ops = "cs_consensus ops" and ct = "cn_consensus ct"]
  have ok: "mpsc_ok (cs_other ops) (cn_other ct)" "mpsc_ok (cs_requests ops) (cn_requests ct)"
    "mpsc_ok (cs_replies ops) (cn_replies ct)" "mpsc_ok (cs_consensus ops) (cn_consensus ct)"
    using assms(1) by (simp_all add: channels_ok_def)
  note sent = send(1) [OF ok(1)] send(2) [OF ok(2)] send(3) [OF ok(3)] send(4) [OF ok(4)]
  show ?thesis
    using assms(2)
    by (cases b) (auto simp: message_channel_send_def waiting_def branch_of_def apsnd_def map_prod_def
        split: message.splits system_message.splits prod.splits dest!: sent)
qed

lemma recv_map_simps [simp]:
  "recv_map f (Ready (Inr a)) = Ready (Inr (f a))" "recv_map f (Ready (Inl e)) = Ready (Inl e)"
  "recv_map f Pending = Pending"
  by (simp_all add: recv_map_def)

text \<open>Receiving from one channel, in terms of what waits there.\<close>

lemma recv_map_waiting:
  assumes "mpsc_ok ops ct" and "channel_recv ops c = (p, c')"
  shows "map f (ct c) = (case recv_map f p of Ready (Inr m) \<Rightarrow> m # map f (ct c') | _ \<Rightarrow> map f (ct c'))"
    and "(\<exists>m. recv_map f p = Ready (Inr m)) \<longleftrightarrow> map f (ct c) \<noteq> []"
    and "recv_map f p \<noteq> Ready (Inl (Panic s))"
  using channel_recv_contents [OF assms]
  by (auto simp: recv_map_def split: poll.splits sum.splits)

lemma branch_recv_waiting:
  assumes ok: "channels_ok ops ct" and recv: "branch_recv ops b mc = (p, mc')"
  shows "waiting ct mc b = (case p of Ready (Inr m) \<Rightarrow> m # waiting ct mc' b | _ \<Rightarrow> waiting ct mc' b)"
    and "b' \<noteq> b \<Longrightarrow> waiting ct mc' b' = waiting ct mc b'"
    and "(\<exists>m. p = Ready (Inr m)) \<longleftrightarrow> waiting ct mc b \<noteq> []"
    and "p \<noteq> Ready (Inl (Panic s))"
proof -
  obtain p1 c1 p2 c2 p3 c3 p4 c4 where r:
    "channel_recv (cs_consensus ops) (mc_consensus mc) = (p1, c1)"
    "channel_recv (cs_requests ops) (mc_requests mc) = (p2, c2)"
    "channel_recv (cs_replies ops) (mc_replies mc) = (p3, c3)"
    "channel_recv (cs_other ops) (mc_other mc) = (p4, c4)"
    by (metis surj_pair)
  have ok: "mpsc_ok (cs_consensus ops) (cn_consensus ct)" "mpsc_ok (cs_requests ops) (cn_requests ct)"
    "mpsc_ok (cs_replies ops) (cn_replies ct)" "mpsc_ok (cs_other ops) (cn_other ct)"
    using ok by (simp_all add: channels_ok_def)
  note w = recv_map_waiting [OF ok(1) r(1), of "\<lambda>(h, m). System h (SM_Consensus m)"]
    recv_map_waiting [OF ok(2) r(2), of "\<lambda>(h, m). System h (SM_Request m)"]
    recv_map_waiting [OF ok(3) r(3), of "\<lambda>(h, m). System h (SM_Reply m)"]
    recv_map_waiting [OF ok(4) r(4), of "\<lambda>m. m", unfolded list.map_ident]
  show "waiting ct mc b = (case p of Ready (Inr m) \<Rightarrow> m # waiting ct mc' b | _ \<Rightarrow> waiting ct mc' b)"
    using recv by (cases b) (auto simp: waiting_def branch_recv_def r w(1,4,7,10) split: poll.split sum.split)
  show "b' \<noteq> b \<Longrightarrow> waiting ct mc' b' = waiting ct mc b'"
    using recv by (cases b; cases b') (auto simp: branch_recv_def waiting_def r)
  show "(\<exists>m. p = Ready (Inr m)) \<longleftrightarrow> waiting ct mc b \<noteq> []"
    using recv w(2,5,8,11) by (cases b) (auto simp: branch_recv_def waiting_def r)
  show "p \<noteq> Ready (Inl (Panic s))"
    using recv w(3,6,9,12) by (cases b) (auto simp: branch_recv_def r)
qed

lemma terminated_waiting: "channels_ok ops ct \<Longrightarrow> branch_terminated ops b mc \<Longrightarrow> waiting ct mc b = []"
  by (cases b) (auto simp: channels_ok_def branch_terminated_def waiting_def mpsc_ended)

text \<open>One poll of \<open>recv\<close> takes the first message of one channel, or leaves all as they are.\<close>

lemma recv_waiting:
  assumes "channels_ok ops ct" and "message_channel_recv ops bs live mc = (p, mc')"
  shows "(\<exists>m b. p = Ready (Inr m) \<and> waiting ct mc b = m # waiting ct mc' b \<and>
      (\<forall>b'. b' \<noteq> b \<longrightarrow> waiting ct mc' b' = waiting ct mc b')) \<or>
    (\<nexists>m. p = Ready (Inr m)) \<and> (\<forall>b. waiting ct mc' b = waiting ct mc b)"
  using assms(2)
proof (induction bs arbitrary: live mc)
  case (Cons b bs)
  show ?case
  proof (cases "branch_terminated ops b mc")
    case False
    obtain q mc1 where recv: "branch_recv ops b mc = (q, mc1)" by fastforce
    note w = branch_recv_waiting [OF assms(1) recv]
    show ?thesis
    proof (cases q)
      case (Ready r)
      with Cons.prems False recv have "p = Ready r" "mc' = mc1" by auto
      moreover have "waiting ct mc1 c = waiting ct mc c" if "r = Inl e" for c e
        using w(1,2) Ready that by (cases "c = b") auto
      ultimately show ?thesis using w(1,2) Ready by (cases r) auto
    next
      case Pending
      have same: "waiting ct mc1 c = waiting ct mc c" for c
        using w(1,2) Pending by (cases "c = b") auto
      from Pending Cons.prems False recv have "message_channel_recv ops bs True mc1 = (p, mc')" by simp
      from Cons.IH [OF this] show ?thesis unfolding same .
    qed
  qed (use Cons in auto)
qed (auto split: if_splits)

lemma recv_not_waiting:
  assumes "channels_ok ops ct" and "b \<in> set bs" and "waiting ct mc b \<noteq> []"
  shows "\<exists>r mc'. message_channel_recv ops bs live mc = (Ready r, mc') \<and> (\<forall>s. r \<noteq> Inl (Panic s))"
  using assms(2,3)
proof (induction bs arbitrary: live mc)
  case (Cons a bs)
  obtain q mc1 where recv: "branch_recv ops a mc = (q, mc1)" by fastforce
  note w = branch_recv_waiting [OF assms(1) recv]
  show ?case
  proof (cases "branch_terminated ops a mc")
    case True
    then have "a \<noteq> b" using terminated_waiting [OF assms(1)] Cons.prems(2) by blast
    with True Cons show ?thesis by auto
  next
    case False
    show ?thesis
    proof (cases q)
      case (Ready r)
      with False recv w(4) show ?thesis by auto
    next
      case Pending
      then have "a \<noteq> b" using w(3) Cons.prems(2) by auto
      moreover from this have "waiting ct mc1 b \<noteq> []" using w(2) Cons.prems(2) by metis
      ultimately show ?thesis using Cons False recv Pending by auto
    qed
  qed
qed simp

section \<open>Sequences of polls\<close>

text \<open>
  The polls of the senders and of the receiver, in the order they happen. The state has the
  messages sent and the messages received so far besides the channel.
\<close>

datatype ('s, 'o, 'p) poll_event = Poll_Send "('s, 'o, 'p) message" | Poll_Recv "branch list"

fun poll_step ::
  "('m, 'q, 'r, 'c, 's, 'o, 'p) channels \<Rightarrow> ('s, 'o, 'p) poll_event
     \<Rightarrow> ('s, 'o, 'p) message list \<times> ('s, 'o, 'p) message list \<times> ('m, 'q, 'r, 'c) message_channel
     \<Rightarrow> ('s, 'o, 'p) message list \<times> ('s, 'o, 'p) message list \<times> ('m, 'q, 'r, 'c) message_channel" where
  "poll_step ops (Poll_Send m) (sent, got, mc) =
     (case message_channel_send ops m mc of
        (Ready (Inr _), mc) \<Rightarrow> (sent @ [m], got, mc) | (_, mc) \<Rightarrow> (sent, got, mc))"
| "poll_step ops (Poll_Recv order) (sent, got, mc) =
     (case message_channel_recv ops order False mc of
        (Ready (Inr m), mc) \<Rightarrow> (sent, got @ [m], mc) | (_, mc) \<Rightarrow> (sent, got, mc))"

definition in_order ::
  "('m, 'q, 'r, 'c, 's, 'o, 'p) contents
     \<Rightarrow> ('s, 'o, 'p) message list \<times> ('s, 'o, 'p) message list \<times> ('m, 'q, 'r, 'c) message_channel \<Rightarrow> bool" where
  "in_order ct st =
     (case st of (sent, got, mc) \<Rightarrow>
        \<forall>b. filter (\<lambda>m. branch_of m = b) sent = filter (\<lambda>m. branch_of m = b) got @ waiting ct mc b)"

lemma poll_step_in_order:
  assumes ok: "channels_ok ops ct" and inv: "in_order ct st"
  shows "in_order ct (poll_step ops ev st)"
proof -
  obtain sent got mc where st: "st = (sent, got, mc)" by (cases st)
  show ?thesis
  proof (cases ev)
    case (Poll_Send m)
    obtain p mc' where "message_channel_send ops m mc = (p, mc')" by fastforce
    with send_waiting [OF ok this] inv show ?thesis
      by (auto simp: Poll_Send st in_order_def split: poll.split sum.split)
  next
    case (Poll_Recv order)
    obtain p mc' where recv: "message_channel_recv ops order False mc = (p, mc')" by fastforce
    from recv_waiting [OF ok this] show ?thesis
    proof (elim disjE exE conjE)
      fix m b assume m: "p = Ready (Inr m)" "waiting ct mc b = m # waiting ct mc' b"
        "\<forall>b'. b' \<noteq> b \<longrightarrow> waiting ct mc' b' = waiting ct mc b'"
      have "m \<in> set (filter (\<lambda>m. branch_of m = b) sent)" using inv m(2) by (simp add: st in_order_def)
      then have "branch_of m = b" by simp
      with inv m recv show ?thesis by (auto simp: Poll_Recv st in_order_def)
    qed (use inv recv in \<open>auto simp: Poll_Recv st in_order_def split: poll.split sum.split\<close>)
  qed
qed

section \<open>Properties\<close>

text \<open>
  C26. Messages arrive in order within their class. After any sequence of polls of senders and
  of the receiver on a new channel, whatever branch each selection tries first, the messages
  of a class that were sent are those received, followed by those that wait: none is lost,
  duplicated, made up, or overtaken by another of its class. And as long as a message
  waits, receiving neither waits nor panics.
\<close>

theorem channel_order:
  assumes "channels_ok ops ct"
    and "fold (poll_step ops) evs ([], [], new_message_channel ops bound) = (sent, got, mc)"
  shows "filter (\<lambda>m. branch_of m = b) sent = filter (\<lambda>m. branch_of m = b) got @ waiting ct mc b \<and>
    (waiting ct mc b \<noteq> [] \<and> b \<in> set order \<longrightarrow>
      (\<exists>r mc'. message_channel_recv ops order False mc = (Ready r, mc') \<and> (\<forall>s. r \<noteq> Inl (Panic s))))"
proof -
  have "in_order ct (fold (poll_step ops) evs ([], [], new_message_channel ops bound))"
  proof (rule fold_invariant [where Q = "\<lambda>_. True"])
    show "in_order ct ([], [], new_message_channel ops bound)"
      by (simp add: in_order_def new_channel_empty [OF assms(1)])
  qed (auto intro: poll_step_in_order [OF assms(1)])
  then show ?thesis
    using recv_not_waiting [OF assms(1), of b order mc False] by (auto simp: assms(2) in_order_def)
qed

text \<open>A channel with a bound that is never closed.\<close>

definition example_mpsc :: "(usize \<times> 'a list, 'a) mpsc" where
  "example_mpsc =
     \<lparr>mp_channel = (\<lambda>bound. (bound, [])),
      mp_poll_ready = (\<lambda>c. (if length (snd c) \<le> fst c then Ready (Inr ()) else Pending, c)),
      mp_try_send = (\<lambda>a c. if length (snd c) \<le> fst c then (Inr (), (fst c, snd c @ [a])) else (Inl SendError_Full, c)),
      mp_poll_next = (\<lambda>c. case snd c of [] \<Rightarrow> (Pending, c) | a # q \<Rightarrow> (Ready (Some a), (fst c, q))),
      mp_is_terminated = (\<lambda>_. False)\<rparr>"

lemma example_mpsc_ok: "mpsc_ok example_mpsc snd"
  by (auto simp: mpsc_ok_def example_mpsc_def split: list.splits)

theorem channel_order_witness:
  "\<exists>mc. fold (poll_step \<lparr>cs_other = example_mpsc, cs_requests = example_mpsc, cs_replies = example_mpsc,
         cs_consensus = example_mpsc\<rparr>)
       [Poll_Send (Timeout (Timeout_Cst (SeqNo 1))), Poll_Send (Timeout (Timeout_Cst (SeqNo 2))),
        Poll_Send (DisconnectedTx (NodeId 3)), Poll_Recv [B_Consensus, B_Other, B_Requests, B_Replies]]
       ([], [], new_message_channel \<lparr>cs_other = example_mpsc, cs_requests = example_mpsc,
         cs_replies = example_mpsc, cs_consensus = example_mpsc\<rparr> 1) =
     ([Timeout (Timeout_Cst (SeqNo 1)), Timeout (Timeout_Cst (SeqNo 2))],
      [Timeout (Timeout_Cst (SeqNo 1)) :: (nat, nat, nat) message], mc) \<and>
     snd (mc_other mc) = [Timeout (Timeout_Cst (SeqNo 2))] \<and>
     (\<exists>r mc'. message_channel_recv \<lparr>cs_other = example_mpsc, cs_requests = example_mpsc,
         cs_replies = example_mpsc, cs_consensus = example_mpsc\<rparr> [B_Other] False mc = (Ready r, mc'))"
proof -
  let ?ops = "\<lparr>cs_other = example_mpsc, cs_requests = example_mpsc, cs_replies = example_mpsc,
    cs_consensus = example_mpsc\<rparr> ::
      (usize \<times> (nat, nat, nat) message list, usize \<times> (header \<times> nat request_message) list,
       usize \<times> (header \<times> nat reply_message) list, usize \<times> (header \<times> consensus_message) list, nat, nat, nat) channels"
  let ?ct = "\<lparr>cn_other = snd, cn_requests = snd, cn_replies = snd, cn_consensus = snd\<rparr>"
  let ?t = "\<lambda>n. Timeout (Timeout_Cst (SeqNo n)) :: (nat, nat, nat) message"
  let ?evs = "[Poll_Send (?t 1), Poll_Send (?t 2), Poll_Send (DisconnectedTx (NodeId 3)),
    Poll_Recv [B_Consensus, B_Other, B_Requests, B_Replies]]"
  have ok: "channels_ok ?ops ?ct" by (simp add: channels_ok_def example_mpsc_ok)
  have run: "\<exists>mc. fold (poll_step ?ops) ?evs ([], [], new_message_channel ?ops 1) = ([?t 1, ?t 2], [?t 1], mc)"
    by (simp add: new_message_channel_def message_channel_send_def channel_send_def channel_ready_def
        example_mpsc_def result_simple_def branch_terminated_def branch_recv_def channel_recv_def)
  then obtain mc where run: "fold (poll_step ?ops) ?evs ([], [], new_message_channel ?ops 1) = ([?t 1, ?t 2], [?t 1], mc)"
    by blast
  from channel_order [OF ok run, of B_Other "[B_Other]"]
  have "snd (mc_other mc) = [?t 2] \<and>
      (\<exists>r mc'. message_channel_recv ?ops [B_Other] False mc = (Ready r, mc'))"
    by (auto simp: branch_of_def waiting_def)
  with run show ?thesis by blast
qed

end
