(* ===== verification/Spec2Isabelle.thy ===== *)
theory Spec2Isabelle
  imports ViewChange Agreement Client Recovery Wellformed Wire Channel
begin

text \<open>
  \<^bold>\<open>bafomet\<close>: Byzantine fault tolerant state machine replication. \<open>n\<close> replicas, of
  which up to \<open>f\<close> may be faulty, order the requests of clients by consensus, execute them and
  reply; a client accepts a reply that \<open>f + 1\<close> replicas agree on. This library models the
  crate and proves what its parts guarantee. All paths below are under \<open>src/\<close> of the
  repository.

  \<^bold>\<open>The parts and how they interact.\<close> A \<^emph>\<open>node\<close> connects to its peers, signs and sends
  messages, and has one task per connection that puts the messages received on the node's
  channel, where also timeouts and the executor's replies arrive. A \<^emph>\<open>replica\<close> runs a main
  loop over that channel. In the normal phase it logs client requests and runs one instance
  of \<^emph>\<open>consensus\<close> after the other on batches of request digests: the leader of the view
  proposes (PRE-PREPARE), all vote twice (PREPARE, COMMIT), and a quorum of commits decides.
  The \<^emph>\<open>log\<close> keeps requests and votes; a decided batch is handed to the \<^emph>\<open>executor\<close> thread,
  which applies it to the application and returns the replies, every so often with the state
  for a checkpoint. The \<^emph>\<open>synchroniser\<close> watches requests; when they are not executed in time
  it forwards them, then stops the view (STOP), collects what the replicas know (STOP-DATA)
  and continues the open instance under the next leader (SYNC). \<^emph>\<open>State transfer\<close> brings a
  replica that is behind to the state a quorum reports.

  \<^bold>\<open>How the model reads.\<close> Structs are records, enums datatypes, one definition is one
  function of the source under its name (with a prefix where names clash: \<open>log_insert\<close> is
  \<open>Log::insert\<close>). A method with \<open>&mut self\<close> takes its state last and returns it updated. A
  result \<open>'a res\<close> is \<open>Inr\<close> of the value, \<open>Inl (Err e)\<close> where the source returns an error, and
  \<open>Inl (Panic s)\<close> where it panics, so every early return, \<open>unwrap\<close>, index and slice is a
  branch. \<open>u32\<close>, \<open>u64\<close>, \<open>i32\<close> are words and wrap; \<open>usize\<close> is a natural number, with the
  wrap-around written out where a subtraction or a product can leave the range. A spawned
  task is a value in the state of its node, run by a definition of its own. An \<open>async\<close>
  function that waits is cut where it waits: a replica is its state with the place where it
  is suspended. The clock and fresh seeds are arguments.

  \<^bold>\<open>Theories.\<close>
  \<^item> \<open>Prelude\<close>: integers, errors (\<open>bft/error\<close>), \<open>Vec\<close>, \<open>VecDeque\<close> and \<open>HashMap\<close>; the locales
    \<open>kept_invariant\<close> and \<open>forward_simulation\<close> that the state machines below interpret.
  \<^item> \<open>Lifecycle\<close>: \<open>bft/error\<close> (extensions of \<open>Result\<close>), \<open>bft/globals\<close>, \<open>bft/async_runtime\<close>,
    \<open>bft/mod.rs\<close>. The runtime can be used exactly while a program holds the one guard of \<open>init\<close>.
  \<^item> \<open>Ordering\<close>: \<open>bft/ordering\<close>. \<open>SeqNo\<close> with both its orders (\<open>partial_cmp\<close>, and \<open>linorder\<close> for the
    derived \<open>Ord\<close>), \<open>seq_index\<close>, and the queues \<open>tbo_queue_message\<close>, \<open>tbo_pop_message\<close>,
    \<open>tbo_advance_message_queue\<close>, which implement the locale \<open>ordered_queue\<close>.
  \<^item> \<open>Core\<close>: \<open>NodeId\<close> of \<open>bft/communication\<close>, \<open>SystemParams\<close> of \<open>bft/core\<close>, \<open>ViewInfo\<close> of
    \<open>bft/core/server\<close>; quorums (locale \<open>byzantine_quorums\<close>) and the rotation of leaders.
  \<^item> \<open>Crypto\<close>: \<open>bft/crypto/hash\<close> with \<open>blake3_blake3\<close>, \<open>bft/crypto/signature\<close> with
    \<open>ring_ed25519\<close>, little-endian encodings. \<open>Prng\<close>: \<open>bft/prng\<close>, with its bijectivity.
  \<^item> \<open>Messages\<close> and \<open>Wire\<close>: \<open>bft/communication/message\<close>, with the data messages carry from
    \<open>bft/consensus/log\<close>, \<open>bft/sync\<close>, \<open>bft/cst\<close> and \<open>bft/executable\<close>; headers as bytes, their round
    trips, owned wire messages.
  \<^item> \<open>Channel\<close>: \<open>bft/communication/channel\<close>. The four queues of a node's channel; a channel
    delivers every class of messages in the order sent. The theories below have a node's
    channel as the list of messages in the order they are received.
  \<^item> \<open>Communication\<close> and \<open>Connection\<close>: \<open>bft/communication/mod.rs\<close> and \<open>serialize\<close>. Sending
    (\<open>node_send\<close>, \<open>node_broadcast\<close>, \<open>send_to_value\<close>), the environment record \<open>env\<close>, connecting
    (\<open>tx_side_connect_task\<close>, \<open>rx_side_accept_task\<close>), receiving (\<open>handle_connected_rx\<close>,
    \<open>receive_loop\<close>), the bootstrap (\<open>node_bootstrap\<close>) and \<open>SendNode\<close>.
  \<^item> \<open>Executable\<close>: \<open>bft/executable\<close>. \<open>Timeouts\<close>: \<open>bft/timeouts\<close>.
  \<^item> \<open>Log\<close>: \<open>bft/consensus/log\<close>. \<open>decision_log\<close> with \<open>last_decision\<close>, \<open>to_be_decided\<close> and
    \<open>clear_last_occurrences\<close>; \<open>log\<close> with \<open>log_insert\<close>, \<open>next_batch\<close>, \<open>finalize_batch\<close>,
    \<open>finalize_checkpoint\<close>, \<open>snapshot\<close>, \<open>log_install_state\<close>. Each has its functional
    specification, and \<open>log_wf\<close> is kept.
  \<^item> \<open>Consensus\<close>, with \<open>Certificates\<close> and \<open>Agreement\<close>: \<open>bft/consensus/mod.rs\<close>. \<open>consensus_poll\<close>,
    \<open>propose\<close>, \<open>consensus_process_message\<close> and the handlers of its phases. \<open>instance_step\<close> is
    any such operation in one view; \<open>instance_inv\<close> relates the counters of an instance to the
    votes in the log, and gives the certificate of a decision. An instance refines the voting
    machine \<open>abstract_step\<close> and casts one commit vote, from which agreement follows below.
  \<^item> \<open>Sync\<close>, with \<open>Stopping\<close> and \<open>ViewChange\<close>: \<open>bft/sync\<close>. Timers of requests, \<open>process_stopping\<close>,
    \<open>process_stopping_data\<close>, \<open>process_syncing\<close>, the predicates on collects (\<open>sound_of\<close>,
    \<open>binds\<close>, \<open>certified_value\<close>, ...), \<open>validate_signature\<close>, \<open>finalize\<close>. The lemmas follow a view
    change from the first STOP to the decision of the continued instance.
  \<^item> \<open>Cst\<close>: \<open>bft/cst\<close>; the two kinds of replies are counted by one argument, the locale
    \<open>collecting\<close>. \<open>Recovery\<close> puts log, snapshot and executor together.
  \<^item> \<open>Server\<close>, with \<open>Replica\<close> and \<open>Wellformed\<close>: \<open>bft/core/server\<close>. The bootstrap, the three
    phases (\<open>update_retrieving_state\<close>, \<open>update_sync_phase\<close>, \<open>update_normal_phase\<close>) and the loop
    (\<open>run_phase\<close>, \<open>resume_phase\<close>, \<open>replica_step\<close>); decided batches are executed, the loop gets
    back to the network, and \<open>replica_wf\<close> is kept by every step from the bootstrap on.
  \<^item> \<open>Client\<close>: \<open>bft/core/client\<close>. Waiting, counting and delivering replies; the sections
    between taking and releasing a lock are definitions of their own, which are interleaved.

  \<^bold>\<open>Parameters.\<close> What is not in the repository is an argument: BLAKE3 and Ed25519
  (record \<open>crypto\<close>, \<open>crypto_ok\<close>: the lengths of outputs, and that own signatures verify), the
  linked hash map (\<open>omap_ok\<close>: insertion order, unique keys), the integer map of cancelled
  timeouts (\<open>intmap_ok\<close>), the channel of the \<open>futures\<close> crate (\<open>mpsc_ok\<close>: first in, first out),
  the application's codec, which may fail or panic (a round trip is assumed where messages are
  read back), the service (nothing is assumed), the order in which hash maps and sets are
  iterated (\<open>hash_order\<close>: some permutation), the outcomes of connection attempts and TLS
  handshakes, and the bytes of a stream. Each property that uses such a law has a witness
  with a concrete parameter.

  \<^bold>\<open>Bounds and termination.\<close> All definitions terminate. Loops over data are structural;
  \<open>receive_loop\<close> ends as every header read shortens the stream; connecting takes the \<open>RETRY\<close>
  attempts of the source (180). The endless main loop is the relation of single steps, so
  nothing is cut off; that it leaves the queues for the network is stated with the number of
  iterations, at most one per queued message and one more. Sequence numbers wrap at \<open>2\<^sup>3\<^sup>1\<close>
  as in the source; statements that need distance from the wrap say so.

  \<^bold>\<open>What agreement needs beyond the code.\<close> Votes are counted without their senders
  (\<open>one_voter_decides\<close>) and received headers are not verified, so the theorem below assumes
  that counted commits come from distinct members and that those of correct members are
  theirs. It also assumes what cryptography gives, that a header's digest identifies the
  proposal. It is about one view: across views the recovered value of \<open>view_change_certificate\<close>
  counts, whose exchange the code does not complete (\<open>sync_never_accepted\<close>). Theorems of this
  kind state what the code does where it falls short of what it means to do.

  \<^bold>\<open>Not modelled.\<close> The inside of the asynchronous runtime, the thread pools and the sockets:
  they pass every call on to other crates, and what they do is input and output. The
  backends that are off by default (SHA-2, flume, async-channel, async-std, rio). The endless
  loop that accepts sockets, whose body, the accepting task, is modelled. Accessors that
  return a field are the selectors of the records. \<open>Debug\<close> and \<open>Display\<close> of errors; the
  constructors of \<open>bft/collections\<close>, which only choose a hasher. Memory limits and integer
  overflow of counters of queued messages. The example programs and the build script, which
  writes the list of error kinds.
\<close>

section \<open>Agreement\<close>

text \<open>
  C1. Agreement. Let \<open>n = 3f + 1\<close> and let two replicas \<open>a\<close> and \<open>b\<close> decide in the same view,
  each in an instance that started idle. Suppose the commits each of them counted come from
  distinct members, at most \<open>f\<close> members are faulty, every other member runs the modelled
  instance and its counted commits are the votes of that run, and the digest in a proposal's
  header identifies the proposal (a collision-free hash, and headers that match their
  payload). Then both decide the same batch. That a correct member never votes for two
  values is not assumed but shown of the code, as is the size of the certificates.
\<close>

theorem agreement:
  fixes envs :: "node_id \<Rightarrow> ('s, 'o, 'p) env"
  assumes "params_tight (vi_params view)" and "F \<subseteq> set (view_targets view)" and "card F \<le> view_f view"
    and run_a: "(instance_step (envs a) view)\<^sup>*\<^sup>* (c0, lg0, nd0) (c, lg, nd)" "co_phase c0 = Phase_Init"
      "consensus_process_message (envs a) h m view lg nd c = Inr (CS_Decided ds, c', lg', nd')"
    and run_b: "(instance_step (envs b) view)\<^sup>*\<^sup>* (k0, rg0, md0) (k, rg, md)" "co_phase k0 = Phase_Init"
      "consensus_process_message (envs b) h2 m2 view rg md k = Inr (CS_Decided es, k', rg', md')"
    and voters: "distinct (map voter (new_commits lg0 lg'))" "voter ` set (new_commits lg0 lg') \<subseteq> set (view_targets view)"
      "distinct (map voter (new_commits rg0 rg'))" "voter ` set (new_commits rg0 rg') \<subseteq> set (view_targets view)"
    and correct: "\<And>x. x \<notin> F \<Longrightarrow> successively (instance_step (envs x) view) (trace x)"
      "\<And>v d. v \<in> set (new_commits lg0 lg' @ new_commits rg0 rg') \<Longrightarrow> voter v \<notin> F \<Longrightarrow>
         cm_kind (sm_message v) = Commit d \<Longrightarrow> votes_commit (trace (voter v)) d"
    and digests: "\<And>p q. p \<in> set (new_proposals lg0 lg') \<Longrightarrow> q \<in> set (new_proposals rg0 rg') \<Longrightarrow>
      header_digest (sm_header p) = header_digest (sm_header q) \<Longrightarrow> sm_message p = sm_message q"
  shows "ds = es"
proof -
  obtain pp where pp: "new_proposals lg0 lg' = [pp]" "cm_kind (sm_message pp) = PrePrepare ds"
    "length (new_commits lg0 lg') = view_quorum view"
    "\<forall>v \<in> set (new_commits lg0 lg'). cm_kind (sm_message v) = Commit (header_digest (sm_header pp))"
    by (rule decision_votes [OF run_a])
  obtain qq where qq: "new_proposals rg0 rg' = [qq]" "cm_kind (sm_message qq) = PrePrepare es"
    "length (new_commits rg0 rg') = view_quorum view"
    "\<forall>v \<in> set (new_commits rg0 rg'). cm_kind (sm_message v) = Commit (header_digest (sm_header qq))"
    by (rule decision_votes [OF run_b])
  obtain x y where xy: "x \<in> set (new_commits lg0 lg')" "y \<in> set (new_commits rg0 rg')"
    "voter x = voter y" "voter x \<notin> F"
    by (rule common_voter [OF assms(1-3) pp(3) voters(1,2) qq(3) voters(3,4)])
  have "votes_commit (trace (voter x)) (header_digest (sm_header pp))"
    by (rule correct(2)) (use xy pp(4) in auto)
  moreover have "votes_commit (trace (voter x)) (header_digest (sm_header qq))"
    unfolding xy(3) by (rule correct(2)) (use xy qq(4) in auto)
  ultimately have "header_digest (sm_header pp) = header_digest (sm_header qq)"
    by (rule one_commit_vote [OF correct(1) [OF xy(4)]])
  then have "sm_message pp = sm_message qq" by (intro digests) (simp_all add: pp(1) qq(1))
  then show ?thesis using pp(2) qq(2) by simp
qed

theorem agreement_witness:
  "\<exists>c lg nd ds c' lg' nd' k rg md es k' rg' md'.
     consensus_process_message (example_env :: (nat, nat, nat) env) (fst (example_commit 2))
       (snd (example_commit 2)) (example_view (SeqNo 0)) lg nd c = Inr (CS_Decided ds, c', lg', nd') \<and>
     consensus_process_message (example_env :: (nat, nat, nat) env) (fst (example_commit 3))
       (snd (example_commit 3)) (example_view (SeqNo 0)) rg md k = Inr (CS_Decided es, k', rg', md') \<and>
     map voter (new_commits example_log lg') = map NodeId [0, 1, 2] \<and>
     map voter (new_commits example_log rg') = map NodeId [1, 2, 3] \<and>
     votes_commit [(c, lg, nd)] (Digest (replicate 32 7)) \<and> ds = es"
proof -
  let ?env = "example_env :: (nat, nat, nat) env" and ?v = "example_view (SeqNo 0)"
  let ?c0 = "consensus_new (SeqNo 5) 1" and ?d = "Digest (replicate 32 7)"
  obtain c lg nd lg' where a: "example_decides [0, 1, 2] (c, lg, nd) lg'" "votes_commit [(c, lg, nd)] ?d"
    using example_decides_ex [of 0 1 2] by (metis prod_cases3)
  obtain k rg md rg' where b: "example_decides [1, 2, 3] (k, rg, md) rg'"
    using example_decides_ex [of 1 2 3] by (metis prod_cases3)
  obtain ds c' nd' where da: "consensus_process_message ?env (fst (example_commit 2)) (snd (example_commit 2)) ?v lg nd c =
      Inr (CS_Decided ds, c', lg', nd')" using a(1) by (auto simp: example_decides_def)
  obtain es k' md' where db: "consensus_process_message ?env (fst (example_commit 3)) (snd (example_commit 3)) ?v rg md k =
      Inr (CS_Decided es, k', rg', md')" using b by (auto simp: example_decides_def)
  have runs: "(instance_step ?env ?v)\<^sup>*\<^sup>* (?c0, example_log, example_node) (c, lg, nd)"
    "(instance_step ?env ?v)\<^sup>*\<^sup>* (?c0, example_log, example_node) (k, rg, md)"
    using a(1) b by (simp_all add: example_decides_def)
  note votes = example_decides_votes [OF a(1)] example_decides_votes [OF b]
  have members: "distinct (map NodeId [0, 1, 2])" "distinct (map NodeId [1, 2, 3])"
    "set (map NodeId [0, 1, 2]) \<subseteq> set (view_targets ?v)" "set (map NodeId [1, 2, 3]) \<subseteq> set (view_targets ?v)"
    by (simp_all add: example_targets)
  have "ds = es"
  proof (rule agreement [where envs = "\<lambda>_. ?env" and F = "{NodeId 3}" and trace = "\<lambda>_. [(c, lg, nd)]",
        OF _ _ _ runs(1) _ da runs(2) _ db])
    show "params_tight (vi_params ?v)" by (simp add: params_tight_def params_wf_def example_view_def)
    show "voter ` set (new_commits example_log lg') \<subseteq> set (view_targets ?v)"
      using members(3) votes(1) by (metis set_map)
    show "voter ` set (new_commits example_log rg') \<subseteq> set (view_targets ?v)"
      using members(4) votes(4) by (metis set_map)
  qed (use votes members a(2) in \<open>auto simp: consensus_new_def example_targets\<close>)
  then show ?thesis using da db votes(1,4) a(2) by blast
qed

end
